(* ===== verification/Prelude.thy ===== *)
theory Prelude
  imports "HOL-Library.Word" "HOL-Library.List_Lexorder"
begin

text \<open>
  Shared vocabulary of the development: JavaScript strings as lists of UTF-16 code
  units, the string operations the user interface scripts call (\<open>indexOf\<close>,
  \<open>slice\<close>, \<open>replace\<close>, \<open>trim\<close>, \<open>toLowerCase\<close>, \<open>join\<close>, decimal
  rendering of integers), property lookup on object literals, the host environment
  the scripts read (clock, locale), and the theorem collections the component
  theories extend.
\<close>

named_theorems emit_simps "equations that unfold string-building code"
named_theorems esc_simps "strings that HTML escaping leaves unchanged"

section \<open>Code units and literals\<close>

text \<open>A JavaScript string is a sequence of 16-bit code units.\<close>

type_synonym cu = "16 word"
type_synonym ustr = "cu list"

definition ch :: "char \<Rightarrow> cu" where
  "ch c = of_char c"

primrec L :: "string \<Rightarrow> ustr" where
  "L [] = []"
| "L (c # cs) = ch c # L cs"

lemma unat_ch: "unat (ch c) = of_char c"
proof -
  have b: "of_char c < (256::nat)" by simp
  have w: "ch c = word_of_nat (of_char c)" by (simp only: ch_def of_nat_of_char)
  have "unat (ch c) = of_char c mod 65536" unfolding w by (simp only: unat_of_nat) simp
  also have "\<dots> = of_char c" using b by (intro mod_less) linarith
  finally show ?thesis .
qed

lemma ch_eq [simp]: "ch c = ch d \<longleftrightarrow> c = d"
  by (metis of_char_eq_iff unat_ch)

lemma ch_less: "unat (ch c) < 256"
  by (simp add: unat_ch)

lemma L_eq [simp]: "L s = L t \<longleftrightarrow> s = t"
proof (induction s arbitrary: t)
  case Nil
  then show ?case by (cases t) auto
next
  case (Cons c s)
  then show ?case by (cases t) auto
qed

lemma L_append: "L (s @ t) = L s @ L t"
  by (induction s) auto

lemma length_L [simp]: "length (L s) = length s"
  by (induction s) auto

lemma set_L: "set (L s) = ch ` set s"
  by (induction s) auto

lemma L_Nil_iff [simp]: "L s = [] \<longleftrightarrow> s = []" "[] = L s \<longleftrightarrow> s = []"
  by (cases s; simp)+

section \<open>String operations\<close>

text \<open>\<open>s.indexOf(p) === 0\<close>.\<close>

fun has_prefix :: "'a list \<Rightarrow> 'a list \<Rightarrow> bool" where
  "has_prefix [] s = True"
| "has_prefix (p # ps) [] = False"
| "has_prefix (p # ps) (c # cs) = (p = c \<and> has_prefix ps cs)"

lemma has_prefix_iff: "has_prefix p s \<longleftrightarrow> (\<exists>r. s = p @ r)"
  by (induction p s rule: has_prefix.induct) auto

lemma has_prefix_append [simp]: "has_prefix p (p @ r)"
  by (auto simp: has_prefix_iff)

lemma has_prefix_drop: "has_prefix p s \<Longrightarrow> s = p @ drop (length p) s"
  by (auto simp: has_prefix_iff)

text \<open>\<open>s.indexOf(p) !== -1\<close>.\<close>

fun contains_sub :: "'a list \<Rightarrow> 'a list \<Rightarrow> bool" where
  "contains_sub p [] = (p = [])"
| "contains_sub p (c # cs) = (has_prefix p (c # cs) \<or> contains_sub p cs)"

text \<open>
  \<open>s.replace(/u/g, r)\<close> for a pattern of one code unit, and for a literal pattern
  of several; the second scans on after each match and never rescans the inserted text.
\<close>

definition replace_unit :: "'a \<Rightarrow> 'a list \<Rightarrow> 'a list \<Rightarrow> 'a list" where
  "replace_unit u r s = concat (map (\<lambda>c. if c = u then r else [c]) s)"

lemma replace_unit_simps [simp]:
  "replace_unit u r [] = []"
  "replace_unit u r (c # s) = (if c = u then r else [c]) @ replace_unit u r s"
  by (simp_all add: replace_unit_def)

lemma replace_unit_append [simp]:
  "replace_unit u r (s @ t) = replace_unit u r s @ replace_unit u r t"
  by (simp add: replace_unit_def)

function replace_sub :: "'a list \<Rightarrow> 'a list \<Rightarrow> 'a list \<Rightarrow> 'a list" where
  "replace_sub p r [] = []"
| "replace_sub p r (c # cs) =
     (if p \<noteq> [] \<and> has_prefix p (c # cs) then r @ replace_sub p r (drop (length p) (c # cs))
      else c # replace_sub p r cs)"
  by pat_completeness auto
termination
  by (relation "measure (\<lambda>(p, r, s). length s)") (auto simp: has_prefix_iff neq_Nil_conv)

text \<open>
  \<open>s.trim()\<close>: the white space and line terminators of ECMAScript.
\<close>

definition js_space :: "cu \<Rightarrow> bool" where
  "js_space c \<longleftrightarrow> c \<in> {0x9, 0xA, 0xB, 0xC, 0xD, 0x20, 0xA0, 0x1680, 0x2028, 0x2029, 0x202F,
     0x205F, 0x3000, 0xFEFF} \<or> 0x2000 \<le> c \<and> c \<le> 0x200A"

definition trim :: "ustr \<Rightarrow> ustr" where
  "trim s = rev (dropWhile js_space (rev (dropWhile js_space s)))"

text \<open>\<open>parts.join(sep)\<close>.\<close>

fun join :: "'a list \<Rightarrow> 'a list list \<Rightarrow> 'a list" where
  "join sep [] = []"
| "join sep [x] = x"
| "join sep (x # y # xs) = x @ sep @ join sep (y # xs)"

lemma join_Nil_concat: "join [] xs = concat xs"
  by (induction "[] :: 'a list" xs rule: join.induct) auto

text \<open>\<open>s || d\<close> on strings: the empty string is falsy.\<close>

definition or_else :: "ustr \<Rightarrow> ustr \<Rightarrow> ustr" where
  "or_else s d = (if s = [] then d else s)"

lemma or_else_simps [simp]: "or_else [] d = d" "or_else (c # s) d = c # s"
  by (simp_all add: or_else_def)

text \<open>\<open>xs || []\<close> on arrays that may be absent.\<close>

definition or_empty :: "'a list option \<Rightarrow> 'a list" where
  "or_empty x = (case x of None \<Rightarrow> [] | Some xs \<Rightarrow> xs)"

lemma or_empty_simps [simp]: "or_empty None = []" "or_empty (Some xs) = xs"
  by (simp_all add: or_empty_def)

section \<open>Decimal rendering\<close>

definition digit :: "nat \<Rightarrow> cu" where
  "digit n = word_of_nat (48 + n)"

definition is_digit :: "cu \<Rightarrow> bool" where
  "is_digit c \<longleftrightarrow> 48 \<le> unat c \<and> unat c \<le> 57"

definition digit_val :: "cu \<Rightarrow> nat" where
  "digit_val c = unat c - 48"

lemma unat_digit: "n < 10 \<Longrightarrow> unat (digit n) = 48 + n"
  unfolding digit_def by (simp only: unat_of_nat) simp

lemma digit_ch [simp]:
  "digit 0 = ch (CHR ''0'')" "digit 1 = ch (CHR ''1'')" "digit 2 = ch (CHR ''2'')"
  "digit 3 = ch (CHR ''3'')" "digit 4 = ch (CHR ''4'')" "digit 5 = ch (CHR ''5'')"
  "digit 6 = ch (CHR ''6'')" "digit 7 = ch (CHR ''7'')" "digit 8 = ch (CHR ''8'')"
  "digit 9 = ch (CHR ''9'')" "digit (Suc 0) = ch (CHR ''1'')" "digit (Suc (Suc 0)) = ch (CHR ''2'')"
  by (simp_all add: digit_def ch_def)

lemma is_digit_digit [simp]: "n < 10 \<Longrightarrow> is_digit (digit n)"
  by (simp add: is_digit_def unat_digit)

lemma digit_val_digit [simp]: "n < 10 \<Longrightarrow> digit_val (digit n) = n"
  by (simp add: digit_val_def unat_digit)

fun show_nat :: "nat \<Rightarrow> ustr" where
  "show_nat n = (if n < 10 then [digit n] else show_nat (n div 10) @ [digit (n mod 10)])"

declare show_nat.simps [simp del]

definition show_int :: "int \<Rightarrow> ustr" where
  "show_int i = (if i < 0 then L ''-'' @ show_nat (nat (- i)) else show_nat (nat i))"

definition read_nat :: "ustr \<Rightarrow> nat" where
  "read_nat s = foldl (\<lambda>n c. 10 * n + digit_val c) 0 s"

lemma show_nat_small: "n < 10 \<Longrightarrow> show_nat n = [digit n]"
  by (subst show_nat.simps) simp

lemma show_nat_big: "10 \<le> n \<Longrightarrow> show_nat n = show_nat (n div 10) @ [digit (n mod 10)]"
  by (subst show_nat.simps) simp

lemma show_nat_neq_Nil [simp]: "show_nat n \<noteq> []"
  by (subst show_nat.simps) simp

lemma show_nat_digits: "list_all is_digit (show_nat n)"
proof (induction n rule: show_nat.induct)
  case (1 n)
  then show ?case by (subst show_nat.simps) simp
qed

lemma read_show_nat [simp]: "read_nat (show_nat n) = n"
proof (induction n rule: show_nat.induct)
  case (1 n)
  show ?case
  proof (cases "n < 10")
    case True
    then show ?thesis by (simp add: show_nat_small read_nat_def)
  next
    case False
    with 1 have "read_nat (show_nat (n div 10)) = n div 10" by simp
    with False show ?thesis by (subst show_nat.simps) (simp add: read_nat_def)
  qed
qed

lemma show_nat_eq [simp]: "show_nat m = show_nat n \<longleftrightarrow> m = n"
  by (metis read_show_nat)

text \<open>\<open>String(n).padStart(2, '0')\<close>.\<close>

definition pad2 :: "nat \<Rightarrow> ustr" where
  "pad2 n = replicate (2 - length (show_nat n)) (ch (CHR ''0'')) @ show_nat n"

lemma pad2_two: "n < 100 \<Longrightarrow> pad2 n = [digit (n div 10), digit (n mod 10)]"
proof -
  assume n: "n < 100"
  show ?thesis
  proof (cases "n < 10")
    case True
    then show ?thesis by (simp add: pad2_def show_nat_small)
  next
    case False
    with n have "show_nat n = [digit (n div 10), digit (n mod 10)]"
      by (subst show_nat.simps) (simp add: show_nat_small)
    then show ?thesis by (simp add: pad2_def)
  qed
qed

section \<open>Object literals\<close>

text \<open>
  \<open>obj[k]\<close> on an object literal finds the literal's own properties first and then
  what the literal inherits from \<open>Object.prototype\<close>. \<open>proto_text\<close> is the text such
  an inherited value turns into when it is concatenated to a string; every one of
  them is truthy except the value of \<open>__proto__\<close> on \<open>Object.prototype\<close> itself, which
  no script here reads.
\<close>

definition fn_text :: "string \<Rightarrow> ustr" where
  "fn_text name = L ''function '' @ L name @ L ''() { [native code] }''"

definition proto_text :: "(ustr \<times> ustr) list" where
  "proto_text =
     (L ''constructor'', fn_text ''Object'') # (L ''__proto__'', L ''[object Object]'') #
     map (\<lambda>n. (L n, fn_text n))
       [''hasOwnProperty'', ''isPrototypeOf'', ''propertyIsEnumerable'', ''toLocaleString'',
        ''toString'', ''valueOf'', ''__defineGetter__'', ''__defineSetter__'',
        ''__lookupGetter__'', ''__lookupSetter__'']"

definition obj_get :: "(ustr \<times> ustr) list \<Rightarrow> ustr \<Rightarrow> ustr option" where
  "obj_get own k = (case map_of own k of Some v \<Rightarrow> Some v | None \<Rightarrow> map_of proto_text k)"

lemma obj_get_own: "map_of own k = Some v \<Longrightarrow> obj_get own k = Some v"
  by (simp add: obj_get_def)

lemma obj_get_cases:
  assumes "obj_get own k = Some v"
  shows "(k, v) \<in> set own \<or> (k, v) \<in> set proto_text"
  using assms by (auto simp: obj_get_def split: option.splits dest: map_of_SomeD)

section \<open>The host environment\<close>

text \<open>
  What the scripts read from the browser and the user's locale: \<open>Date.now()\<close> in
  milliseconds, how \<open>Date\<close> parses strings that are not ISO 8601 timestamps
  (implementation defined), how \<open>toLowerCase\<close> treats strings with units beyond ASCII,
  the locale's rendering of numbers, dates and times of day, and the local time
  value of a time value (its clock fields are the local hours, minutes and seconds).
\<close>

record host =
  clock :: int
  date_legacy :: "ustr \<Rightarrow> int option"
  lower_other :: "ustr \<Rightarrow> ustr"
  locale_int :: "int \<Rightarrow> ustr"
  locale_datetime :: "int \<Rightarrow> ustr"
  locale_time :: "int \<Rightarrow> ustr"
  local_ms :: "int \<Rightarrow> int"

definition ascii_lower :: "cu \<Rightarrow> cu" where
  "ascii_lower c = (if ch (CHR ''A'') \<le> c \<and> c \<le> ch (CHR ''Z'') then c + 32 else c)"

definition to_lower :: "host \<Rightarrow> ustr \<Rightarrow> ustr" where
  "to_lower h s = (if list_all (\<lambda>c. c < 128) s then map ascii_lower s else lower_other h s)"

text \<open>A host in UTC with a plain locale, at a given time: the one the examples are computed on.\<close>

definition plain_host :: "int \<Rightarrow> host" where
  "plain_host t =
     \<lparr>clock = t, date_legacy = (\<lambda>_. None), lower_other = (\<lambda>s. s), locale_int = show_int,
      locale_datetime = show_int, locale_time = show_int, local_ms = (\<lambda>x. x)\<rparr>"

lemma plain_host_simps [simp]:
  "clock (plain_host t) = t" "date_legacy (plain_host t) s = None" "locale_int (plain_host t) = show_int"
  "locale_datetime (plain_host t) = show_int" "locale_time (plain_host t) = show_int" "local_ms (plain_host t) x = x"
  by (simp_all add: plain_host_def)

end
