(* ===== verification/Html.thy ===== *)
theory Html
  imports Prelude
begin

text \<open>
  What a browser makes of a string assigned to \<open>innerHTML\<close>, on the fragment of HTML
  the scripts emit: start tags with bare or double-quoted attributes, end tags,
  character data with the four character references \<open>&amp; &lt; &gt; &quot;\<close>, and the
  void elements \<open>input\<close> and \<open>col\<close>. The reader is strict: anything else is \<open>None\<close>.
  The interface \<open>html_escaper\<close> states what an escaping function has to promise for the
  serialised form of a tree to be read back as that tree, whatever text it holds.
\<close>

section \<open>Trees and their serialisation\<close>

datatype attr = Flag ustr | Attr ustr ustr

datatype html = Text ustr | Elem ustr "attr list" "html list" | Void ustr "attr list"

datatype token = Open ustr "attr list" | Close ustr | Chars ustr

text \<open>The elements HTML writes without a closing tag.\<close>

definition void_tags :: "ustr list" where
  "void_tags =
     map L [''area'', ''base'', ''br'', ''col'', ''embed'', ''hr'', ''img'', ''input'', ''link'', ''meta'', ''source'',
       ''track'', ''wbr'']"

fun flatten :: "html \<Rightarrow> token list" where
  "flatten (Text s) = [Chars s]"
| "flatten (Elem t as cs) = Open t as # concat (map flatten cs) @ [Close t]"
| "flatten (Void t as) = [Open t as]"

abbreviation flatten_all :: "html list \<Rightarrow> token list" where
  "flatten_all f \<equiv> concat (map flatten f)"

fun ser_attr :: "(ustr \<Rightarrow> ustr) \<Rightarrow> attr \<Rightarrow> ustr" where
  "ser_attr esc (Flag n) = L '' '' @ n"
| "ser_attr esc (Attr n v) = L '' '' @ n @ L ''=\"'' @ esc v @ L ''\"''"

fun ser_token :: "(ustr \<Rightarrow> ustr) \<Rightarrow> token \<Rightarrow> ustr" where
  "ser_token esc (Open t as) = L ''<'' @ t @ concat (map (ser_attr esc) as) @ L ''>''"
| "ser_token esc (Close t) = L ''</'' @ t @ L ''>''"
| "ser_token esc (Chars s) = esc s"

definition ser_tokens :: "(ustr \<Rightarrow> ustr) \<Rightarrow> token list \<Rightarrow> ustr" where
  "ser_tokens esc ts = concat (map (ser_token esc) ts)"

definition ser :: "(ustr \<Rightarrow> ustr) \<Rightarrow> html list \<Rightarrow> ustr" where
  "ser esc f = ser_tokens esc (flatten_all f)"

section \<open>The reader\<close>

subsection \<open>Character references\<close>

definition entities :: "(ustr \<times> cu) list" where
  "entities = [(L ''amp;'', ch (CHR ''&'')), (L ''lt;'', ch (CHR ''<'')),
     (L ''gt;'', ch (CHR ''>'')), (L ''quot;'', ch (CHR 0x22))]"

definition entity_at :: "ustr \<Rightarrow> (cu \<times> ustr) option" where
  "entity_at s = map_option (\<lambda>(n, c). (c, drop (length n) s)) (find (\<lambda>(n, c). has_prefix n s) entities)"

lemma entity_at_shorter: "entity_at s = Some (c, r) \<Longrightarrow> length r \<le> length s"
  by (auto simp: entity_at_def)

function decode :: "ustr \<Rightarrow> ustr" where
  "decode [] = []"
| "decode (c # s) =
     (if c = ch (CHR ''&'') then (case entity_at s of Some (u, r) \<Rightarrow> u # decode r | None \<Rightarrow> c # decode s)
      else c # decode s)"
  by pat_completeness auto
termination
  by (relation "measure length") (auto dest!: entity_at_shorter)

lemma entity_at_known [simp]:
  "entity_at (L ''amp;'' @ s) = Some (ch (CHR ''&''), s)"
  "entity_at (L ''lt;'' @ s) = Some (ch (CHR ''<''), s)"
  "entity_at (L ''gt;'' @ s) = Some (ch (CHR ''>''), s)"
  "entity_at (L ''quot;'' @ s) = Some (ch (CHR 0x22), s)"
  by (simp_all add: entity_at_def entities_def)

subsection \<open>Tokens\<close>

text \<open>Units that end a tag or attribute name.\<close>

definition name_end :: "cu \<Rightarrow> bool" where
  "name_end c \<longleftrightarrow> c \<in> ch ` {CHR '' '', CHR ''/'', CHR ''>'', CHR ''<'', CHR ''='', CHR 0x22}"

definition name_ok :: "ustr \<Rightarrow> bool" where
  "name_ok n \<longleftrightarrow> n \<noteq> [] \<and> list_all (\<lambda>c. \<not> name_end c) n"

definition span_name :: "ustr \<Rightarrow> ustr \<times> ustr" where
  "span_name s = (takeWhile (\<lambda>c. \<not> name_end c) s, dropWhile (\<lambda>c. \<not> name_end c) s)"

lemma span_name_shorter: "span_name s = (n, r) \<Longrightarrow> length r \<le> length s"
  by (auto simp: span_name_def length_dropWhile_le)

lemma span_name_ok:
  assumes "name_ok n" "name_end c"
  shows "span_name (n @ c # r) = (n, c # r)"
  using assms by (auto simp: span_name_def name_ok_def list_all_iff takeWhile_append2 dropWhile_append2)

text \<open>The attributes of a start tag, up to and including its \<open>></>\<close>.\<close>

function read_attrs :: "ustr \<Rightarrow> (attr list \<times> ustr) option" where
  "read_attrs [] = None"
| "read_attrs (c # s) =
     (if c = ch (CHR ''>'') then Some ([], s)
      else if c = ch (CHR '' '') then
        (let (n, r) = span_name s in
         if n = [] then None
         else if has_prefix (L ''=\"'') r then
           (let v = takeWhile (\<lambda>c. c \<noteq> ch (CHR 0x22)) (drop 2 r);
                r' = dropWhile (\<lambda>c. c \<noteq> ch (CHR 0x22)) (drop 2 r)
            in if r' = [] then None
               else map_option (\<lambda>(as, q). (Attr n (decode v) # as, q)) (read_attrs (tl r')))
         else map_option (\<lambda>(as, q). (Flag n # as, q)) (read_attrs r))
      else None)"
  by pat_completeness auto
termination
proof (relation "measure length", goal_cases)
  case 1
  show ?case by simp
next
  case (2 c s x n r v r')
  have "length r \<le> length s" using 2(3,4) by (metis span_name_shorter)
  moreover have "length r' \<le> length r"
    using 2(8) length_dropWhile_le [of "\<lambda>c. c \<noteq> ch (CHR 0x22)" "drop 2 r"] by simp
  ultimately show ?case by simp
next
  case (3 c s x n r)
  have "length r \<le> length s" using 3(3,4) by (metis span_name_shorter)
  then show ?case by simp
qed

lemma read_attrs_shorter: "read_attrs s = Some (as, r) \<Longrightarrow> length r < length s"
proof (induction s arbitrary: as r rule: read_attrs.induct)
  case 1
  then show ?case by simp
next
  case (2 c s)
  obtain n q where nq: "span_name s = (n, q)" by fastforce
  let ?q = "dropWhile (\<lambda>c. c \<noteq> ch (CHR 0x22)) (drop 2 q)"
  have q: "length q \<le> length s" using nq by (rule span_name_shorter)
  have q2: "length ?q \<le> length q"
    using length_dropWhile_le [of "\<lambda>c. c \<noteq> ch (CHR 0x22)" "drop 2 q"] by simp
  show ?case
  proof (cases "c = ch (CHR '' '') \<and> n \<noteq> []")
    case True
    show ?thesis
    proof (cases "has_prefix (L ''=\"'') q")
      case p: True
      with True nq "2.prems" obtain as' where
        "?q \<noteq> []" "read_attrs (tl ?q) = Some (as', r)"
        by (auto simp: Let_def simp del: has_prefix.simps split: if_splits)
      with "2.IH"(1) [OF _ _ nq [symmetric] refl] True p have "length r < length (tl ?q)" by auto
      then show ?thesis using q q2 by simp
    next
      case p: False
      with True nq "2.prems" obtain as' where "read_attrs q = Some (as', r)"
        by (auto simp: Let_def simp del: has_prefix.simps split: if_splits)
      with "2.IH"(2) [OF _ _ nq [symmetric] refl] True p have "length r < length q" by auto
      then show ?thesis using q by simp
    qed
  next
    case False
    with "2.prems" nq show ?thesis by (auto split: if_splits)
  qed
qed

function tokenize :: "ustr \<Rightarrow> token list option" where
  "tokenize [] = Some []"
| "tokenize (c # s) =
     (if c \<noteq> ch (CHR ''<'') then
        map_option ((#) (Chars (decode (takeWhile (\<lambda>c. c \<noteq> ch (CHR ''<'')) (c # s)))))
          (tokenize (dropWhile (\<lambda>c. c \<noteq> ch (CHR ''<'')) s))
      else if has_prefix (L ''/'') s then
        (case span_name (drop 1 s) of (n, r) \<Rightarrow>
           if n \<noteq> [] \<and> has_prefix (L ''>'') r then map_option ((#) (Close n)) (tokenize (drop 1 r))
           else None)
      else
        (case span_name s of (n, r) \<Rightarrow>
           if n = [] then None
           else (case read_attrs r of None \<Rightarrow> None
                 | Some (as, q) \<Rightarrow> map_option ((#) (Open n as)) (tokenize q))))"
  by pat_completeness auto
termination
proof (relation "measure length", goal_cases)
  case 1
  show ?case by simp
next
  case (2 c s)
  then show ?case by (simp add: length_dropWhile_le le_imp_less_Suc)
next
  case (3 c s n r)
  from 3(3) [symmetric] have "length r \<le> length (drop 1 s)" by (rule span_name_shorter)
  then show ?case by simp
next
  case (4 c s n r a as q)
  from 4(3) [symmetric] have "length r \<le> length s" by (rule span_name_shorter)
  moreover have "length q < length r" using 4(5,6) read_attrs_shorter by blast
  ultimately show ?case by simp
qed

subsection \<open>Trees from tokens\<close>

text \<open>
  The tree builder keeps the open elements on a stack, each with the children already
  read (newest first); adjacent character data becomes one text node.
\<close>

type_synonym frame = "ustr \<times> attr list \<times> html list"

fun add_text :: "ustr \<Rightarrow> html list \<Rightarrow> html list" where
  "add_text [] cur = cur"
| "add_text s (Text t # cur) = Text (t @ s) # cur"
| "add_text s cur = Text s # cur"

fun build :: "frame list \<Rightarrow> html list \<Rightarrow> token list \<Rightarrow> html list option" where
  "build [] cur [] = Some (rev cur)"
| "build (f # fs) cur [] = None"
| "build fs cur (Chars s # ts) = build fs (add_text s cur) ts"
| "build fs cur (Open t as # ts) =
     (if t \<in> set void_tags then build fs (Void t as # cur) ts else build ((t, as, cur) # fs) [] ts)"
| "build [] cur (Close t # ts) = None"
| "build ((t', as, up) # fs) cur (Close t # ts) =
     (if t = t' then build fs (Elem t as (rev cur) # up) ts else None)"

definition parse :: "ustr \<Rightarrow> html list option" where
  "parse s = Option.bind (tokenize s) (build [] [])"

section \<open>The tree a serialised forest denotes\<close>

fun absorb1 :: "html \<Rightarrow> html list \<Rightarrow> html list" where
  "absorb1 (Text s) cur = add_text s cur"
| "absorb1 (Elem t as cs) cur = Elem t as (rev (fold absorb1 cs [])) # cur"
| "absorb1 (Void t as) cur = Void t as # cur"

definition tidy :: "html list \<Rightarrow> html list" where
  "tidy f = rev (fold absorb1 f [])"

fun attr_ok :: "attr \<Rightarrow> bool" where
  "attr_ok (Flag n) = name_ok n"
| "attr_ok (Attr n v) = name_ok n"

fun tree_ok :: "html \<Rightarrow> bool" where
  "tree_ok (Text s) = True"
| "tree_ok (Elem t as cs) = (name_ok t \<and> t \<notin> set void_tags \<and> list_all attr_ok as \<and> list_all tree_ok cs)"
| "tree_ok (Void t as) = (name_ok t \<and> t \<in> set void_tags \<and> list_all attr_ok as)"

fun token_ok :: "token \<Rightarrow> bool" where
  "token_ok (Open t as) = (name_ok t \<and> list_all attr_ok as)"
| "token_ok (Close t) = name_ok t"
| "token_ok (Chars s) = True"

lemma flatten_ok: "tree_ok x \<Longrightarrow> list_all token_ok (flatten x)"
  by (induction x) (auto simp: list_all_iff)

lemma build_flatten:
  "tree_ok x \<Longrightarrow> build fs cur (flatten x @ ts) = build fs (absorb1 x cur) ts"
proof (induction x arbitrary: fs cur ts)
  case (Elem t as cs)
  have *: "build fs cur (flatten_all f @ ts) = build fs (fold absorb1 f cur) ts"
    if "set f \<subseteq> set cs" for f fs cur ts
    using that
  proof (induction f arbitrary: cur)
    case (Cons x f)
    then have "x \<in> set cs" "tree_ok x" using Elem.prems by (auto simp: list_all_iff)
    with Cons Elem.IH show ?case by simp
  qed simp
  show ?case using Elem.prems * [of cs] by simp
qed auto

lemma build_forest:
  "list_all tree_ok f \<Longrightarrow> build fs cur (flatten_all f @ ts) = build fs (fold absorb1 f cur) ts"
  by (induction f arbitrary: cur) (auto simp: build_flatten)

fun merge :: "token list \<Rightarrow> token list" where
  "merge [] = []"
| "merge (Chars s # ts) =
     (case merge ts of
        Chars t # us \<Rightarrow> Chars (s @ t) # us
      | us \<Rightarrow> (if s = [] then us else Chars s # us))"
| "merge (t # ts) = t # merge ts"

lemma add_text_Nil [simp]: "add_text [] cur = cur"
  by (cases cur) auto

lemma add_text_append: "add_text t (add_text s cur) = add_text (s @ t) cur"
proof (cases "s = [] \<or> t = []")
  case True
  then show ?thesis by auto
next
  case False
  then obtain a s' b t' where st: "s = a # s'" "t = b # t'" by (auto simp: neq_Nil_conv)
  show ?thesis
  proof (cases cur)
    case (Cons x xs)
    then show ?thesis using st by (cases x) auto
  qed (use st in simp)
qed

lemma build_merge: "build fs cur (merge ts) = build fs cur ts"
proof (induction ts arbitrary: fs cur)
  case (Cons t ts)
  show ?case
  proof (cases t)
    case (Open n as)
    then show ?thesis using Cons by simp
  next
    case (Close n)
    then show ?thesis using Cons by (cases fs) auto
  next
    case (Chars s)
    have "build fs cur (Chars s # ts) = build fs (add_text s cur) (merge ts)"
      using Cons by simp
    also have "\<dots> = build fs cur (merge (Chars s # ts))"
      by (auto simp: add_text_append split: list.split token.split)
    finally show ?thesis using Chars by simp
  qed
qed simp

text \<open>The leading character data of a token list, and what follows it.\<close>

fun lead :: "token list \<Rightarrow> ustr" where
  "lead (Chars s # ts) = s @ lead ts"
| "lead ts = []"

fun after :: "token list \<Rightarrow> token list" where
  "after (Chars s # ts) = after ts"
| "after ts = ts"

definition text_tokens :: "ustr \<Rightarrow> token list" where
  "text_tokens s = (if s = [] then [] else [Chars s])"

lemma merge_split: "merge ts = text_tokens (lead ts) @ merge (after ts)"
proof (induction ts rule: lead.induct)
  case (1 s ts)
  have "merge (after ts) = [] \<or> (\<exists>t us. merge (after ts) = t # us \<and> (\<forall>x. t \<noteq> Chars x))"
    by (induction ts rule: after.induct) auto
  then show ?case using 1
    by (auto simp: text_tokens_def split: token.split list.split)
qed (auto simp: text_tokens_def)

lemma after_shape: "after ts = [] \<or> (\<exists>n as us. after ts = Open n as # us) \<or> (\<exists>n us. after ts = Close n # us)"
  by (induction ts rule: after.induct) auto

lemma length_after: "length (after ts) \<le> length ts"
  by (induction ts rule: after.induct) auto

lemma after_ok: "list_all token_ok ts \<Longrightarrow> list_all token_ok (after ts)"
  by (induction ts rule: after.induct) auto

section \<open>What an escaping function promises\<close>

locale html_escaper =
  fixes esc :: "ustr \<Rightarrow> ustr"
  assumes esc_append: "esc (s @ t) = esc s @ esc t"
    and esc_clean: "c \<in> set (esc s) \<Longrightarrow> c \<noteq> ch (CHR ''<'') \<and> c \<noteq> ch (CHR 0x22)"
    and decode_esc: "decode (esc s) = s"
begin

lemma esc_Nil: "esc [] = []"
  using esc_append [of "[]" "[]"] by simp

lemma esc_Nil_iff: "esc s = [] \<longleftrightarrow> s = []"
  using decode_esc [of s] esc_Nil by (cases "esc s = []") auto

lemma takeWhile_esc:
  "takeWhile (\<lambda>c. c \<noteq> ch (CHR 0x22)) (esc v @ ch (CHR 0x22) # r) = esc v"
  "dropWhile (\<lambda>c. c \<noteq> ch (CHR 0x22)) (esc v @ ch (CHR 0x22) # r) = ch (CHR 0x22) # r"
  using esc_clean by (auto simp: takeWhile_append2 dropWhile_append2)

lemma ser_attr_start: "\<exists>q. ser_attr esc a = ch (CHR '' '') # q"
  by (cases a) auto

lemma read_ser_attrs:
  "list_all attr_ok as \<Longrightarrow>
     read_attrs (concat (map (ser_attr esc) as) @ ch (CHR ''>'') # r) = Some (as, r)"
proof (induction as)
  case (Cons a as)
  let ?q = "concat (map (ser_attr esc) as) @ ch (CHR ''>'') # r"
  have IH: "read_attrs ?q = Some (as, r)" using Cons by simp
  obtain d q where d: "?q = d # q" "name_end d" "d \<noteq> ch (CHR ''='')"
    using ser_attr_start [of "hd as"] by (cases as) (auto simp: name_end_def)
  show ?case
  proof (cases a)
    case (Flag n)
    with Cons.prems have n: "name_ok n" by simp
    from span_name_ok [OF this d(2)] d have "span_name (n @ ?q) = (n, ?q)" by simp
    with Flag n IH d show ?thesis by (simp add: name_ok_def)
  next
    case (Attr n v)
    with Cons.prems have n: "name_ok n" by simp
    have "name_end (ch (CHR ''=''))" by (simp add: name_end_def)
    from span_name_ok [OF n this]
    have "span_name (n @ ch (CHR ''='') # ch (CHR 0x22) # esc v @ ch (CHR 0x22) # ?q) =
      (n, ch (CHR ''='') # ch (CHR 0x22) # esc v @ ch (CHR 0x22) # ?q)" .
    with Attr n IH show ?thesis
      by (simp add: name_ok_def takeWhile_esc decode_esc)
  qed
qed simp

lemma ser_tokens_lead: "ser_tokens esc ts = esc (lead ts) @ ser_tokens esc (after ts)"
  by (induction ts rule: after.induct) (auto simp: ser_tokens_def esc_append esc_Nil)

lemma tokenize_text:
  assumes "r = [] \<or> (\<exists>q. r = ch (CHR ''<'') # q)"
  shows "tokenize (esc s @ r) = map_option ((@) (text_tokens s)) (tokenize r)"
proof (cases "esc s")
  case Nil
  then have "s = []" by (simp add: esc_Nil_iff)
  then show ?thesis by (cases "tokenize r") (auto simp: esc_Nil text_tokens_def)
next
  case (Cons c cs)
  have clean: "\<forall>d\<in>set (esc s). d \<noteq> ch (CHR ''<'')" using esc_clean by blast
  then have "takeWhile (\<lambda>c. c \<noteq> ch (CHR ''<'')) (esc s @ r) = esc s"
    and "dropWhile (\<lambda>c. c \<noteq> ch (CHR ''<'')) (cs @ r) = r"
    using assms Cons by (auto simp: takeWhile_append2 dropWhile_append2)
  moreover have "c \<noteq> ch (CHR ''<'')" using clean Cons by auto
  moreover have "s \<noteq> []" using Cons esc_Nil by auto
  ultimately show ?thesis using Cons decode_esc [of s]
    by (auto simp: text_tokens_def simp del: takeWhile.simps dropWhile.simps
        intro!: option.map_cong0 arg_cong2 [where f = map_option])
qed

lemma tokenize_ser:
  "list_all token_ok ts \<Longrightarrow> tokenize (ser_tokens esc ts) = Some (merge ts)"
proof (induction "length ts" arbitrary: ts rule: less_induct)
  case less
  let ?r = "ser_tokens esc (after ts)"
  have start: "?r = [] \<or> (\<exists>q. ?r = ch (CHR ''<'') # q)"
    using after_shape [of ts] by (auto simp: ser_tokens_def)
  have "tokenize ?r = Some (merge (after ts))"
  proof (cases "after ts")
    case Nil
    then show ?thesis by (simp add: ser_tokens_def)
  next
    case (Cons t us)
    have ok: "token_ok t" "list_all token_ok us"
      using after_ok [OF less.prems] Cons by auto
    have IH: "tokenize (ser_tokens esc us) = Some (merge us)"
      using less.hyps [of us] ok Cons length_after [of ts] by simp
    from after_shape [of ts] Cons consider n as where "t = Open n as" | n where "t = Close n"
      by auto
    then show ?thesis
    proof cases
      case 1
      let ?q = "concat (map (ser_attr esc) as) @ ch (CHR ''>'') # ser_tokens esc us"
      from ok 1 have n: "name_ok n" and as: "list_all attr_ok as" by auto
      obtain d q where d: "?q = d # q" "name_end d"
        using ser_attr_start [of "hd as"] by (cases as) (auto simp: name_end_def)
      from n obtain c m where c: "n = c # m" "\<not> name_end c" by (auto simp: name_ok_def neq_Nil_conv)
      have "span_name (n @ ?q) = (n, ?q)" using span_name_ok [OF n d(2)] d by simp
      moreover have "\<not> has_prefix (L ''/'') (n @ ?q)" using c by (auto simp: name_end_def)
      moreover have "ser_tokens esc (after ts) = ch (CHR ''<'') # n @ ?q"
        using Cons 1 by (simp add: ser_tokens_def)
      ultimately show ?thesis
        using n IH read_ser_attrs [OF as] Cons 1 by (simp add: name_ok_def)
    next
      case 2
      with ok have n: "name_ok n" by simp
      have "name_end (ch (CHR ''>''))" by (simp add: name_end_def)
      from span_name_ok [OF n this]
      have "span_name (n @ ch (CHR ''>'') # ser_tokens esc us) = (n, ch (CHR ''>'') # ser_tokens esc us)" .
      moreover have "ser_tokens esc (after ts) = ch (CHR ''<'') # ch (CHR ''/'') # n @ ch (CHR ''>'') # ser_tokens esc us"
        using Cons 2 by (simp add: ser_tokens_def)
      ultimately show ?thesis using n IH Cons 2 by (simp add: name_ok_def)
    qed
  qed
  then show ?case
    using tokenize_text [OF start] ser_tokens_lead [of ts] merge_split [of ts] by simp
qed

text \<open>The serialised form of a forest is read back as that forest, whatever text it holds.\<close>

lemma parse_ser:
  assumes "list_all tree_ok f"
  shows "parse (ser esc f) = Some (tidy f)"
proof -
  have "list_all token_ok (flatten_all f)"
    using assms flatten_ok by (auto simp: list_all_iff)
  then have "tokenize (ser esc f) = Some (merge (flatten_all f))"
    unfolding ser_def by (rule tokenize_ser)
  moreover have "build [] [] (flatten_all f) = Some (tidy f)"
    using build_forest [OF assms, of "[]" "[]" "[]"] by (simp add: tidy_def)
  ultimately show ?thesis by (simp add: parse_def build_merge)
qed

end

section \<open>The standard escape, and the chain of replacements that computes it\<close>

definition esc_unit :: "cu \<Rightarrow> ustr" where
  "esc_unit c =
     (if c = ch (CHR ''&'') then L ''&amp;'' else if c = ch (CHR ''<'') then L ''&lt;''
      else if c = ch (CHR ''>'') then L ''&gt;'' else if c = ch (CHR 0x22) then L ''&quot;'' else [c])"

definition esc_html :: "ustr \<Rightarrow> ustr" where
  "esc_html s = concat (map esc_unit s)"

lemma esc_html_simps [simp]:
  "esc_html [] = []" "esc_html (c # s) = esc_unit c @ esc_html s"
  "esc_html (s @ t) = esc_html s @ esc_html t"
  by (simp_all add: esc_html_def)

lemma esc_unit_ch [simp]:
  "c \<notin> {CHR ''&'', CHR ''<'', CHR ''>'', CHR 0x22} \<Longrightarrow> esc_unit (ch c) = [ch c]"
  by (simp add: esc_unit_def)

lemma esc_html_id: "(\<And>c. c \<in> set s \<Longrightarrow> esc_unit c = [c]) \<Longrightarrow> esc_html s = s"
  by (induction s) auto

lemma esc_unit_digit: "is_digit c \<Longrightarrow> esc_unit c = [c]"
  by (auto simp: esc_unit_def is_digit_def unat_ch)

lemma esc_show_nat [simp, esc_simps]: "esc_html (show_nat n) = show_nat n"
  using show_nat_digits [of n] by (intro esc_html_id esc_unit_digit) (auto simp: list_all_iff)

lemma esc_show_int [simp, esc_simps]: "esc_html (show_int i) = show_int i"
  by (simp add: show_int_def)

lemma decode_unit: "decode (esc_unit c @ r) = c # decode r"
proof (cases "c = ch (CHR ''&'') \<or> c = ch (CHR ''<'') \<or> c = ch (CHR ''>'') \<or> c = ch (CHR 0x22)")
  case True
  then show ?thesis
    using entity_at_known [of r] by (elim disjE) (simp_all add: esc_unit_def)
next
  case False
  then show ?thesis by (simp add: esc_unit_def)
qed

interpretation std: html_escaper esc_html
proof unfold_locales
  fix s t c
  show "esc_html (s @ t) = esc_html s @ esc_html t" by simp
  show "c \<in> set (esc_html s) \<Longrightarrow> c \<noteq> ch (CHR ''<'') \<and> c \<noteq> ch (CHR 0x22)"
    by (auto simp: esc_html_def esc_unit_def split: if_splits)
  show "decode (esc_html s) = s"
    by (induction s) (simp_all add: decode_unit)
qed

lemma replace_chain:
  "replace_unit (ch (CHR 0x22)) (L ''&quot;'') (replace_unit (ch (CHR ''>'')) (L ''&gt;'')
     (replace_unit (ch (CHR ''<'')) (L ''&lt;'') (replace_unit (ch (CHR ''&'')) (L ''&amp;'') s))) = esc_html s"
  by (induction s) (auto simp: esc_unit_def)

lemma ser_simps [emit_simps]:
  "ser esc [] = []"
  "ser esc (Text s # f) = esc s @ ser esc f"
  "ser esc (Elem t as cs # f) =
     ch (CHR ''<'') # t @ concat (map (ser_attr esc) as) @ ch (CHR ''>'') # ser esc cs @
     ch (CHR ''<'') # ch (CHR ''/'') # t @ ch (CHR ''>'') # ser esc f"
  "ser esc (Void t as # f) = ch (CHR ''<'') # t @ concat (map (ser_attr esc) as) @ ch (CHR ''>'') # ser esc f"
  by (simp_all add: ser_def ser_tokens_def)

lemma ser_append: "ser esc (f @ g) = ser esc f @ ser esc g"
  by (simp add: ser_def ser_tokens_def)

lemma ser_Cons: "ser esc (x # f) = ser esc [x] @ ser esc f"
  using ser_append [of esc "[x]" f] by simp

lemma ser_map: "ser esc (map tree xs) = concat (map (\<lambda>x. ser esc [tree x]) xs)"
proof (induction xs)
  case (Cons x xs)
  then show ?case using ser_append [of esc "[tree x]" "map tree xs"] by simp
qed (simp add: ser_simps)

lemma ser_concat_map: "ser esc (concat (map trees xs)) = concat (map (\<lambda>x. ser esc (trees x)) xs)"
  by (induction xs) (simp_all add: ser_append ser_simps(1))

text \<open>Shorthands for trees with ASCII tag and attribute names.\<close>

abbreviation el :: "string \<Rightarrow> attr list \<Rightarrow> html list \<Rightarrow> html" where
  "el t as cs \<equiv> Elem (L t) as cs"

abbreviation att :: "string \<Rightarrow> ustr \<Rightarrow> attr" where
  "att n v \<equiv> Attr (L n) v"

lemma name_ok_L: "name_ok (L s) \<longleftrightarrow> s \<noteq> [] \<and>
   list_all (\<lambda>c. c \<notin> {CHR '' '', CHR ''/'', CHR ''>'', CHR ''<'', CHR ''='', CHR 0x22}) s"
  by (induction s) (auto simp: name_ok_def name_end_def)

text \<open>The first attribute of a given name; a bare attribute has the empty value.\<close>

fun attr_get :: "ustr \<Rightarrow> attr list \<Rightarrow> ustr option" where
  "attr_get n [] = None"
| "attr_get n (Attr m v # as) = (if m = n then Some v else attr_get n as)"
| "attr_get n (Flag m # as) = (if m = n then Some [] else attr_get n as)"

section \<open>Class names\<close>

text \<open>The class names of an element: its \<open>class\<close> attribute split at ASCII white space.\<close>

definition html_space :: "cu \<Rightarrow> bool" where
  "html_space c \<longleftrightarrow> c \<in> {0x9, 0xA, 0xC, 0xD, 0x20}"


fun split_spaces :: "ustr \<Rightarrow> ustr list" where
  "split_spaces [] = [[]]"
| "split_spaces (c # s) =
     (if html_space c then [] # split_spaces s
      else (case split_spaces s of [] \<Rightarrow> [[c]] | w # ws \<Rightarrow> (c # w) # ws))"

definition has_class :: "ustr \<Rightarrow> attr list \<Rightarrow> bool" where
  "has_class c as \<longleftrightarrow> (case attr_get (L ''class'') as of None \<Rightarrow> False | Some v \<Rightarrow> c \<in> set (split_spaces v))"

end
