(* ===== verification/JsNumber.thy ===== *)
theory JsNumber
  imports Prelude Complex_Main "HOL-Library.Log_Nat"
begin

text \<open>
  The part of ECMAScript's Number the scripts use. A finite Number is the rational it
  denotes; \<open>rnd64\<close> rounds a rational to the nearest binary64 value, ties to even,
  which is what each arithmetic operation does with its exact result. The overflow to
  infinity is not modelled: the scripts only scale durations and byte counts.
  Rendering: \<open>Number.prototype.toFixed\<close>, \<open>Math.round\<close>, and \<open>toLocaleString('en-US')\<close>
  on integers.
\<close>

section \<open>Rounding to binary64\<close>

definition pow2 :: "int \<Rightarrow> rat" where
  "pow2 e = (if 0 \<le> e then 2 ^ nat e else 1 / 2 ^ nat (- e))"

definition exp_of :: "rat \<Rightarrow> int" where
  "exp_of x = (let (n, d) = quotient_of x; k = bitlen n - bitlen d in if pow2 k \<le> x then k else k - 1)"

definition round_half_even :: "rat \<Rightarrow> int" where
  "round_half_even x =
     (let f = \<lfloor>x\<rfloor>; r = x - of_int f in
      if r < 1 / 2 then f else if 1 / 2 < r then f + 1 else if even f then f else f + 1)"

definition rnd64 :: "rat \<Rightarrow> rat" where
  "rnd64 x =
     (if x = 0 then 0
      else let e = max (exp_of \<bar>x\<bar> - 52) (- 1074)
           in sgn x * of_int (round_half_even (\<bar>x\<bar> / pow2 e)) * pow2 e)"

lemma pow2_pos [simp]: "0 < pow2 e"
  by (simp add: pow2_def)

lemma pow2_Suc: "pow2 (e + 1) = 2 * pow2 e"
proof (cases "0 \<le> e")
  case True
  then show ?thesis by (simp add: pow2_def nat_add_distrib)
next
  case False
  then have "nat (- e) = Suc (nat (- (e + 1)))" by linarith
  with False show ?thesis by (auto simp: pow2_def)
qed

lemma pow2_diff: "pow2 (int a - int b) = 2 ^ a / 2 ^ b"
proof (cases "b \<le> a")
  case True
  then have "nat (int a - int b) = a - b" by simp
  with True show ?thesis by (simp add: pow2_def power_diff)
next
  case False
  then have "nat (- (int a - int b)) = b - a" by simp
  with False show ?thesis by (simp add: pow2_def power_diff)
qed

lemma round_half_even_err: "\<bar>of_int (round_half_even x) - x\<bar> \<le> 1 / 2"
proof -
  have "of_int \<lfloor>x\<rfloor> \<le> x" "x < of_int \<lfloor>x\<rfloor> + 1" by linarith+
  then show ?thesis by (auto simp: round_half_even_def Let_def abs_le_iff)
qed

lemma exp_of_bounds:
  assumes "0 < x"
  shows "pow2 (exp_of x) \<le> x \<and> x < pow2 (exp_of x + 1)"
proof -
  obtain n d where q: "quotient_of x = (n, d)" by fastforce
  then have d: "0 < d" and x: "x = of_int n / of_int d"
    by (simp_all add: quotient_of_denom_pos quotient_of_div)
  with assms have n: "0 < n" by (simp add: zero_less_divide_iff)
  define a where "a = nat (bitlen n - 1)"
  define b where "b = nat (bitlen d - 1)"
  have bn: "bitlen n = int a + 1" "bitlen d = int b + 1"
    using bitlen_eq_zero_iff [of n] bitlen_eq_zero_iff [of d] bitlen_nonneg [of n] bitlen_nonneg [of d] n d
    by (auto simp: a_def b_def)
  have N: "2 ^ a \<le> n" "n < 2 ^ Suc a"
    using bitlen_bounds [OF n] bn by (simp_all add: nat_add_distrib add.commute)
  have D: "2 ^ b \<le> d" "d < 2 ^ Suc b"
    using bitlen_bounds [OF d] bn by (simp_all add: nat_add_distrib add.commute)
  have N': "(2::rat) ^ a \<le> of_int n" "of_int n < (2::rat) ^ Suc a"
    and D': "(2::rat) ^ b \<le> of_int d" "of_int d < (2::rat) ^ Suc b"
    using N D by (metis of_int_le_iff of_int_less_iff of_int_numeral of_int_power)+
  let ?k = "int a - int b"
  have "x < pow2 (?k + 1)"
  proof -
    have "x < 2 ^ Suc a / 2 ^ b"
      unfolding x using N' D' d by (intro frac_less) (auto simp: n order_less_imp_le)
    then show ?thesis by (simp add: pow2_Suc pow2_diff)
  qed
  moreover have "pow2 (?k - 1) \<le> x"
  proof -
    have "2 ^ a / 2 ^ Suc b \<le> x"
      unfolding x using N' D' d n by (intro frac_le) (auto simp: order_less_imp_le)
    moreover have "pow2 (?k - 1) = 2 ^ a / 2 ^ Suc b"
      using pow2_Suc [of "?k - 1"] by (simp add: pow2_diff)
    ultimately show ?thesis by simp
  qed
  ultimately show ?thesis using bn by (simp add: exp_of_def q Let_def)
qed

text \<open>The relative error of one operation, for results in the normal range.\<close>

lemma rnd64_err:
  assumes "pow2 (- 1022) \<le> \<bar>x\<bar>"
  shows "\<bar>rnd64 x - x\<bar> \<le> \<bar>x\<bar> / 2 ^ 53"
proof -
  let ?y = "\<bar>x\<bar>"
  have y: "0 < ?y" using assms pow2_pos [of "- 1022"] by linarith
  have lo: "pow2 (exp_of ?y) \<le> ?y" and hi: "?y < pow2 (exp_of ?y + 1)"
    using exp_of_bounds [OF y] by auto
  have mono: "pow2 i \<le> pow2 j" if "i \<le> j" for i j
  proof -
    have "pow2 i \<le> pow2 (i + int n)" for n
      by (induction n) (auto simp: pow2_Suc add.assoc [symmetric] add.commute [of 1] order_trans)
    from this [of "nat (j - i)"] that show ?thesis by simp
  qed
  have "- 1022 \<le> exp_of ?y"
  proof (rule ccontr)
    assume "\<not> ?thesis"
    then have "pow2 (exp_of ?y + 1) \<le> pow2 (- 1022)" by (intro mono) simp
    with hi assms show False by simp
  qed
  then have e: "max (exp_of ?y - 52) (- 1074) = exp_of ?y - 52" by simp
  let ?u = "pow2 (exp_of ?y - 52)"
  let ?m = "of_int (round_half_even (?y / ?u)) :: rat"
  have shift: "pow2 (i + int n) = 2 ^ n * pow2 i" for i n
    by (induction n) (auto simp: pow2_Suc add.assoc [symmetric] add.commute [of 1])
  have u: "2 ^ 52 * ?u \<le> ?y" using lo shift [of "exp_of ?y - 52" 52] by simp
  have "\<bar>?m - ?y / ?u\<bar> \<le> 1 / 2" by (rule round_half_even_err)
  then have "\<bar>?m - ?y / ?u\<bar> * ?u \<le> 1 / 2 * ?u" by (intro mult_right_mono) (simp_all add: less_imp_le)
  moreover have "\<bar>?m - ?y / ?u\<bar> * ?u = \<bar>?m * ?u - ?y\<bar>"
  proof -
    have "\<bar>?m - ?y / ?u\<bar> * ?u = \<bar>(?m - ?y / ?u) * ?u\<bar>" by (simp add: abs_mult less_imp_le)
    also have "(?m - ?y / ?u) * ?u = ?m * ?u - ?y"
      using pow2_pos [of "exp_of ?y - 52"] by (simp add: left_diff_distrib less_imp_neq [symmetric])
    finally show ?thesis .
  qed
  ultimately have "\<bar>?m * ?u - ?y\<bar> \<le> ?u / 2" by simp
  also have "\<dots> \<le> ?y / 2 ^ 53" using u by simp
  finally have fin: "\<bar>?m * ?u - ?y\<bar> \<le> ?y / 2 ^ 53" .
  have "rnd64 x - x = sgn x * (?m * ?u - ?y)"
    using y by (simp add: rnd64_def e Let_def right_diff_distrib sgn_mult_abs mult.assoc)
  then have eq: "\<bar>rnd64 x - x\<bar> = \<bar>?m * ?u - ?y\<bar>" using y by (simp add: abs_mult sgn_if)
  show ?thesis unfolding eq by (rule fin)
qed

section \<open>Rendering\<close>

definition math_round :: "rat \<Rightarrow> int" where
  "math_round x = \<lfloor>x + 1 / 2\<rfloor>"

definition frac_digits :: "nat \<Rightarrow> nat \<Rightarrow> ustr" where
  "frac_digits f n = replicate (f - length (show_nat n)) (ch (CHR ''0'')) @ show_nat n"

definition fixed_nat :: "nat \<Rightarrow> rat \<Rightarrow> nat" where
  "fixed_nat f x = nat \<lfloor>\<bar>x\<bar> * 10 ^ f + 1 / 2\<rfloor>"

definition to_fixed :: "nat \<Rightarrow> rat \<Rightarrow> ustr" where
  "to_fixed f x =
     (let n = fixed_nat f x
      in (if x < 0 then L ''-'' else []) @ show_nat (n div 10 ^ f) @
         (if f = 0 then [] else L ''.'' @ frac_digits f (n mod 10 ^ f)))"

text \<open>The rendered value is within half a unit of the last place shown.\<close>

lemma fixed_nat_err: "\<bar>of_nat (fixed_nat f x) / 10 ^ f - \<bar>x\<bar>\<bar> \<le> 1 / (2 * 10 ^ f)"
proof -
  let ?y = "\<bar>x\<bar> * 10 ^ f"
  have "0 \<le> ?y" by simp
  then have "of_nat (fixed_nat f x) = (of_int \<lfloor>?y + 1 / 2\<rfloor> :: rat)"
    by (simp add: fixed_nat_def)
  then have "\<bar>of_nat (fixed_nat f x) - ?y\<bar> \<le> 1 / 2" by linarith
  then show ?thesis by (simp add: abs_le_iff field_simps)
qed

fun group3 :: "nat \<Rightarrow> ustr" where
  "group3 n = (if n < 1000 then show_nat n else group3 (n div 1000) @ L '','' @ frac_digits 3 (n mod 1000))"

declare group3.simps [simp del]

definition locale_us :: "int \<Rightarrow> ustr" where
  "locale_us i = (if i < 0 then L ''-'' @ group3 (nat (- i)) else group3 (nat i))"

lemma length_show_nat_le: "n < 10 ^ k \<Longrightarrow> 0 < k \<Longrightarrow> length (show_nat n) \<le> k"
proof (induction k arbitrary: n)
  case (Suc k)
  show ?case
  proof (cases "n < 10")
    case True
    then show ?thesis by (simp add: show_nat_small)
  next
    case False
    then have "k \<noteq> 0" using Suc.prems by (cases k) auto
    moreover have "n div 10 < 10 ^ k" using Suc.prems by (simp add: less_mult_imp_div_less mult.commute)
    ultimately have "length (show_nat (n div 10)) \<le> k" using Suc.IH by simp
    with False show ?thesis using show_nat_big [of n] by simp
  qed
qed simp

lemma frac_digits3: "n < 1000 \<Longrightarrow> frac_digits 3 n = [digit (n div 100), digit (n div 10 mod 10), digit (n mod 10)]"
proof -
  assume n: "n < 1000"
  consider "n < 10" | "10 \<le> n" "n < 100" | "100 \<le> n" by linarith
  then show ?thesis
  proof cases
    case 1
    then show ?thesis
      by (simp only: frac_digits_def show_nat_small div_less mod_less) (simp add: numeral_3_eq_3)
  next
    case 2
    then have "n div 10 < 10" by linarith
    with 2 have "show_nat n = [digit (n div 10), digit (n mod 10)]"
      by (simp only: show_nat_big [of n] show_nat_small [of "n div 10"] append.simps)
    with 2 \<open>n div 10 < 10\<close> show ?thesis by (simp add: frac_digits_def numeral_3_eq_3)
  next
    case 3
    have e: "n div 10 div 10 = n div 100" by (simp add: div_mult2_eq [symmetric])
    have "n div 100 < 10" "10 \<le> n" using 3 n by (simp_all add: less_mult_imp_div_less)
    moreover have "10 \<le> n div 10" using div_le_mono [OF 3, of 10] by simp
    ultimately have "show_nat n = [digit (n div 100), digit (n div 10 mod 10), digit (n mod 10)]"
      by (simp only: show_nat_big [of n] show_nat_big [of "n div 10"] show_nat_small [of "n div 100"] e append.simps)
    then show ?thesis by (simp add: frac_digits_def)
  qed
qed

lemma digits3:
  fixes x y z :: nat
  assumes "y < 10" "z < 10"
  shows "(100 * x + 10 * y + z) div 100 = x" "(100 * x + 10 * y + z) div 10 mod 10 = y"
    "(100 * x + 10 * y + z) mod 10 = z"
proof -
  have "(100 * x + 10 * y + z) div 100 = x + (10 * y + z) div 100"
    by (simp add: add.assoc)
  then show "(100 * x + 10 * y + z) div 100 = x" using assms by simp
  have "(100 * x + 10 * y + z) div 10 = 10 * x + y + z div 10"
    using div_mult_self2 [of 10 z "10 * x + y"] by (simp add: algebra_simps)
  then show "(100 * x + 10 * y + z) div 10 mod 10 = y" using assms by (simp add: mod_simps)
  have "(100 * x + 10 * y + z) mod 10 = z mod 10"
    using mod_mult_self2 [of z 10 "10 * x + y"] by (simp add: algebra_simps)
  then show "(100 * x + 10 * y + z) mod 10 = z" using assms by simp
qed

lemma show_nat_split1000:
  assumes "1000 \<le> n"
  shows "show_nat n = show_nat (n div 1000) @ frac_digits 3 (n mod 1000)"
proof -
  have e: "n div 10 div 10 = n div 100" "n div 100 div 10 = n div 1000"
    by (simp_all add: div_mult2_eq [symmetric])
  have b: "10 \<le> n" "10 \<le> n div 10" "10 \<le> n div 100"
    using assms div_le_mono [OF assms, of 10] div_le_mono [OF assms, of 100] by simp_all
  have "show_nat n = ((show_nat (n div 1000) @ [digit (n div 100 mod 10)]) @
      [digit (n div 10 mod 10)]) @ [digit (n mod 10)]"
    by (simp only: show_nat_big [OF b(1)] show_nat_big [OF b(2), unfolded e]
        show_nat_big [OF b(3), unfolded e])
  then have A: "show_nat n = show_nat (n div 1000) @
      [digit (n div 100 mod 10), digit (n div 10 mod 10), digit (n mod 10)]" by simp
  have m: "n mod 1000 = 100 * (n div 100 mod 10) + 10 * (n div 10 mod 10) + n mod 10"
  proof -
    have "n mod (10 * 100) = 10 * (n div 10 mod 100) + n mod 10" by (rule mod_mult2_eq)
    moreover have "n div 10 mod (10 * 10) = 10 * (n div 10 div 10 mod 10) + n div 10 mod 10"
      by (rule mod_mult2_eq)
    ultimately show ?thesis by (simp add: e)
  qed
  have "n mod 1000 div 100 = n div 100 mod 10" "n mod 1000 div 10 mod 10 = n div 10 mod 10"
    "n mod 1000 mod 10 = n mod 10"
    unfolding m by (rule digits3; simp)+
  moreover have "n mod 1000 < 1000" by simp
  ultimately have "frac_digits 3 (n mod 1000) =
      [digit (n div 100 mod 10), digit (n div 10 mod 10), digit (n mod 10)]"
    using frac_digits3 [of "n mod 1000"] by (simp only: )
  with A show ?thesis by simp
qed

text \<open>Grouping only inserts commas: without them the plain decimal digits are left.\<close>

lemma digits_no_comma: "list_all is_digit s \<Longrightarrow> filter (\<lambda>c. c \<noteq> ch (CHR '','')) s = s"
  by (induction s) (auto simp: is_digit_def unat_ch)

lemma filter_group3: "filter (\<lambda>c. c \<noteq> ch (CHR '','')) (group3 n) = show_nat n"
proof (induction n rule: group3.induct)
  case (1 n)
  show ?case
  proof (cases "n < 1000")
    case True
    then show ?thesis by (subst group3.simps) (simp add: digits_no_comma show_nat_digits)
  next
    case False
    have z: "is_digit (ch (CHR ''0''))" by (simp add: is_digit_def unat_ch)
    have "list_all is_digit (frac_digits 3 (n mod 1000))"
      using z by (auto simp: frac_digits_def show_nat_digits list_all_iff)
        (use show_nat_digits in \<open>auto simp: list_all_iff\<close>)
    with False 1 show ?thesis
      by (subst group3.simps) (simp add: digits_no_comma show_nat_split1000)
  qed
qed

lemma read_locale_us: "0 \<le> i \<Longrightarrow> int (read_nat (filter (\<lambda>c. c \<noteq> ch (CHR '','')) (locale_us i))) = i"
  by (simp add: locale_us_def filter_group3)

end
