(* ===== verification/JsDate.thy ===== *)
theory JsDate
  imports JsNumber "HOL-Library.Monad_Syntax"
begin

text \<open>
  ECMAScript's Date as the scripts use it: a time value is an \<open>int\<close> of milliseconds
  since 1970-01-01 UTC, or absent for an invalid date. The calendar follows the
  definitions of the language standard (DayFromYear, YearFromTime, MonthFromTime,
  MakeDay). \<open>parse_iso\<close> reads the timestamps Go marshals (RFC 3339: four-digit year,
  optional fraction, \<open>Z\<close> or a numeric offset); a string outside that form, or one
  naming a day the month does not have, goes to the host's \<open>date_legacy\<close>, because
  engines differ there.
\<close>

section \<open>The proleptic Gregorian calendar\<close>

definition day_from_year :: "int \<Rightarrow> int" where
  "day_from_year y = 365 * (y - 1970) + (y - 1969) div 4 - (y - 1901) div 100 + (y - 1601) div 400"

definition leap :: "int \<Rightarrow> bool" where
  "leap y \<longleftrightarrow> y mod 4 = 0 \<and> (y mod 100 \<noteq> 0 \<or> y mod 400 = 0)"

definition year_of_day :: "int \<Rightarrow> int" where
  "year_of_day d =
     (let y = 1970 + d * 400 div 146097
      in if d < day_from_year y then y - 1 else if day_from_year (y + 1) \<le> d then y + 1 else y)"

text \<open>Days before month \<open>m\<close> (0 to 12, January is 0).\<close>

definition cum_days :: "bool \<Rightarrow> nat \<Rightarrow> int" where
  "cum_days lp m =
     [0, 31, 59, 90, 120, 151, 181, 212, 243, 273, 304, 334, 365] ! m + (if lp \<and> 2 \<le> m then 1 else 0)"

definition month_of :: "bool \<Rightarrow> int \<Rightarrow> nat" where
  "month_of lp dy = length (filter (\<lambda>m. cum_days lp m \<le> dy) [1, 2, 3, 4, 5, 6, 7, 8, 9, 10, 11])"

definition make_day :: "int \<Rightarrow> nat \<Rightarrow> int \<Rightarrow> int" where
  "make_day y m d = day_from_year y + cum_days (leap y) m + d - 1"

definition days_in_month :: "int \<Rightarrow> nat \<Rightarrow> int" where
  "days_in_month y m = cum_days (leap y) (Suc m) - cum_days (leap y) m"

lemma div_Suc_int:
  fixes x n :: int
  assumes "0 < n"
  shows "(x + 1) div n = x div n + (if (x + 1) mod n = 0 then 1 else 0)"
proof -
  have r: "0 \<le> x mod n" "x mod n < n" using assms by simp_all
  have "x + 1 = (x mod n + 1) + n * (x div n)" by simp
  then have d: "(x + 1) div n = x div n + (x mod n + 1) div n" and m: "(x + 1) mod n = (x mod n + 1) mod n"
    using assms by (metis add.commute div_mult_self2 less_irrefl, metis mod_mult_self2)
  show ?thesis
  proof (cases "x mod n + 1 = n")
    case True
    with assms d m show ?thesis by simp
  next
    case False
    with r have "0 < x mod n + 1" "x mod n + 1 < n" by linarith+
    with d m show ?thesis by (simp add: div_pos_pos_trivial mod_pos_pos_trivial)
  qed
qed

lemma mod_shift_int: "(y - n * k) mod n = 0 \<longleftrightarrow> y mod n = 0" for y n k :: int
  using mod_mult_self2 [of y n "- k"] by simp

lemma div_step:
  fixes y n k :: int
  assumes "0 < n"
  shows "(y + 1 - (n * k + 1)) div n = (y - (n * k + 1)) div n + (if y mod n = 0 then 1 else 0)"
proof -
  have "y + 1 - (n * k + 1) = y - (n * k + 1) + 1" "y - (n * k + 1) + 1 = y - n * k" by simp_all
  then show ?thesis using div_Suc_int [OF assms, of "y - (n * k + 1)"] by (simp only: mod_shift_int)
qed

lemma day_from_year_Suc: "day_from_year (y + 1) = day_from_year y + (if leap y then 366 else 365)"
proof -
  define a b c where "a = (y - 1969) div 4" and "b = (y - 1901) div 100" and "c = (y - 1601) div 400"
  define a' b' c' where "a' = (y + 1 - 1969) div 4" and "b' = (y + 1 - 1901) div 100"
    and "c' = (y + 1 - 1601) div 400"
  have k: "4 * 492 + 1 = (1969::int)" "100 * 19 + 1 = (1901::int)" "400 * 4 + 1 = (1601::int)" by simp_all
  have s: "a' = a + (if y mod 4 = 0 then 1 else 0)"
    unfolding a_def a'_def by (rule div_step [of 4 y 492, unfolded k]) simp
  have s': "b' = b + (if y mod 100 = 0 then 1 else 0)"
    unfolding b_def b'_def by (rule div_step [of 100 y 19, unfolded k]) simp
  have s'': "c' = c + (if y mod 400 = 0 then 1 else 0)"
    unfolding c_def c'_def by (rule div_step [of 400 y 4, unfolded k]) simp
  define p q r where "p \<longleftrightarrow> y mod 4 = 0" and "q \<longleftrightarrow> y mod 100 = 0" and "r \<longleftrightarrow> y mod 400 = 0"
  have "q \<longrightarrow> p" "r \<longrightarrow> q"
    using dvd_trans [of 4 100 y] dvd_trans [of 100 400 y]
    unfolding p_def q_def r_def mod_eq_0_iff_dvd by auto
  moreover have "day_from_year y = 365 * (y - 1970) + a - b + c"
    "day_from_year (y + 1) = 365 * (y + 1 - 1970) + a' - b' + c'"
    unfolding day_from_year_def a_def b_def c_def a'_def b'_def c'_def by (rule refl)+
  moreover have "leap y \<longleftrightarrow> p \<and> (\<not> q \<or> r)" unfolding leap_def p_def q_def r_def by (rule refl)
  ultimately show ?thesis
    using s s' s'' unfolding p_def [symmetric] q_def [symmetric] r_def [symmetric]
    by (cases p; cases q; cases r; simp)
qed

lemma day_from_year_mono: "i \<le> j \<Longrightarrow> day_from_year i \<le> day_from_year j"
proof (induction j rule: int_ge_induct)
  case (step j)
  then show ?case by (simp add: day_from_year_Suc split: if_splits)
qed simp

lemma div_bounds_int:
  fixes x n :: int
  assumes "0 < n"
  shows "n * (x div n) \<le> x \<and> x - (n - 1) \<le> n * (x div n)"
  using pos_mod_bound [OF assms, of x] pos_mod_sign [OF assms, of x] mult_div_mod_eq [of n x]
  by linarith

lemma day_from_year_bounds:
  "146097 * (y - 1970) - 600 \<le> 400 * day_from_year y \<and>
   400 * day_from_year y \<le> 146097 * (y - 1970) + 600"
proof -
  define a b c where "a = (y - 1969) div 4" and "b = (y - 1901) div 100" and "c = (y - 1601) div 400"
  have "4 * a \<le> y - 1969" "y - 1969 - 3 \<le> 4 * a" "100 * b \<le> y - 1901" "y - 1901 - 99 \<le> 100 * b"
    "400 * c \<le> y - 1601" "y - 1601 - 399 \<le> 400 * c"
    using div_bounds_int [of 4 "y - 1969"] div_bounds_int [of 100 "y - 1901"]
      div_bounds_int [of 400 "y - 1601"] by (simp_all add: a_def b_def c_def)
  moreover have "day_from_year y = 365 * (y - 1970) + a - b + c"
    by (simp add: day_from_year_def a_def b_def c_def)
  ultimately have "400 * day_from_year y = 146000 * (y - 1970) + 100 * (4 * a) - 4 * (100 * b) + 400 * c"
    and "4 * a \<le> y - 1969" "y - 1969 - 3 \<le> 4 * a" "100 * b \<le> y - 1901" "y - 1901 - 99 \<le> 100 * b"
    "400 * c \<le> y - 1601" "y - 1601 - 399 \<le> 400 * c"
    by (simp_all add: algebra_simps)
  then show ?thesis by (simp add: algebra_simps)
qed

lemma year_of_day_correct:
  "day_from_year (year_of_day d) \<le> d \<and> d < day_from_year (year_of_day d + 1)"
proof -
  define y where "y = 1970 + d * 400 div 146097"
  have q: "146097 * (y - 1970) \<le> d * 400" "d * 400 < 146097 * (y - 1970) + 146097"
    using div_bounds_int [of 146097 "d * 400"] by (simp_all add: y_def)
  have "day_from_year (y - 1) \<le> d" using conjunct2 [OF day_from_year_bounds [of "y - 1"]] q by simp
  moreover have "d < day_from_year (y + 1 + 1)" using conjunct1 [OF day_from_year_bounds [of "y + 1 + 1"]] q by simp
  ultimately show ?thesis by (simp add: year_of_day_def Let_def y_def [symmetric])
qed

lemma year_of_day_unique:
  assumes "day_from_year y \<le> d" "d < day_from_year (y + 1)"
  shows "year_of_day d = y"
proof -
  have a: "day_from_year (year_of_day d) \<le> d" "d < day_from_year (year_of_day d + 1)"
    using year_of_day_correct by auto
  show ?thesis
  proof (rule linorder_cases [of "year_of_day d" y])
    assume "year_of_day d < y"
    then have "day_from_year (year_of_day d + 1) \<le> day_from_year y" by (intro day_from_year_mono) simp
    with a assms show ?thesis by linarith
  next
    assume "y < year_of_day d"
    then have "day_from_year (y + 1) \<le> day_from_year (year_of_day d)" by (intro day_from_year_mono) simp
    with a assms show ?thesis by linarith
  qed
qed

lemma month_cases:
  fixes m :: nat
  shows "m < 12 \<Longrightarrow> m \<in> {0, 1, 2, 3, 4, 5, 6, 7, 8, 9, 10, 11}"
  by (simp only: insert_iff empty_iff) arith

lemma cum_days_table:
  "cum_days lp 0 = 0" "cum_days lp 1 = 31" "cum_days lp (Suc 0) = 31"
  "cum_days lp 2 = 59 + of_bool lp" "cum_days lp (Suc (Suc 0)) = 59 + of_bool lp"
  "cum_days lp 3 = 90 + of_bool lp" "cum_days lp 4 = 120 + of_bool lp" "cum_days lp 5 = 151 + of_bool lp"
  "cum_days lp 6 = 181 + of_bool lp" "cum_days lp 7 = 212 + of_bool lp" "cum_days lp 8 = 243 + of_bool lp"
  "cum_days lp 9 = 273 + of_bool lp" "cum_days lp 10 = 304 + of_bool lp" "cum_days lp 11 = 334 + of_bool lp"
  "cum_days lp 12 = 365 + of_bool lp"
  by (simp_all add: cum_days_def)

lemma month_of_cum:
  assumes "m < 12" "cum_days lp m \<le> dy" "dy < cum_days lp (Suc m)"
  shows "month_of lp dy = m"
proof -
  from month_cases [OF assms(1)] show ?thesis using assms(2,3)
    by (cases lp) (auto simp: month_of_def cum_days_table)
qed

lemma cum_days_bounds: "m < 12 \<Longrightarrow> 0 \<le> cum_days lp m \<and> cum_days lp (Suc m) \<le> (if lp then 366 else 365)"
proof -
  assume "m < 12"
  from month_cases [OF this] show ?thesis by (auto simp: cum_days_table)
qed

text \<open>The calendar fields of a day made from a valid date are that date.\<close>

lemma make_day_fields:
  assumes "m < 12" "1 \<le> d" "d \<le> days_in_month y m"
  defines "n \<equiv> make_day y m d"
  shows "year_of_day n = y"
    and "month_of (leap y) (n - day_from_year y) = m"
    and "n - day_from_year y - cum_days (leap y) m + 1 = d"
proof -
  have b: "cum_days (leap y) m \<le> n - day_from_year y" "n - day_from_year y < cum_days (leap y) (Suc m)"
    using assms by (simp_all add: make_day_def days_in_month_def)
  show "year_of_day n = y"
    using b cum_days_bounds [OF assms(1), of "leap y"]
    by (intro year_of_day_unique) (auto simp: day_from_year_Suc split: if_splits)
  show "month_of (leap y) (n - day_from_year y) = m" by (rule month_of_cum [OF assms(1) b])
  show "n - day_from_year y - cum_days (leap y) m + 1 = d" by (simp add: n_def make_day_def)
qed

section \<open>Fields of a time value\<close>

definition ms_day :: int where "ms_day = 86400000"

definition utc_year :: "int \<Rightarrow> int" where
  "utc_year t = year_of_day (t div ms_day)"

definition utc_month :: "int \<Rightarrow> nat" where
  "utc_month t = (let d = t div ms_day; y = year_of_day d in month_of (leap y) (d - day_from_year y))"

definition utc_date :: "int \<Rightarrow> int" where
  "utc_date t =
     (let d = t div ms_day; y = year_of_day d
      in d - day_from_year y - cum_days (leap y) (utc_month t) + 1)"

definition utc_hours :: "int \<Rightarrow> int" where "utc_hours t = t mod ms_day div 3600000"
definition utc_minutes :: "int \<Rightarrow> int" where "utc_minutes t = t div 60000 mod 60"
definition utc_seconds :: "int \<Rightarrow> int" where "utc_seconds t = t div 1000 mod 60"

definition make_time :: "int \<Rightarrow> nat \<Rightarrow> int \<Rightarrow> int \<Rightarrow> int \<Rightarrow> int \<Rightarrow> int \<Rightarrow> int" where
  "make_time y m d hh mi ss ms =
     make_day y m d * ms_day + hh * 3600000 + mi * 60000 + ss * 1000 + ms"

record civil =
  c_year :: int
  c_month :: nat
  c_day :: int
  c_hour :: int
  c_min :: int
  c_sec :: int
  c_ms :: int

definition civil_ok :: "civil \<Rightarrow> bool" where
  "civil_ok c \<longleftrightarrow> c_month c < 12 \<and> 1 \<le> c_day c \<and> c_day c \<le> days_in_month (c_year c) (c_month c) \<and>
     0 \<le> c_hour c \<and> c_hour c < 24 \<and> 0 \<le> c_min c \<and> c_min c < 60 \<and> 0 \<le> c_sec c \<and> c_sec c < 60 \<and>
     0 \<le> c_ms c \<and> c_ms c < 1000"

definition time_of :: "civil \<Rightarrow> int" where
  "time_of c = make_time (c_year c) (c_month c) (c_day c) (c_hour c) (c_min c) (c_sec c) (c_ms c)"

lemma time_of_day:
  assumes "civil_ok c"
  shows "time_of c div ms_day = make_day (c_year c) (c_month c) (c_day c)"
    and "time_of c mod ms_day = c_hour c * 3600000 + c_min c * 60000 + c_sec c * 1000 + c_ms c"
proof -
  let ?r = "c_hour c * 3600000 + c_min c * 60000 + c_sec c * 1000 + c_ms c"
  have "0 \<le> ?r \<and> ?r < ms_day" using assms by (simp add: civil_ok_def ms_day_def)
  moreover have "time_of c = make_day (c_year c) (c_month c) (c_day c) * ms_day + ?r"
    by (simp add: time_of_def make_time_def)
  ultimately show "time_of c div ms_day = make_day (c_year c) (c_month c) (c_day c)"
    and "time_of c mod ms_day = ?r"
    by simp_all
qed

lemma utc_fields_time_of:
  assumes "civil_ok c"
  shows "utc_year (time_of c) = c_year c" "utc_month (time_of c) = c_month c"
    "utc_date (time_of c) = c_day c" "utc_hours (time_of c) = c_hour c"
    "utc_minutes (time_of c) = c_min c" "utc_seconds (time_of c) = c_sec c"
proof -
  have ok: "c_month c < 12" "1 \<le> c_day c" "c_day c \<le> days_in_month (c_year c) (c_month c)"
    using assms by (simp_all add: civil_ok_def)
  note D = make_day_fields [OF ok] and T = time_of_day [OF assms]
  show y: "utc_year (time_of c) = c_year c" by (simp add: utc_year_def T D)
  show m: "utc_month (time_of c) = c_month c" by (simp add: utc_month_def T D)
  show "utc_date (time_of c) = c_day c" using D(3) by (simp add: utc_date_def T D m)
  have b: "0 \<le> c_hour c" "c_hour c < 24" "0 \<le> c_min c" "c_min c < 60" "0 \<le> c_sec c" "c_sec c < 60"
    "0 \<le> c_ms c" "c_ms c < 1000" using assms by (simp_all add: civil_ok_def)
  show "utc_hours (time_of c) = c_hour c"
    using b T(2) div_pos_pos_trivial [of "c_min c * 60000 + c_sec c * 1000 + c_ms c" 3600000]
    by (simp add: utc_hours_def add.assoc)
  let ?d = "make_day (c_year c) (c_month c) (c_day c)"
  have "time_of c = (?d * 1440 + c_hour c * 60 + c_min c) * 60000 + (c_sec c * 1000 + c_ms c)"
    by (simp add: time_of_def make_time_def ms_day_def algebra_simps)
  moreover have "(c_sec c * 1000 + c_ms c) div 60000 = 0" using b by (intro div_pos_pos_trivial) linarith+
  ultimately have "time_of c div 60000 = c_min c + 60 * (?d * 24 + c_hour c)"
    by simp
  then show "utc_minutes (time_of c) = c_min c"
    using b mod_mult_self2 [of "c_min c" 60 "?d * 24 + c_hour c"]
    by (simp only: utc_minutes_def mod_pos_pos_trivial)
  have "time_of c = (c_sec c + 60 * (?d * 1440 + c_hour c * 60 + c_min c)) * 1000 + c_ms c"
    by (simp add: time_of_def make_time_def ms_day_def algebra_simps)
  then have "time_of c div 1000 = c_sec c + 60 * (?d * 1440 + c_hour c * 60 + c_min c)"
    using b by simp
  then show "utc_seconds (time_of c) = c_sec c"
    using b mod_mult_self2 [of "c_sec c" 60 "?d * 1440 + c_hour c * 60 + c_min c"]
    by (simp only: utc_seconds_def mod_pos_pos_trivial)
qed

section \<open>Reading timestamps\<close>

definition take_digits :: "nat \<Rightarrow> ustr \<Rightarrow> (nat \<times> ustr) option" where
  "take_digits n s =
     (if n \<le> length s \<and> list_all is_digit (take n s) then Some (read_nat (take n s), drop n s) else None)"

definition expect :: "char \<Rightarrow> ustr \<Rightarrow> ustr option" where
  "expect c s = (if has_prefix (L [c]) s then Some (drop 1 s) else None)"

text \<open>Digits beyond the third of a fraction are dropped.\<close>

definition frac_ms :: "ustr \<Rightarrow> nat" where
  "frac_ms f = read_nat (take 3 (f @ L ''000''))"

definition take_frac :: "ustr \<Rightarrow> (nat \<times> ustr) option" where
  "take_frac s =
     (if has_prefix (L ''.'') s then
        (let f = takeWhile is_digit (drop 1 s)
         in if f = [] then None else Some (frac_ms f, dropWhile is_digit (drop 1 s)))
      else Some (0, s))"

definition take_offset :: "ustr \<Rightarrow> int option" where
  "take_offset s =
     (if s = L ''Z'' then Some 0
      else if has_prefix (L ''+'') s \<or> has_prefix (L ''-'') s then do {
        (hh, r) \<leftarrow> take_digits 2 (drop 1 s);
        r \<leftarrow> expect (CHR '':'') r;
        (mi, r) \<leftarrow> take_digits 2 r;
        if r = [] \<and> hh < 24 \<and> mi < 60
        then Some ((if has_prefix (L ''-'') s then - 1 else 1) * (int hh * 3600000 + int mi * 60000))
        else None }
      else None)"

definition parse_iso :: "ustr \<Rightarrow> int option" where
  "parse_iso s = do {
     (y, s) \<leftarrow> take_digits 4 s; s \<leftarrow> expect (CHR ''-'') s;
     (mo, s) \<leftarrow> take_digits 2 s; s \<leftarrow> expect (CHR ''-'') s;
     (d, s) \<leftarrow> take_digits 2 s; s \<leftarrow> expect (CHR ''T'') s;
     (hh, s) \<leftarrow> take_digits 2 s; s \<leftarrow> expect (CHR '':'') s;
     (mi, s) \<leftarrow> take_digits 2 s; s \<leftarrow> expect (CHR '':'') s;
     (ss, s) \<leftarrow> take_digits 2 s;
     (ms, s) \<leftarrow> take_frac s;
     off \<leftarrow> take_offset s;
     let c = \<lparr>c_year = int y, c_month = mo - 1, c_day = int d, c_hour = int hh, c_min = int mi,
              c_sec = int ss, c_ms = int ms\<rparr>;
     if 1 \<le> mo \<and> civil_ok c then Some (time_of c - off) else None }"

definition date_parse :: "host \<Rightarrow> ustr \<Rightarrow> int option" where
  "date_parse h s = (case parse_iso s of Some t \<Rightarrow> Some t | None \<Rightarrow> date_legacy h s)"

text \<open>The timestamps Go's \<open>time.Time\<close> marshals to in UTC, with fraction digits \<open>f\<close>.\<close>

definition show_rfc3339 :: "civil \<Rightarrow> ustr \<Rightarrow> ustr" where
  "show_rfc3339 c f =
     frac_digits 4 (nat (c_year c)) @ L ''-'' @ pad2 (c_month c + 1) @ L ''-'' @ pad2 (nat (c_day c)) @
     L ''T'' @ pad2 (nat (c_hour c)) @ L '':'' @ pad2 (nat (c_min c)) @ L '':'' @ pad2 (nat (c_sec c)) @
     (if f = [] then [] else L ''.'' @ f) @ L ''Z''"

lemma frac_digits_fixed:
  assumes "n < 10 ^ k" "0 < k"
  shows "length (frac_digits k n) = k" "list_all is_digit (frac_digits k n)" "read_nat (frac_digits k n) = n"
proof -
  show "length (frac_digits k n) = k"
    using length_show_nat_le [OF assms] by (simp add: frac_digits_def)
  have "is_digit (ch (CHR ''0''))" by (simp add: is_digit_def unat_ch)
  then show "list_all is_digit (frac_digits k n)"
    using show_nat_digits [of n] by (auto simp: frac_digits_def list_all_iff)
  have "digit_val (ch (CHR ''0'')) = 0" by (simp add: digit_val_def unat_ch)
  then have "read_nat (replicate j (ch (CHR ''0'')) @ s) = read_nat s" for j s
    by (induction j) (simp_all add: read_nat_def)
  then show "read_nat (frac_digits k n) = n" by (simp add: frac_digits_def)
qed

lemma pad2_frac: "pad2 = frac_digits 2"
  by (simp add: fun_eq_iff pad2_def frac_digits_def)

lemma take_frac_digits:
  "n < 10 ^ k \<Longrightarrow> 0 < k \<Longrightarrow> take_digits k (frac_digits k n @ r) = Some (n, r)"
  using frac_digits_fixed [of n k] by (simp add: take_digits_def)

lemma take_pad2: "n < 100 \<Longrightarrow> take_digits 2 (pad2 n @ r) = Some (n, r)"
  using take_frac_digits [of n 2 r] by (simp add: pad2_frac)

lemma expect_ch [simp]: "expect c (ch c # s) = Some s"
  by (simp add: expect_def)

lemma take_frac_Z:
  assumes "list_all is_digit f"
  shows "take_frac ((if f = [] then [] else L ''.'' @ f) @ L ''Z'') = Some (frac_ms f, L ''Z'')"
proof -
  have z: "\<not> is_digit (ch (CHR ''Z''))" by (simp add: is_digit_def unat_ch)
  have "read_nat (L ''000'') = 0" by (simp add: read_nat_def digit_val_def unat_ch)
  with assms z show ?thesis
    by (auto simp: take_frac_def frac_ms_def list_all_iff takeWhile_append2 dropWhile_append2)
qed

lemma days_in_month_le: "m < 12 \<Longrightarrow> days_in_month y m \<le> 31"
  using month_cases [of m] by (auto simp: days_in_month_def cum_days_table)

text \<open>Reading back what Go wrote: the time value of the same civil time.\<close>

lemma parse_show_rfc3339:
  assumes "civil_ok c" "0 \<le> c_year c" "c_year c \<le> 9999" "list_all is_digit f" "c_ms c = int (frac_ms f)"
  shows "parse_iso (show_rfc3339 c f) = Some (time_of c)"
proof -
  have b: "nat (c_year c) < 10 ^ 4" "c_month c + 1 < 100" "nat (c_day c) < 100" "nat (c_hour c) < 100"
    "nat (c_min c) < 100" "nat (c_sec c) < 100"
    using assms(1-3) days_in_month_le [of "c_month c" "c_year c"] by (auto simp: civil_ok_def)
  have n: "0 \<le> c_year c" "0 \<le> c_day c" "0 \<le> c_hour c" "0 \<le> c_min c" "0 \<le> c_sec c"
    using assms(1,2) by (auto simp: civil_ok_def)
  have off: "take_offset (L ''Z'') = Some 0" by (simp add: take_offset_def)
  have c: "\<lparr>c_year = c_year c, c_month = c_month c, c_day = c_day c, c_hour = c_hour c,
     c_min = c_min c, c_sec = c_sec c, c_ms = c_ms c\<rparr> = c" by simp
  show ?thesis
    using assms(1,5) n
    by (simp only: parse_iso_def show_rfc3339_def L.simps append.simps append_Cons append_assoc
        take_frac_digits [OF b(1)] take_pad2 [OF b(2)] take_pad2 [OF b(3)] take_pad2 [OF b(4)]
        take_pad2 [OF b(5)] take_pad2 [OF b(6)] expect_ch bind.simps prod.case zero_less_numeral
        take_frac_Z [OF assms(4), unfolded L.simps append.simps] off [unfolded L.simps])
      (simp add: assms(5) [symmetric] Let_def c)
qed

text \<open>Two timestamps as Go writes them: the zero time, and an ordinary one.\<close>

lemma zero_time_text:
  "show_rfc3339 \<lparr>c_year = 1, c_month = 0, c_day = 1, c_hour = 0, c_min = 0, c_sec = 0, c_ms = 0\<rparr> [] =
     L ''0001-01-01T00:00:00Z''"
  by (simp add: show_rfc3339_def frac_digits_def pad2_def show_nat_small numeral_3_eq_3)

lemma parse_zero_time: "parse_iso (L ''0001-01-01T00:00:00Z'') = Some (- 62135596800000)"
proof -
  let ?c = "\<lparr>c_year = 1, c_month = 0, c_day = 1, c_hour = 0, c_min = 0, c_sec = 0, c_ms = 0\<rparr>"
  have "parse_iso (show_rfc3339 ?c []) = Some (time_of ?c)"
    by (rule parse_show_rfc3339) (simp_all add: civil_ok_def days_in_month_def cum_days_table frac_ms_def read_nat_def
        digit_val_def unat_ch)
  also have "time_of ?c = - 62135596800000"
    by (simp add: time_of_def make_time_def make_day_def day_from_year_def cum_days_table ms_day_def)
  finally show ?thesis by (simp only: zero_time_text)
qed

end
