(* ===== verification/Inventory.thy ===== *)
theory Inventory
  imports Prelude
begin

text \<open>
  The inventory snapshot \<open>backends.json\<close> carries, as the Go handler marshals it and
  both backend pages read it: a list of server groups, each with its targets. A field
  the scripts guard with \<open>||\<close> because it may be null is an \<open>option\<close>; timestamps are
  the text Go's \<open>time.Time\<close> marshals to.
\<close>

record target =
  t_url :: ustr
  t_healthy :: bool
  t_lastError :: ustr
  t_lastProbeAt :: ustr
  t_version :: ustr
  t_backendType :: ustr

record group =
  g_name :: ustr
  g_ordinal :: int
  g_labels :: "(ustr \<times> ustr) list option"
  g_targets :: "target list option"

record inventory =
  i_generatedAt :: ustr
  i_groups :: "group list option"

text \<open>The zero \<open>time.Time\<close>, which is what the handler sends for a target with no probe result.\<close>

definition go_zero_time :: ustr where
  "go_zero_time = L ''0001-01-01T00:00:00Z''"

definition up_targets :: "group \<Rightarrow> target list" where
  "up_targets g = filter t_healthy (or_empty (g_targets g))"

lemma up_targets_le: "length (up_targets g) \<le> length (or_empty (g_targets g))"
  by (simp add: up_targets_def)

end
