(* ===== verification/AppFormat.thy ===== *)
theory AppFormat
  imports Html JsDate Inventory
begin

text \<open>
  The utilities of the inventory page's client (\<open>pkg/proxeusui/static/app.js\<close>):
  relative and absolute times, health labels, truncation, HTML escaping and the
  backend badge. \<open>null\<close> results and arguments are \<open>None\<close>.
\<close>

section \<open>Times\<close>

definition relativeTime :: "host \<Rightarrow> ustr \<Rightarrow> ustr option" where
  "relativeTime h isoString =
     (if isoString = [] then None
      else case date_parse h isoString of None \<Rightarrow> None
      | Some t \<Rightarrow>
        (let diffMs = clock h - t; diffSec = diffMs div 1000 in
         if diffSec < 5 then Some (L ''just now'')
         else if diffSec < 60 then Some (show_int diffSec @ L ''s ago'')
         else let diffMin = diffSec div 60 in
         if diffMin < 60 then Some (show_int diffMin @ L ''m ago'')
         else let diffHr = diffMin div 60 in
         if diffHr < 24 then Some (show_int diffHr @ L ''h ago'')
         else let diffDay = diffHr div 24 in Some (show_int diffDay @ L ''d ago'')))"

definition formatAbsolute :: "host \<Rightarrow> ustr \<Rightarrow> ustr" where
  "formatAbsolute h isoString =
     (if isoString = [] then L ''unknown''
      else case date_parse h isoString of None \<Rightarrow> isoString
      | Some t \<Rightarrow>
        show_int (utc_year t) @ L ''-'' @ pad2 (utc_month t + 1) @ L ''-'' @ pad2 (nat (utc_date t)) @
        L '' '' @ pad2 (nat (utc_hours t)) @ L '':'' @ pad2 (nat (utc_minutes t)) @ L '':'' @
        pad2 (nat (utc_seconds t)) @ L '' UTC'')"

section \<open>Health, truncation, escaping\<close>

definition healthClass :: "bool \<Rightarrow> ustr \<Rightarrow> ustr" where
  "healthClass healthy lastProbeAt =
     (if lastProbeAt = [] then L ''unknown'' else if healthy then L ''healthy'' else L ''unhealthy'')"

definition healthLabel :: "bool \<Rightarrow> ustr \<Rightarrow> ustr" where
  "healthLabel healthy lastProbeAt =
     (if lastProbeAt = [] then L ''Unknown'' else if healthy then L ''Up'' else L ''Down'')"

definition truncate :: "ustr \<Rightarrow> nat \<Rightarrow> ustr" where
  "truncate str maxLen =
     (if str = [] \<or> length str \<le> maxLen then or_else str [] else take maxLen str @ [0x2026])"

definition app_esc :: "ustr option \<Rightarrow> ustr" where
  "app_esc str =
     (case str of None \<Rightarrow> []
      | Some s \<Rightarrow>
        replace_unit (ch (CHR 0x22)) (L ''&quot;'')
          (replace_unit (ch (CHR ''>'')) (L ''&gt;'')
            (replace_unit (ch (CHR ''<'')) (L ''&lt;'')
              (replace_unit (ch (CHR ''&'')) (L ''&amp;'') s))))"

lemma app_esc_Some [simp]: "app_esc (Some s) = esc_html s"
  by (simp only: app_esc_def option.case replace_chain)

lemma app_esc_None [simp]: "app_esc None = []"
  by (simp add: app_esc_def)

interpretation app: html_escaper "\<lambda>s. app_esc (Some s)"
  unfolding app_esc_Some by (rule std.html_escaper_axioms)

section \<open>Badge and label chips\<close>

definition badgeLabel :: "ustr \<Rightarrow> ustr \<Rightarrow> ustr" where
  "badgeLabel type label =
     (if type = L ''victoriametrics'' then L ''VictoriaMetrics''
      else if type = L ''thanos'' then L ''Thanos''
      else if type = L ''prometheus'' then L ''Prometheus'' else label)"

definition buildBadge :: "host \<Rightarrow> ustr \<Rightarrow> ustr" where
  "buildBadge h backendType =
     (let type = to_lower h (or_else backendType (L ''unknown''));
          label = badgeLabel type (or_else backendType (L ''unknown''))
      in L ''<span class=\"backend-badge backend-badge--'' @ app_esc (Some type) @ L ''\">'' @
         app_esc (Some label) @ L ''</span>'')"

definition buildLabelChips :: "(ustr \<times> ustr) list option \<Rightarrow> ustr" where
  "buildLabelChips labels =
     (case labels of None \<Rightarrow> []
      | Some ls \<Rightarrow>
        join [] (map (\<lambda>k. L ''<span class=\"label-chip\">'' @ app_esc (Some k) @ L ''='' @
                          app_esc (map_of ls k) @ L ''</span>'') (sort (map fst ls))))"

section \<open>What the utilities show\<close>

lemma esc_hi [simp]: "256 \<le> unat c \<Longrightarrow> esc_unit c = [c]"
  using ch_less by (auto simp: esc_unit_def not_less [symmetric])

lemma length_truncate: "length (truncate s n) \<le> Suc n"
  by (auto simp: truncate_def or_else_def)

lemma truncate_short: "length s \<le> n \<Longrightarrow> truncate s n = s"
  by (auto simp: truncate_def or_else_def)

lemma healthClass_safe [esc_simps]: "esc_html (healthClass b s) = healthClass b s"
  by (simp add: healthClass_def)

text \<open>The unit a relative time is shown in: its suffix and its length in milliseconds.\<close>

definition rel_units :: "(string \<times> int) list" where
  "rel_units = [(''s ago'', 1000), (''m ago'', 60000), (''h ago'', 3600000), (''d ago'', 86400000)]"

lemma div_range:
  fixes a k :: int
  assumes "0 < k"
  shows "a div k * k \<le> a \<and> a < (a div k + 1) * k"
proof -
  have "a div k * k + a mod k = a" by simp
  with pos_mod_bound [OF assms, of a] pos_mod_sign [OF assms, of a] show ?thesis
    unfolding distrib_right by linarith
qed

lemma div_less_int: "0 < k \<Longrightarrow> a div k < n \<longleftrightarrow> a < n * k" for a k n :: int
proof
  assume k: "0 < k"
  { assume "a div k < n"
    then have "(a div k + 1) * k \<le> n * k" using k by (intro mult_right_mono) simp_all
    with div_range [OF k, of a] show "a < n * k" by linarith }
  { assume less: "a < n * k"
    show "a div k < n"
    proof (rule ccontr)
      assume "\<not> a div k < n"
      then have "n * k \<le> a div k * k" using k by (intro mult_right_mono) simp_all
      with div_range [OF k, of a] less show False by linarith
    qed }
qed

text \<open>The nested floors of the code are floors of the age itself.\<close>

lemma relativeTime_eq:
  assumes "str \<noteq> []" "date_parse h str = Some t"
  shows "relativeTime h str = Some
    (let a = clock h - t in
     if a < 5000 then L ''just now''
     else if a < 60000 then show_int (a div 1000) @ L ''s ago''
     else if a < 3600000 then show_int (a div 60000) @ L ''m ago''
     else if a < 86400000 then show_int (a div 3600000) @ L ''h ago''
     else show_int (a div 86400000) @ L ''d ago'')"
proof -
  let ?a = "clock h - t"
  have d: "?a div 1000 div 60 = ?a div 60000" "?a div 60000 div 60 = ?a div 3600000"
    "?a div 3600000 div 24 = ?a div 86400000" by (simp_all add: zdiv_zmult2_eq [symmetric])
  have l: "?a div 1000 < 5 \<longleftrightarrow> ?a < 5000" "?a div 1000 < 60 \<longleftrightarrow> ?a < 60000"
    "?a div 60000 < 60 \<longleftrightarrow> ?a < 3600000" "?a div 3600000 < 24 \<longleftrightarrow> ?a < 86400000"
    by (simp_all only: div_less_int zero_less_numeral) simp_all
  show ?thesis using assms by (simp add: relativeTime_def Let_def d l del: L.simps)
qed

section \<open>Properties\<close>

text \<open>
  A relative time is shown in the coarsest unit of which a whole number has passed, rounded
  down: under five seconds it is "just now"; otherwise it is n units with n at least one,
  the age lies between n and n + 1 of them, and is less than one of any larger unit.
\<close>

lemma relativeTime_coarsest:
  assumes "s \<noteq> []" "date_parse h s = Some t"
  shows "if clock h - t < 5000 then relativeTime h s = Some (L ''just now'')
    else \<exists>(u, k) \<in> set rel_units. \<exists>n \<ge> 1. relativeTime h s = Some (show_int n @ L u) \<and>
      n * k \<le> clock h - t \<and> clock h - t < (n + 1) * k \<and> (\<forall>(u', k') \<in> set rel_units. k < k' \<longrightarrow> clock h - t < k')"
proof -
  let ?a = "clock h - t"
  have one: "1 \<le> ?a div k" if "0 < k" "k \<le> ?a" for k
    using div_less_int [OF that(1), of ?a 1] that(2) by linarith
  have r: "?a div k * k \<le> ?a \<and> ?a < (?a div k + 1) * k" if "0 < k" for k by (rule div_range [OF that])
  have fin: ?thesis
    if "(u, k) \<in> set rel_units" "relativeTime h s = Some (show_int (?a div k) @ L u)" "5000 \<le> ?a" "0 < k" "k \<le> ?a"
      "\<forall>(u', k') \<in> set rel_units. k < k' \<longrightarrow> ?a < k'" for u k
    using that one [OF that(4,5)] r [OF that(4)] by (auto intro!: bexI [OF _ that(1)] exI [of _ "?a div k"])
  note e = relativeTime_eq [OF assms]
  consider "?a < 5000" | "5000 \<le> ?a" "?a < 60000" | "60000 \<le> ?a" "?a < 3600000"
    | "3600000 \<le> ?a" "?a < 86400000" | "86400000 \<le> ?a" by linarith
  then show ?thesis
  proof cases
    case 1
    with e show ?thesis by simp
  next
    case 2
    with e show ?thesis by (intro fin [of "''s ago''" 1000]) (auto simp: rel_units_def)
  next
    case 3
    with e show ?thesis by (intro fin [of "''m ago''" 60000]) (auto simp: rel_units_def)
  next
    case 4
    with e show ?thesis by (intro fin [of "''h ago''" 3600000]) (auto simp: rel_units_def)
  next
    case 5
    with e show ?thesis by (intro fin [of "''d ago''" 86400000]) (auto simp: rel_units_def)
  qed
qed

text \<open>
  A timestamp in the form Go's JSON encoder writes (four-digit year, UTC, any fraction) is shown as
  the same civil date and time, to the second.
\<close>

lemma formatAbsolute_rfc3339:
  assumes "civil_ok c" "0 \<le> c_year c" "c_year c \<le> 9999" "list_all is_digit f" "c_ms c = int (frac_ms f)"
  shows "formatAbsolute h (show_rfc3339 c f) =
    show_int (c_year c) @ L ''-'' @ pad2 (c_month c + 1) @ L ''-'' @ pad2 (nat (c_day c)) @ L '' '' @
    pad2 (nat (c_hour c)) @ L '':'' @ pad2 (nat (c_min c)) @ L '':'' @ pad2 (nat (c_sec c)) @ L '' UTC''"
proof -
  have "show_rfc3339 c f \<noteq> []" by (simp add: show_rfc3339_def)
  then show ?thesis
    using parse_show_rfc3339 [OF assms] utc_fields_time_of [OF assms(1)]
    by (simp add: formatAbsolute_def date_parse_def del: L.simps)
qed

text \<open>
  Escaping loses nothing and leaves nothing to interpret: the escaped text contains neither an
  opening angle bracket nor a double quote, and reading its character references back gives the original text.
\<close>

lemma app_esc_decodes:
  "decode (app_esc (Some s)) = s \<and>
   ch (CHR ''<'') \<notin> set (app_esc (Some s)) \<and> ch (CHR 0x22) \<notin> set (app_esc (Some s))"
  using app.decode_esc [of s] app.esc_clean [of "ch (CHR ''<'')" s] app.esc_clean [of "ch (CHR 0x22)" s] by blast

text \<open>The zero time is shown as a time in the year one, and the target as down.\<close>

lemma zero_time_shown_down:
  assumes "0 \<le> clock h"
  shows "healthLabel False go_zero_time = L ''Down'' \<and>
    relativeTime h go_zero_time = Some (show_int ((clock h + 62135596800000) div 86400000) @ L ''d ago'')"
proof (intro conjI)
  show "healthLabel False go_zero_time = L ''Down''" by (simp add: healthLabel_def go_zero_time_def)
  have "date_parse h go_zero_time = Some (- 62135596800000)"
    by (simp only: date_parse_def go_zero_time_def parse_zero_time option.case)
  moreover have "go_zero_time \<noteq> []" by (simp add: go_zero_time_def)
  ultimately show "relativeTime h go_zero_time = Some (show_int ((clock h + 62135596800000) div 86400000) @ L ''d ago'')"
    using relativeTime_eq [of go_zero_time h] assms by (simp add: Let_def)
qed

end
