(* ===== verification/AppView.thy ===== *)
theory AppView
  imports AppFormat
begin

text \<open>
  The HTML the inventory page builds for a snapshot (\<open>buildTargetRow\<close>,
  \<open>buildGroupCard\<close>, \<open>buildInventory\<close> of \<open>pkg/proxeusui/static/app.js\<close>), as strings,
  and the element trees those strings are meant to denote. The emission lemmas show
  that each string is the serialised form of its tree.
\<close>

section \<open>The string builders\<close>

definition target_healthCell :: "target \<Rightarrow> ustr" where
  "target_healthCell t =
     (let hClass = healthClass (t_healthy t) (t_lastProbeAt t);
          hLabel = healthLabel (t_healthy t) (t_lastProbeAt t)
      in L ''<span class=\"health\">'' @
         L ''<span class=\"health-dot health-dot--'' @ hClass @ L ''\"></span>'' @
         L ''<span class=\"health-text--'' @ hClass @ L ''\">'' @ app_esc (Some hLabel) @ L ''</span>'' @
         L ''</span>'')"

definition target_urlCell :: "target \<Rightarrow> ustr" where
  "target_urlCell t =
     L ''<a class=\"target-url\" href=\"'' @ app_esc (Some (t_url t)) @
     L ''\" target=\"_blank\" rel=\"noopener\">'' @ app_esc (Some (t_url t)) @ L ''</a>''"

definition target_backendCell :: "host \<Rightarrow> target \<Rightarrow> ustr" where
  "target_backendCell h t =
     (let versionStr = (if t_version t \<noteq> []
            then L '' <span class=\"version-str\">'' @ app_esc (Some (t_version t)) @ L ''</span>'' else [])
      in buildBadge h (t_backendType t) @ versionStr)"

definition target_probeCell :: "host \<Rightarrow> target \<Rightarrow> ustr" where
  "target_probeCell h t =
     (case relativeTime h (t_lastProbeAt t) of
        None \<Rightarrow> L ''<span class=\"ts-never\">Never</span>''
      | Some relTs \<Rightarrow>
          L ''<span class=\"ts-relative\" title=\"'' @ app_esc (Some (formatAbsolute h (t_lastProbeAt t))) @
          L ''\">'' @ app_esc (Some relTs) @ L ''</span>'')"

definition target_errorCell :: "target \<Rightarrow> ustr" where
  "target_errorCell t =
     (if \<not> t_healthy t \<and> t_lastError t \<noteq> [] then
        (let short = truncate (t_lastError t) 120
         in L ''<td><span class=\"target-error\" title=\"'' @ app_esc (Some (t_lastError t)) @ L ''\">'' @
            app_esc (Some short) @ L ''</span></td>'')
      else L ''<td></td>'')"

definition buildTargetRow :: "host \<Rightarrow> target \<Rightarrow> ustr" where
  "buildTargetRow h t =
     L ''<tr>'' @
     L ''<td>'' @ target_healthCell t @ L ''</td>'' @
     L ''<td>'' @ target_urlCell t @ L ''</td>'' @
     L ''<td>'' @ target_backendCell h t @ L ''</td>'' @
     L ''<td>'' @ target_probeCell h t @ L ''</td>'' @
     target_errorCell t @
     L ''</tr>''"

definition groupSummary :: "group \<Rightarrow> ustr" where
  "groupSummary g =
     (let targets = or_empty (g_targets g); upCount = length (filter t_healthy targets)
      in show_nat upCount @ L '' / '' @ show_nat (length targets) @ L '' up'')"

definition buildGroupCard :: "host \<Rightarrow> group \<Rightarrow> ustr" where
  "buildGroupCard h g =
     (let targets = or_empty (g_targets g) in
      L ''<div class=\"group-card\" data-group=\"'' @ app_esc (Some (g_name g)) @ L ''\">'' @
      L ''<div class=\"group-header\">'' @
      L ''<span class=\"group-header__ordinal\" title=\"server_group YAML index (ordinal '' @
        app_esc (Some (show_int (g_ordinal g))) @ L '')\">ord:'' @
        app_esc (Some (show_int (g_ordinal g))) @ L ''</span>'' @
      L ''<span class=\"group-header__name\">'' @ app_esc (Some (g_name g)) @ L ''</span>'' @
      L ''<span class=\"group-header__labels\">'' @ buildLabelChips (g_labels g) @ L ''</span>'' @
      L ''<span class=\"group-header__summary\">'' @ app_esc (Some (groupSummary g)) @ L ''</span>'' @
      L ''</div>'' @
      (if length targets = 0 then
         L ''<div class=\"empty-state\">No targets configured for this group.</div>''
       else
         L ''<table class=\"targets-table\">'' @
         L ''<thead><tr>'' @
         L ''<th>Health</th>'' @
         L ''<th>Endpoint</th>'' @
         L ''<th>Backend</th>'' @
         L ''<th>Last probed</th>'' @
         L ''<th>Last error</th>'' @
         L ''</tr></thead>'' @
         L ''<tbody>'' @
         join [] (map (buildTargetRow h) targets) @
         L ''</tbody>'' @
         L ''</table>'') @
      L ''</div>'')"

definition buildInventory :: "host \<Rightarrow> inventory \<Rightarrow> ustr" where
  "buildInventory h data =
     (let groups = or_empty (i_groups data) in
      if length groups = 0 then L ''<div class=\"empty-state\">No server groups configured.</div>''
      else join [] (map (buildGroupCard h) groups))"

section \<open>The trees they denote\<close>

definition health_tree :: "target \<Rightarrow> html" where
  "health_tree t =
     (let c = healthClass (t_healthy t) (t_lastProbeAt t) in
      el ''span'' [att ''class'' (L ''health'')]
        [el ''span'' [att ''class'' (L ''health-dot health-dot--'' @ c)] [],
         el ''span'' [att ''class'' (L ''health-text--'' @ c)]
           [Text (healthLabel (t_healthy t) (t_lastProbeAt t))]])"

definition url_tree :: "target \<Rightarrow> html" where
  "url_tree t =
     el ''a'' [att ''class'' (L ''target-url''), att ''href'' (t_url t), att ''target'' (L ''_blank''),
              att ''rel'' (L ''noopener'')] [Text (t_url t)]"

definition badge_tree :: "host \<Rightarrow> ustr \<Rightarrow> html" where
  "badge_tree h bt =
     (let type = to_lower h (or_else bt (L ''unknown'')) in
      el ''span'' [att ''class'' (L ''backend-badge backend-badge--'' @ type)]
        [Text (badgeLabel type (or_else bt (L ''unknown'')))])"

definition backend_trees :: "host \<Rightarrow> target \<Rightarrow> html list" where
  "backend_trees h t =
     badge_tree h (t_backendType t) #
     (if t_version t \<noteq> [] then [Text (L '' ''), el ''span'' [att ''class'' (L ''version-str'')] [Text (t_version t)]]
      else [])"

definition probe_tree :: "host \<Rightarrow> target \<Rightarrow> html" where
  "probe_tree h t =
     (case relativeTime h (t_lastProbeAt t) of
        None \<Rightarrow> el ''span'' [att ''class'' (L ''ts-never'')] [Text (L ''Never'')]
      | Some r \<Rightarrow> el ''span'' [att ''class'' (L ''ts-relative''), att ''title'' (formatAbsolute h (t_lastProbeAt t))] [Text r])"

definition error_tree :: "target \<Rightarrow> html" where
  "error_tree t =
     el ''td'' []
       (if \<not> t_healthy t \<and> t_lastError t \<noteq> []
        then [el ''span'' [att ''class'' (L ''target-error''), att ''title'' (t_lastError t)]
               [Text (truncate (t_lastError t) 120)]]
        else [])"

definition target_tree :: "host \<Rightarrow> target \<Rightarrow> html" where
  "target_tree h t =
     el ''tr'' [] [el ''td'' [] [health_tree t], el ''td'' [] [url_tree t], el ''td'' [] (backend_trees h t),
       el ''td'' [] [probe_tree h t], error_tree t]"

definition chip_tree :: "(ustr \<times> ustr) list \<Rightarrow> ustr \<Rightarrow> html" where
  "chip_tree ls k =
     el ''span'' [att ''class'' (L ''label-chip'')]
       [Text (k @ L ''='' @ (case map_of ls k of None \<Rightarrow> [] | Some v \<Rightarrow> v))]"

definition chip_trees :: "(ustr \<times> ustr) list option \<Rightarrow> html list" where
  "chip_trees labels = (case labels of None \<Rightarrow> [] | Some ls \<Rightarrow> map (chip_tree ls) (sort (map fst ls)))"

definition targets_tree :: "host \<Rightarrow> target list \<Rightarrow> html" where
  "targets_tree h ts =
     (if ts = [] then el ''div'' [att ''class'' (L ''empty-state'')] [Text (L ''No targets configured for this group.'')]
      else el ''table'' [att ''class'' (L ''targets-table'')]
        [el ''thead'' [] [el ''tr'' []
           [el ''th'' [] [Text (L ''Health'')], el ''th'' [] [Text (L ''Endpoint'')],
            el ''th'' [] [Text (L ''Backend'')], el ''th'' [] [Text (L ''Last probed'')],
            el ''th'' [] [Text (L ''Last error'')]]],
         el ''tbody'' [] (map (target_tree h) ts)])"

definition group_tree :: "host \<Rightarrow> group \<Rightarrow> html" where
  "group_tree h g =
     el ''div'' [att ''class'' (L ''group-card''), att ''data-group'' (g_name g)]
       [el ''div'' [att ''class'' (L ''group-header'')]
          [el ''span'' [att ''class'' (L ''group-header__ordinal''),
               att ''title'' (L ''server_group YAML index (ordinal '' @ show_int (g_ordinal g) @ L '')'')]
             [Text (L ''ord:'' @ show_int (g_ordinal g))],
           el ''span'' [att ''class'' (L ''group-header__name'')] [Text (g_name g)],
           el ''span'' [att ''class'' (L ''group-header__labels'')] (chip_trees (g_labels g)),
           el ''span'' [att ''class'' (L ''group-header__summary'')] [Text (groupSummary g)]],
        targets_tree h (or_empty (g_targets g))]"

definition inventory_trees :: "host \<Rightarrow> inventory \<Rightarrow> html list" where
  "inventory_trees h data =
     (let groups = or_empty (i_groups data) in
      if groups = [] then [el ''div'' [att ''class'' (L ''empty-state'')] [Text (L ''No server groups configured.'')]]
      else map (group_tree h) groups)"

section \<open>Each string is its tree, serialised\<close>

abbreviation app_ser :: "html list \<Rightarrow> ustr" where
  "app_ser \<equiv> ser (\<lambda>s. app_esc (Some s))"

lemma emit_health: "target_healthCell t = app_ser [health_tree t]"
  by (simp add: target_healthCell_def health_tree_def Let_def emit_simps esc_simps)

lemma emit_url: "target_urlCell t = app_ser [url_tree t]"
  by (simp add: target_urlCell_def url_tree_def emit_simps)

lemma emit_badge: "buildBadge h bt = app_ser [badge_tree h bt]"
  by (simp add: buildBadge_def badge_tree_def Let_def emit_simps)

lemma emit_backend: "target_backendCell h t = app_ser (backend_trees h t)"
  unfolding target_backendCell_def backend_trees_def
  by (subst ser_Cons) (simp add: emit_badge Let_def emit_simps)

lemma emit_probe: "target_probeCell h t = app_ser [probe_tree h t]"
  by (simp add: target_probeCell_def probe_tree_def emit_simps split: option.split)

lemma emit_error: "target_errorCell t = app_ser [error_tree t]"
  by (simp add: target_errorCell_def error_tree_def Let_def emit_simps)

lemma emit_target: "buildTargetRow h t = app_ser [target_tree h t]"
  by (simp add: buildTargetRow_def target_tree_def emit_health emit_url emit_backend emit_probe
      emit_error emit_simps)

lemma emit_chip:
  "L ''<span class=\"label-chip\">'' @ app_esc (Some k) @ L ''='' @ app_esc (map_of ls k) @ L ''</span>'' =
     app_ser [chip_tree ls k]"
  by (cases "map_of ls k") (simp_all add: chip_tree_def emit_simps)

lemma emit_chips: "buildLabelChips labels = app_ser (chip_trees labels)"
  unfolding buildLabelChips_def emit_chip
  by (simp add: chip_trees_def join_Nil_concat ser_map emit_simps split: option.split)

lemma emit_summary: "esc_html (groupSummary g) = groupSummary g"
  by (simp add: groupSummary_def Let_def)

lemma emit_targets: "map (buildTargetRow h) ts = map (\<lambda>t. app_ser [target_tree h t]) ts"
  by (intro map_cong refl emit_target)

lemma emit_group: "buildGroupCard h g = app_ser [group_tree h g]"
  by (simp add: buildGroupCard_def group_tree_def targets_tree_def Let_def emit_chips emit_targets emit_summary
      join_Nil_concat ser_map [of _ "target_tree h"] emit_simps)

lemma emit_groups: "map (buildGroupCard h) gs = map (\<lambda>g. app_ser [group_tree h g]) gs"
  by (intro map_cong refl emit_group)

lemma emit_inventory: "buildInventory h data = app_ser (inventory_trees h data)"
  by (simp add: buildInventory_def inventory_trees_def Let_def emit_groups join_Nil_concat
      ser_map [of _ "group_tree h"] emit_simps)

lemma inventory_trees_ok: "list_all tree_ok (inventory_trees h data)"
  by (auto simp: inventory_trees_def Let_def group_tree_def targets_tree_def chip_trees_def chip_tree_def
      target_tree_def health_tree_def url_tree_def backend_trees_def badge_tree_def probe_tree_def
      error_tree_def name_ok_L void_tags_def list_all_iff simp del: L.simps split: option.split)

section \<open>Properties\<close>

text \<open>
  C1: Whatever text a snapshot contains, a browser reads the markup built for it as exactly the intended
  elements, with that text as plain text and attribute values: no target, group, label, version
  or error text can open an element or end an attribute.
\<close>

theorem inventory_injection_free: "parse (buildInventory h data) = Some (tidy (inventory_trees h data))"
  by (simp only: emit_inventory app.parse_ser [OF inventory_trees_ok])

lemma add_text_first: "s \<noteq> [] \<Longrightarrow> add_text s [] = [Text s]"
  by (cases s) simp_all

text \<open>
  The last error of a target that is not healthy is shown in a cell whose title is the whole error and
  whose text is the error cut to 120 units and an ellipsis; a healthy target's cell is empty.
\<close>

lemma error_cell_shown:
  "parse (target_errorCell t) =
     Some [el ''td'' []
       (if t_healthy t \<or> t_lastError t = [] then []
        else [el ''span'' [att ''class'' (L ''target-error''), att ''title'' (t_lastError t)]
               [Text (if length (t_lastError t) \<le> 120 then t_lastError t else take 120 (t_lastError t) @ [0x2026])]])]"
proof -
  have ok: "list_all tree_ok [error_tree t]"
    by (auto simp: error_tree_def name_ok_L void_tags_def simp del: L.simps)
  show ?thesis
    unfolding emit_error app.parse_ser [OF ok]
    by (auto simp: error_tree_def tidy_def truncate_def or_else_def add_text_first simp del: L.simps)
qed

end
