(* ===== verification/Async.thy ===== *)
theory Async
  imports Prelude
begin

text \<open>
  Three interfaces the programs share. \<open>response_view\<close>: a page keeps a view that the
  responses to its requests overwrite when they bring data and leave alone when they
  fail; what is shown after any sequence of responses is then the data of the last
  successful one to arrive, which need not be the last one requested.
  \<open>observer_callback\<close>: a mutation observer's callback changes the page it observes and
  so triggers itself; it has to be settled after one run for that to come to rest.
  \<open>task_slots\<close>: concurrent tasks of the server store their results in places of their own.
\<close>

section \<open>Exceptions\<close>

text \<open>A thrown \<open>Error\<close>: its name and message, and the text it converts to.\<close>

record js_error =
  e_name :: ustr
  e_message :: ustr

definition err_string :: "js_error \<Rightarrow> ustr" where
  "err_string e = (if e_message e = [] then e_name e else e_name e @ L '': '' @ e_message e)"

section \<open>The last successful value of a sequence\<close>

fun last_some :: "'v option list \<Rightarrow> 'v option" where
  "last_some [] = None"
| "last_some (x # xs) = (case last_some xs of Some v \<Rightarrow> Some v | None \<Rightarrow> x)"

lemma last_some_snoc [simp]: "last_some (xs @ [x]) = (case x of Some v \<Rightarrow> Some v | None \<Rightarrow> last_some xs)"
  by (induction xs) (auto split: option.split)

lemma last_some_None: "last_some xs = None \<longleftrightarrow> set xs \<subseteq> {None}"
  by (induction xs) (auto split: option.splits)

lemma last_some_Some:
  "last_some xs = Some v \<longleftrightarrow> (\<exists>ys zs. xs = ys @ Some v # zs \<and> set zs \<subseteq> {None})"
proof (induction xs)
  case (Cons x xs)
  show ?case
  proof (cases "last_some xs")
    case None
    then have "set xs \<subseteq> {None}" by (simp add: last_some_None)
    with None show ?thesis by (force simp: Cons_eq_append_conv)
  next
    case (Some w)
    then have "\<not> set xs \<subseteq> {None}" using last_some_None [of xs] by simp
    with Some Cons show ?thesis by (auto simp: Cons_eq_append_conv)
  qed
qed simp

locale response_view =
  fixes settle :: "'r \<Rightarrow> 's \<Rightarrow> 's"
    and view :: "'s \<Rightarrow> 'v"
    and render :: "'r \<Rightarrow> 'v option"
    and present :: "'s \<Rightarrow> bool"
  assumes present_settle: "present s \<Longrightarrow> present (settle r s)"
    and view_settle: "present s \<Longrightarrow> view (settle r s) = (case render r of Some v \<Rightarrow> v | None \<Rightarrow> view s)"
begin

lemma present_run: "present s \<Longrightarrow> present (fold settle rs s)"
  by (induction rs arbitrary: s) (simp_all add: present_settle)

text \<open>The view after any sequence of responses is the last data to arrive.\<close>

lemma view_run:
  "present s \<Longrightarrow>
     view (fold settle rs s) = (case last_some (map render rs) of Some v \<Rightarrow> v | None \<Rightarrow> view s)"
proof (induction rs rule: rev_induct)
  case (snoc r rs)
  then show ?case by (simp add: view_settle present_run split: option.split)
qed simp

lemma view_all_failed:
  "present s \<Longrightarrow> (\<And>r. r \<in> set rs \<Longrightarrow> render r = None) \<Longrightarrow> view (fold settle rs s) = view s"
  using last_some_None [of "map render rs"] by (auto simp: view_run split: option.split)

lemma view_last_success:
  assumes "present s" "render r = Some v" "\<And>q. q \<in> set rs' \<Longrightarrow> render q = None"
  shows "view (fold settle (rs @ r # rs') s) = v"
proof -
  have "last_some (map render (rs @ r # rs')) = Some v"
    unfolding last_some_Some using assms(2,3) by force
  with assms(1) show ?thesis by (simp only: view_run) simp
qed

end

locale observer_callback =
  fixes run :: "'s \<Rightarrow> 's"
    and ok :: "'s \<Rightarrow> bool"
  assumes ok_run: "ok s \<Longrightarrow> ok (run s)"
    and settled: "ok s \<Longrightarrow> run (run s) = run s"
begin

lemma run_power: "ok s \<Longrightarrow> (run ^^ Suc n) s = run s"
  by (induction n) (simp_all add: settled)

lemma ok_power: "ok s \<Longrightarrow> ok ((run ^^ n) s)"
  by (induction n) (simp_all add: ok_run)

text \<open>Notifying the callback until the page stops changing takes at most two runs.\<close>

lemma quiesces: "ok s \<Longrightarrow> \<exists>n \<le> 1. (run ^^ Suc n) s = (run ^^ n) s"
  using settled [of s] by (intro exI [of _ 1]) simp

end

text \<open>
  \<open>task_slots\<close>: concurrent tasks each store a result in a place of their own. Where two
  results for one place agree, what is stored in the end does not depend on the order.
\<close>

locale task_slots =
  fixes put :: "'k \<Rightarrow> 'v \<Rightarrow> 's \<Rightarrow> 's"
    and get :: "'s \<Rightarrow> 'k \<Rightarrow> 'v option"
    and room :: "'s \<Rightarrow> 'k \<Rightarrow> bool"
  assumes get_put: "room s k \<Longrightarrow> get (put k v s) k' = (if k' = k then Some v else get s k')"
    and room_put: "room s k' \<Longrightarrow> room (put k v s) k'"
begin

lemma get_run:
  assumes "\<And>k. k \<in> set ks \<Longrightarrow> room s k"
  shows "get (fold (\<lambda>k. put k (f k)) ks s) k' = (if k' \<in> set ks then Some (f k') else get s k')"
  using assms
proof (induction ks arbitrary: s)
  case (Cons k ks)
  have "room (put k (f k) s) a" if "a \<in> set ks" for a using Cons.prems [of a] that by (auto intro: room_put)
  from Cons.IH [OF this] show ?case using Cons.prems [of k] by (simp add: get_put)
qed simp

end

end
