(* ===== verification/AppPoll.thy ===== *)
theory AppPoll
  imports AppView Async
begin

text \<open>
  The polling cycle of the inventory page (\<open>fetchAndRender\<close> and the bootstrap of
  \<open>pkg/proxeusui/static/app.js\<close>): the page's elements, the requests under way, and a
  step for every callback the browser may run next. A request passes through two
  stages: its response settles (the \<open>then\<close> or \<open>catch\<close> callback), later its
  \<open>finally\<close> callback runs; the callbacks of different requests interleave freely.
\<close>

section \<open>The page\<close>

text \<open>
  Each element is absent (\<open>None\<close>) or present: the refresh dot with whether it is
  marked active, the error banner with its text and whether it is visible, the
  timestamp line with its text and title, and the groups container with its children.
\<close>

record app_dom =
  elRefreshDot :: "bool option"
  elErrorBanner :: "(ustr \<times> bool) option"
  elGeneratedAt :: "(ustr \<times> ustr) option"
  elGroupsContainer :: "html list option"

text \<open>
  Assigning \<open>innerHTML\<close>. The last branch is never taken here: every string the page
  assigns is read (\<open>inventory_read\<close> below).
\<close>

definition inner_html :: "ustr \<Rightarrow> html list" where
  "inner_html s = (case parse s of Some f \<Rightarrow> f | None \<Rightarrow> [])"

definition setGeneratedAt :: "host \<Rightarrow> ustr \<Rightarrow> app_dom \<Rightarrow> app_dom" where
  "setGeneratedAt h isoString d =
     (case elGeneratedAt d of None \<Rightarrow> d
      | Some _ \<Rightarrow> d\<lparr>elGeneratedAt := Some (L ''Last refreshed: '' @ formatAbsolute h isoString, or_else isoString [])\<rparr>)"

definition setRefreshing :: "bool \<Rightarrow> app_dom \<Rightarrow> app_dom" where
  "setRefreshing active d =
     (case elRefreshDot d of None \<Rightarrow> d | Some _ \<Rightarrow> d\<lparr>elRefreshDot := Some active\<rparr>)"

definition showError :: "ustr \<Rightarrow> app_dom \<Rightarrow> app_dom" where
  "showError msg d =
     (case elErrorBanner d of None \<Rightarrow> d | Some _ \<Rightarrow> d\<lparr>elErrorBanner := Some (msg, True)\<rparr>)"

definition clearError :: "app_dom \<Rightarrow> app_dom" where
  "clearError d =
     (case elErrorBanner d of None \<Rightarrow> d | Some _ \<Rightarrow> d\<lparr>elErrorBanner := Some ([], False)\<rparr>)"

section \<open>Responses\<close>

text \<open>The address polled.\<close>

definition BACKENDS_URL :: ustr where
  "BACKENDS_URL = L ''/proxeus/api/backends.json''"

text \<open>
  A fetch is rejected with a message, or answers with a status, a status text and a
  body that is or is not a JSON snapshot (\<open>Inl\<close> carries the exception's message).
\<close>

datatype app_response = Rejected ustr | Response nat ustr "ustr + inventory"

fun app_result :: "app_response \<Rightarrow> ustr + inventory" where
  "app_result (Rejected m) = Inl m"
| "app_result (Response status statusText body) =
     (if \<not> (200 \<le> status \<and> status \<le> 299)
      then Inl (L ''HTTP '' @ show_nat status @ L '' '' @ statusText) else body)"

definition app_then :: "host \<Rightarrow> inventory \<Rightarrow> app_dom \<Rightarrow> app_dom" where
  "app_then h data d =
     (let d = clearError d;
          d = (case elGroupsContainer d of None \<Rightarrow> d
               | Some _ \<Rightarrow> d\<lparr>elGroupsContainer := Some (inner_html (buildInventory h data))\<rparr>)
      in setGeneratedAt h (i_generatedAt data) d)"

definition app_catch :: "host \<Rightarrow> ustr \<Rightarrow> app_dom \<Rightarrow> app_dom" where
  "app_catch h message d =
     (let now = local_ms h (clock h);
          hh = pad2 (nat (utc_hours now)); mm = pad2 (nat (utc_minutes now)); ss = pad2 (nat (utc_seconds now))
      in showError (L ''Last refresh failed at '' @ hh @ L '':'' @ mm @ L '':'' @ ss @ L '' '' @ [0x2014] @
           L '' retrying'' @ [0x2026] @ L '' ('' @ message @ L '')'') d)"

definition app_settle :: "host \<Rightarrow> app_response \<Rightarrow> app_dom \<Rightarrow> app_dom" where
  "app_settle h r d = (case app_result r of Inl m \<Rightarrow> app_catch h m d | Inr data \<Rightarrow> app_then h data d)"

section \<open>Keeping relative times fresh\<close>

fun refresh_cell :: "host \<Rightarrow> html \<Rightarrow> html" where
  "refresh_cell h (Text s) = Text s"
| "refresh_cell h (Void t as) = Void t as"
| "refresh_cell h (Elem t as cs) =
     (if has_class (L ''ts-relative'') as then
        (case attr_get (L ''title'') as of
           None \<Rightarrow> Elem t as (map (refresh_cell h) cs)
         | Some isoStr \<Rightarrow>
             (if isoStr = [] then Elem t as (map (refresh_cell h) cs)
              else (case relativeTime h isoStr of
                      None \<Rightarrow> Elem t as (map (refresh_cell h) cs)
                    | Some rel \<Rightarrow> Elem t as [Text rel])))
      else Elem t as (map (refresh_cell h) cs))"

definition refresh_times :: "host \<Rightarrow> app_dom \<Rightarrow> app_dom" where
  "refresh_times h d = d\<lparr>elGroupsContainer := map_option (map (refresh_cell h)) (elGroupsContainer d)\<rparr>"

section \<open>The cycle as a step relation\<close>

record app_state =
  page :: app_dom
  inflight :: "nat list"
  finishing :: "nat list"
  issued :: nat

definition fetchAndRender :: "app_state \<Rightarrow> app_state" where
  "fetchAndRender s =
     s\<lparr>page := setRefreshing True (page s), inflight := inflight s @ [issued s], issued := Suc (issued s)\<rparr>"

definition app_respond :: "host \<Rightarrow> nat \<Rightarrow> app_response \<Rightarrow> app_state \<Rightarrow> app_state" where
  "app_respond h i r s =
     s\<lparr>page := app_settle h r (page s), inflight := remove1 i (inflight s), finishing := finishing s @ [i]\<rparr>"

definition app_finally :: "nat \<Rightarrow> app_state \<Rightarrow> app_state" where
  "app_finally i s = s\<lparr>page := setRefreshing False (page s), finishing := remove1 i (finishing s)\<rparr>"

text \<open>
  The page as the server rendered it (the text of \<open>js-generated-at\<close> and the content of
  \<open>js-groups-container\<close>) when \<open>DOMContentLoaded\<close> fires, then the first poll.
\<close>

definition app_boot :: "ustr \<times> html list \<Rightarrow> app_state" where
  "app_boot served =
     fetchAndRender
       \<lparr>page = \<lparr>elRefreshDot = Some False, elErrorBanner = Some ([], False),
               elGeneratedAt = Some (fst served, []), elGroupsContainer = Some (snd served)\<rparr>,
        inflight = [], finishing = [], issued = 0\<rparr>"

inductive app_step :: "app_state \<Rightarrow> app_state \<Rightarrow> bool" where
  poll: "app_step s (fetchAndRender s)"
| respond: "i \<in> set (inflight s) \<Longrightarrow> app_step s (app_respond h i r s)"
| finalize: "i \<in> set (finishing s) \<Longrightarrow> app_step s (app_finally i s)"
| tick: "app_step s (s\<lparr>page := refresh_times h (page s)\<rparr>)"

inductive app_reach :: "ustr \<times> html list \<Rightarrow> app_state \<Rightarrow> bool" for served where
  boot: "app_reach served (app_boot served)"
| step: "app_reach served s \<Longrightarrow> app_step s t \<Longrightarrow> app_reach served t"

section \<open>Invariants\<close>

text \<open>
  The banner is visible exactly while it has a text; the dot is only active while some
  request has not run its \<open>finally\<close>; request numbers are distinct and issued.
\<close>

definition app_inv :: "app_state \<Rightarrow> bool" where
  "app_inv s \<longleftrightarrow>
     (\<forall>t v. elErrorBanner (page s) = Some (t, v) \<longrightarrow> (v \<longleftrightarrow> t \<noteq> [])) \<and>
     (elRefreshDot (page s) = Some True \<longrightarrow> inflight s \<noteq> [] \<or> finishing s \<noteq> []) \<and>
     distinct (inflight s @ finishing s) \<and> (\<forall>i \<in> set (inflight s @ finishing s). i < issued s) \<and>
     elRefreshDot (page s) \<noteq> None \<and> elErrorBanner (page s) \<noteq> None \<and> elGroupsContainer (page s) \<noteq> None"

lemmas dom_ops = setGeneratedAt_def setRefreshing_def showError_def clearError_def app_then_def
  app_catch_def app_settle_def refresh_times_def

lemma app_settle_frame [simp]:
  "elRefreshDot (app_settle h r d) = elRefreshDot d"
  "elErrorBanner (app_settle h r d) = None \<longleftrightarrow> elErrorBanner d = None"
  "elGroupsContainer (app_settle h r d) = None \<longleftrightarrow> elGroupsContainer d = None"
  by (auto simp: dom_ops Let_def split: option.split sum.split)

lemma app_settle_banner:
  "elErrorBanner (app_settle h r d) = Some (t, v) \<Longrightarrow> v \<longleftrightarrow> t \<noteq> []"
  by (auto simp: dom_ops Let_def split: option.splits sum.splits)

lemma setRefreshing_frame [simp]:
  "elErrorBanner (setRefreshing b d) = elErrorBanner d"
  "elGroupsContainer (setRefreshing b d) = elGroupsContainer d"
  "elRefreshDot (setRefreshing b d) = map_option (\<lambda>_. b) (elRefreshDot d)"
  by (auto simp: setRefreshing_def split: option.split)

lemma refresh_times_frame [simp]:
  "elErrorBanner (refresh_times h d) = elErrorBanner d"
  "elRefreshDot (refresh_times h d) = elRefreshDot d"
  "elGroupsContainer (refresh_times h d) = None \<longleftrightarrow> elGroupsContainer d = None"
  by (simp_all add: refresh_times_def)

lemma app_inv_boot: "app_inv (app_boot served)"
  by (simp add: app_inv_def app_boot_def fetchAndRender_def)

lemma app_inv_step: "app_step s t \<Longrightarrow> app_inv s \<Longrightarrow> app_inv t"
proof (induction rule: app_step.induct)
  case (poll s)
  then show ?case by (fastforce simp: app_inv_def fetchAndRender_def less_Suc_eq)
next
  case (respond i s h r)
  then show ?case
    by (auto simp: app_inv_def app_respond_def dest: app_settle_banner notin_set_remove1
        dest!: in_set_remove1 [THEN iffD1, rotated])
next
  case (finalize i s)
  then show ?case by (auto simp: app_inv_def app_finally_def dest: notin_set_remove1)
next
  case (tick s h)
  then show ?case by (auto simp: app_inv_def)
qed

lemma app_reach_inv: "app_reach served s \<Longrightarrow> app_inv s"
  by (induction rule: app_reach.induct) (auto intro: app_inv_boot app_inv_step)

section \<open>What is shown after a sequence of responses\<close>

lemma inventory_read: "inner_html (buildInventory h data) = tidy (inventory_trees h data)"
  by (simp only: inner_html_def emit_inventory app.parse_ser [OF inventory_trees_ok] option.case)

definition app_rendered :: "host \<times> app_response \<Rightarrow> html list option option" where
  "app_rendered hr =
     (case app_result (snd hr) of Inl _ \<Rightarrow> None
      | Inr data \<Rightarrow> Some (Some (tidy (inventory_trees (fst hr) data))))"

interpretation app_view: response_view "\<lambda>(h, r). app_settle h r" elGroupsContainer app_rendered
  "\<lambda>d. elGroupsContainer d \<noteq> None"
proof unfold_locales
  fix d :: app_dom and hr :: "host \<times> app_response"
  assume p: "elGroupsContainer d \<noteq> None"
  show "elGroupsContainer ((case hr of (h, r) \<Rightarrow> app_settle h r) d) \<noteq> None"
    using p by (cases hr) simp
  show "elGroupsContainer ((case hr of (h, r) \<Rightarrow> app_settle h r) d) =
      (case app_rendered hr of Some v \<Rightarrow> v | None \<Rightarrow> elGroupsContainer d)"
    using p by (cases hr) (auto simp: app_rendered_def dom_ops Let_def inventory_read
        split: option.splits sum.splits)
qed

section \<open>Properties\<close>

text \<open>
  C36: In every reachable state of the polling cycle, whatever the interleaving of polls, responses, finally
  callbacks and ticks: the error banner is visible exactly when it has a text, the refresh dot
  is only active while some request is unfinished, and no two unfinished requests share a number.
\<close>

theorem app_page_invariant:
  assumes "app_reach served s"
  shows "(\<exists>t v. elErrorBanner (page s) = Some (t, v) \<and> (v \<longleftrightarrow> t \<noteq> [])) \<and>
    (elRefreshDot (page s) = Some True \<longrightarrow> inflight s \<noteq> [] \<or> finishing s \<noteq> []) \<and>
    distinct (inflight s @ finishing s)"
proof -
  obtain t v where "elErrorBanner (page s) = Some (t, v)"
    using app_reach_inv [OF assms] by (auto simp: app_inv_def)
  with app_reach_inv [OF assms] show ?thesis by (simp add: app_inv_def)
qed

theorem app_page_invariant_witness:
  "app_reach ([], []) (app_respond (plain_host 0) 0 (Rejected (L ''offline'')) (app_boot ([], []))) \<and>
   (\<exists>t v. elErrorBanner (page (app_respond (plain_host 0) 0 (Rejected (L ''offline'')) (app_boot ([], [])))) = Some (t, v) \<and>
      (v \<longleftrightarrow> t \<noteq> []))"
proof -
  have "0 \<in> set (inflight (app_boot ([], [])))" by (simp add: app_boot_def fetchAndRender_def)
  then have "app_reach ([], []) (app_respond (plain_host 0) 0 (Rejected (L ''offline'')) (app_boot ([], [])))"
    by (intro app_reach.step [OF app_reach.boot] respond)
  with app_page_invariant show ?thesis by blast
qed

text \<open>
  After any sequence of responses, the groups shown are those of the last response that brought a
  snapshot to arrive; failed responses after it leave them in place.
\<close>

lemma app_last_snapshot_shown:
  assumes "elGroupsContainer d \<noteq> None" "app_result r = Inr data" "\<forall>(h', r') \<in> set later. \<exists>m. app_result r' = Inl m"
  shows "elGroupsContainer (fold (\<lambda>(h, r). app_settle h r) (earlier @ (h, r) # later) d) =
    Some (tidy (inventory_trees h data))"
  by (rule app_view.view_last_success) (use assms in \<open>fastforce simp: app_rendered_def\<close>)+

text \<open>
  The refresh dot can be off while a request is still under way: two polls overlap, the first one ends
  and its finally callback turns the dot off although the second has not been answered.
\<close>

lemma dot_off_while_loading:
  "\<exists>s. app_reach ([], []) s \<and> inflight s \<noteq> [] \<and> elRefreshDot (page s) = Some False"
proof -
  define s1 where "s1 = fetchAndRender (app_boot ([], []))"
  define s2 where "s2 = app_respond (plain_host 0) 0 (Rejected []) s1"
  have r1: "app_reach ([], []) s1" unfolding s1_def by (intro app_reach.step [OF app_reach.boot] poll)
  have r2: "app_reach ([], []) s2"
    unfolding s2_def by (rule app_reach.step [OF r1 respond]) (simp add: s1_def app_boot_def fetchAndRender_def)
  have "app_reach ([], []) (app_finally 0 s2)"
    by (rule app_reach.step [OF r2 finalize]) (simp add: s2_def app_respond_def)
  moreover have "inflight (app_finally 0 s2) \<noteq> [] \<and> elRefreshDot (page (app_finally 0 s2)) = Some False"
    by (simp add: s2_def s1_def app_respond_def app_finally_def app_boot_def fetchAndRender_def)
  ultimately show ?thesis by blast
qed

lemma refresh_cell_twice: "refresh_cell h (refresh_cell h x) = refresh_cell h x"
  by (induction x rule: refresh_cell.induct) (auto split: option.split)

lemma refresh_times_settles: "refresh_times h (refresh_times h d) = refresh_times h d"
  by (simp add: refresh_times_def option.map_comp o_def refresh_cell_twice cong: option.map_cong)

lemma relativeTime_shift:
  assumes "s \<noteq> []" "date_parse h s = Some p" "s' \<noteq> []" "parse_iso s' = Some (p + m)"
  shows "relativeTime h s = relativeTime (h\<lparr>clock := clock h + m\<rparr>) s'"
proof -
  have "date_parse (h\<lparr>clock := clock h + m\<rparr>) s' = Some (p + m)" using assms(4) by (simp add: date_parse_def)
  from relativeTime_eq [OF assms(3) this] relativeTime_eq [OF assms(1,2)] show ?thesis by (simp add: algebra_simps)
qed

lemma parse_iso_Nil: "parse_iso [] = None"
  by (simp add: parse_iso_def take_digits_def)

text \<open>
  The tick turns the cell of a probed target into the relative time the target has less than a second
  later, provided the browser reads the absolute time in the cell's title as the second it shows.
\<close>

lemma refresh_probe_cell:
  assumes "parse_iso (t_lastProbeAt t) = Some p"
    and "date_parse h (formatAbsolute h0 (t_lastProbeAt t)) = Some (p - p mod 1000)"
  shows "refresh_cell h (probe_tree h0 t) =
    el ''span'' [att ''class'' (L ''ts-relative''), att ''title'' (formatAbsolute h0 (t_lastProbeAt t))]
      [Text (the (relativeTime (h\<lparr>clock := clock h + p mod 1000\<rparr>) (t_lastProbeAt t)))]"
proof -
  have ne: "t_lastProbeAt t \<noteq> []" using assms(1) parse_iso_Nil by auto
  have d: "date_parse k (t_lastProbeAt t) = Some p" for k using assms(1) by (simp add: date_parse_def)
  then have abs: "formatAbsolute h0 (t_lastProbeAt t) \<noteq> []" using ne by (simp add: formatAbsolute_def)
  obtain rel where rel: "relativeTime h0 (t_lastProbeAt t) = Some rel"
    using relativeTime_eq [OF ne d] by auto
  have same: "relativeTime h (formatAbsolute h0 (t_lastProbeAt t)) =
      relativeTime (h\<lparr>clock := clock h + p mod 1000\<rparr>) (t_lastProbeAt t)"
    using relativeTime_shift [OF abs assms(2) ne, of "p mod 1000"] assms(1) by simp
  have "relativeTime h (formatAbsolute h0 (t_lastProbeAt t)) \<noteq> None" using relativeTime_eq [OF abs assms(2)] by simp
  moreover have "has_class (L ''ts-relative'') [att ''class'' (L ''ts-relative''), att ''title'' v]" for v
    by (simp add: has_class_def html_space_def ch_def)
  ultimately show ?thesis using rel same abs by (auto simp: probe_tree_def simp del: L.simps)
qed

end
