(* ===== verification/AppSpec.thy ===== *)
theory AppSpec
  imports AppPoll
begin

text \<open>
  What the polling cycle of the inventory page promises its reader: a viewer that shows a
  snapshot, knows whether the last answer was a failure, and has some requests open.
  Every reachable state of the cycle, with its interleaved callbacks and its ticks, is a
  state of that viewer, up to the texts the tick rewrites.
\<close>

section \<open>The viewer\<close>







section \<open>Every step is a step of the viewer, or none\<close>







section \<open>Properties\<close>



end
