(* ===== verification/HeadNav.thy ===== *)
theory HeadNav
  imports Prelude
begin

text \<open>
  The head script of the Mantine shell (\<open>cmd/proxeus/ui/head.js\<close>): it recognises
  proxeus's own pages by the path, holds back the router's history calls until the page
  has rendered, and sends the requests the router aims below the page back to the real
  route prefix.
\<close>

section \<open>Recognising a page\<close>

definition PAGES :: "ustr list" where
  "PAGES = [L ''/backends'', L ''/cardinality'']"

text \<open>\<open>path.replace(/\/$/, '')\<close>: one trailing slash goes.\<close>

definition strip_slash :: "ustr \<Rightarrow> ustr" where
  "strip_slash p = (if p \<noteq> [] \<and> last p = ch (CHR ''/'') then butlast p else p)"

definition head_page :: "ustr \<Rightarrow> ustr \<Rightarrow> ustr option" where
  "head_page PREFIX pathname =
     (let path = strip_slash pathname
      in fold (\<lambda>p bp. if path = PREFIX @ p then Some (PREFIX @ p) else bp) PAGES None)"

section \<open>The window\<close>

text \<open>
  The globals the scripts share, the current path, the paths of the history entries,
  and whether head.js has wrapped the history methods and \<open>fetch\<close>.
\<close>

record window =
  w_prefix :: ustr
  w_pathname :: ustr
  w_page :: "ustr option"
  w_navReady :: bool
  w_wrapped :: bool
  w_entries :: "ustr list"

definition head_init :: "window \<Rightarrow> window" where
  "head_init w =
     (case head_page (w_prefix w) (w_pathname w) of None \<Rightarrow> w
      | Some bp \<Rightarrow> w\<lparr>w_page := Some bp, w_wrapped := True\<rparr>)"

definition pushState :: "ustr \<Rightarrow> window \<Rightarrow> window" where
  "pushState u w =
     (if w_wrapped w \<and> \<not> w_navReady w then w else w\<lparr>w_entries := w_entries w @ [u], w_pathname := u\<rparr>)"

definition replaceState :: "ustr \<Rightarrow> window \<Rightarrow> window" where
  "replaceState u w =
     (if w_wrapped w \<and> \<not> w_navReady w then w
      else w\<lparr>w_entries := butlast (w_entries w) @ [u], w_pathname := u\<rparr>)"

text \<open>The first argument of \<open>fetch\<close>: a string, or a URL or Request object.\<close>

datatype 'o fetch_input = Str ustr | Obj 'o

fun head_rewrite :: "ustr \<Rightarrow> ustr \<Rightarrow> 'o fetch_input \<Rightarrow> 'o fetch_input" where
  "head_rewrite PREFIX bp (Str input) =
     (if has_prefix (bp @ L ''/'') input then Str (PREFIX @ drop (length bp) input) else Str input)"
| "head_rewrite PREFIX bp (Obj r) = Obj r"

definition head_fetch :: "window \<Rightarrow> 'o fetch_input \<Rightarrow> 'o fetch_input" where
  "head_fetch w input =
     (if w_wrapped w then (case w_page w of None \<Rightarrow> input | Some bp \<Rightarrow> head_rewrite (w_prefix w) bp input)
      else input)"

section \<open>Facts\<close>

lemma strip_slash_page [simp]:
  "strip_slash (P @ L ''/backends'') = P @ L ''/backends''"
  "strip_slash (P @ L ''/cardinality'') = P @ L ''/cardinality''"
  "strip_slash (P @ L ''/backends/'') = P @ L ''/backends''"
  "strip_slash (P @ L ''/cardinality/'') = P @ L ''/cardinality''"
  by (simp_all add: strip_slash_def butlast_append)

lemma strip_slash_cases: "strip_slash p = q \<Longrightarrow> p = q \<or> p = q @ L ''/''"
proof -
  assume q: "strip_slash p = q"
  show ?thesis
  proof (cases "p \<noteq> [] \<and> last p = ch (CHR ''/'')")
    case True
    with q append_butlast_last_id [of p] show ?thesis by (simp add: strip_slash_def)
  qed (use q in \<open>auto simp: strip_slash_def\<close>)
qed

lemma head_page_Some:
  "head_page P path = Some bp \<longleftrightarrow> bp \<in> {P @ L ''/backends'', P @ L ''/cardinality''} \<and> strip_slash path = bp"
  by (auto simp: head_page_def PAGES_def Let_def split: if_splits)

lemma head_page_None:
  "head_page P path = None \<longleftrightarrow> strip_slash path \<notin> {P @ L ''/backends'', P @ L ''/cardinality''}"
  by (auto simp: head_page_def PAGES_def Let_def split: if_splits)

lemma head_rewrite_below: "head_rewrite P bp (Str (bp @ L ''/'' @ r)) = Str (P @ L ''/'' @ r)"
proof -
  have "has_prefix (bp @ L ''/'') (bp @ L ''/'' @ r)"
    using has_prefix_append [of "bp @ L ''/''" r] by simp
  then show ?thesis by simp
qed

lemma head_rewrite_other: "\<not> has_prefix (bp @ L ''/'') s \<Longrightarrow> head_rewrite P bp (Str s) = Str s"
  by simp

section \<open>Properties\<close>

text \<open>
  C20: On a proxeus page, with or without a trailing slash, every call the router makes to the history
  methods before the page has rendered is without effect, in whatever order and number; once the
  page has set its flag, a call goes through. On any other page the script changes nothing.
\<close>

theorem head_holds_navigation:
  assumes "\<not> w_navReady w"
  shows "if strip_slash (w_pathname w) \<in> {w_prefix w @ L ''/backends'', w_prefix w @ L ''/cardinality''}
    then fold (\<lambda>(replace, u). if replace then replaceState u else pushState u) calls (head_init w) = head_init w \<and>
      w_entries (pushState u ((head_init w)\<lparr>w_navReady := True\<rparr>)) = w_entries w @ [u]
    else head_init w = w"
proof (cases "head_page (w_prefix w) (w_pathname w)")
  case None
  with head_page_None [of "w_prefix w" "w_pathname w"] show ?thesis by (simp add: head_init_def del: L.simps)
next
  case (Some bp)
  let ?w = "head_init w"
  have w: "w_wrapped ?w" "\<not> w_navReady ?w" "w_entries ?w = w_entries w" using Some assms by (simp_all add: head_init_def)
  have "fold (\<lambda>(replace, u). if replace then replaceState u else pushState u) calls ?w = ?w" for calls
    by (induction calls) (use w in \<open>auto simp: pushState_def replaceState_def\<close>)
  with w Some show ?thesis unfolding head_page_Some by (auto simp: pushState_def)
qed

theorem head_holds_navigation_witness:
  "fold (\<lambda>(replace, u). if replace then replaceState u else pushState u) [(False, L ''/query''), (True, L ''/backends/query'')]
     (head_init \<lparr>w_prefix = [], w_pathname = L ''/backends/'', w_page = None, w_navReady = False, w_wrapped = False, w_entries = []\<rparr>) =
   head_init \<lparr>w_prefix = [], w_pathname = L ''/backends/'', w_page = None, w_navReady = False, w_wrapped = False, w_entries = []\<rparr>"
  using head_holds_navigation [of "\<lparr>w_prefix = [], w_pathname = L ''/backends/'', w_page = None, w_navReady = False,
      w_wrapped = False, w_entries = []\<rparr>" "[(False, L ''/query''), (True, L ''/backends/query'')]"]
    strip_slash_page [of "[]"]
  by (simp add: strip_slash_def)

text \<open>
  On a proxeus page a request the router aims below the page goes to the same path below the real
  route prefix; every other address, and every request object, is passed on as it is.
\<close>

lemma head_fetch_restores:
  assumes "head_page (w_prefix w) (w_pathname w) = Some bp"
  shows "head_fetch (head_init w) (Str (bp @ L ''/'' @ r) :: 'o fetch_input) = Str (w_prefix w @ L ''/'' @ r) \<and>
    (\<not> has_prefix (bp @ L ''/'') s \<longrightarrow> head_fetch (head_init w) (Str s :: 'o fetch_input) = Str s) \<and>
    head_fetch (head_init w) (Obj (x :: 'o)) = Obj x"
proof -
  have f: "head_fetch (head_init w) i = head_rewrite (w_prefix w) bp i" for i :: "'o fetch_input"
    using assms by (simp add: head_init_def head_fetch_def)
  show ?thesis
    by (intro conjI impI) (simp_all only: f head_rewrite_below head_rewrite_other head_rewrite.simps(2) simp_thms)
qed

end
