(* ===== verification/NavHeader.thy ===== *)
theory NavHeader
  imports HeadNav Async
begin

text \<open>
  The header and menu customisation of \<open>cmd/proxeus/ui/nav.js\<close>: hiding links and
  menu items, repairing the hrefs React Router resolves against a proxeus page, and
  adding the two page links to the status menu. Elements are records of what the script
  reads and writes; a menu is the list of its child elements in document order, as
  Mantine renders it (items, labels and dividers are siblings).
\<close>

section \<open>Elements\<close>

text \<open>
  An anchor: its text content, the path of its resolved URL, the last href assigned by
  the script, whether \<open>display: none\<close> is set, the \<open>data-proxeus-fixed\<close> mark, and how
  many capture listeners the script attached.
\<close>

record anchor =
  a_text :: ustr
  a_pathname :: ustr
  a_href :: ustr
  a_hidden :: bool
  a_fixed :: bool
  a_listeners :: nat

text \<open>A link of the header or the side navigation, and whether it is inside the header.\<close>

record nav_link =
  l_in_header :: bool
  l_anchor :: anchor

record header =
  h_img :: "ustr option"
  h_texts :: "ustr list"

record nav_page =
  n_header :: "header option"
  n_links :: "nav_link list"
  n_headerDone :: bool

text \<open>
  A child of a menu: which of the selectors \<open>[data-menu-item]\<close>, \<open>.mantine-Menu-label\<close>
  and \<open>.mantine-Menu-divider\<close> it matches, whether it is an \<open>a\<close> element, its text nodes in order, those in the
  \<open>span\<close> that \<open>menuItem\<close> finds taken as one, with the place of that one, if there is such a \<open>span\<close>,
  the \<open>data-proxeus-*\<close> attributes it carries, and its anchor data, whose own text is not read here.
\<close>

record menu_node =
  m_item :: bool
  m_label :: bool
  m_divider :: bool
  m_is_a :: bool
  m_texts :: "ustr list"
  m_span :: "nat option"
  m_marks :: "ustr list"
  m_el :: anchor

record menu =
  mn_processed :: bool
  mn_nodes :: "menu_node list"

section \<open>What is hidden\<close>

definition HIDE_DROPDOWN_LABELS :: "(ustr \<times> ustr) list" where
  "HIDE_DROPDOWN_LABELS =
     map (\<lambda>n. (L n, L ''true''))
       [''Target health'', ''Rule health'', ''Service discovery'', ''TSDB status'', ''Alertmanager discovery'']"

definition HIDE_NAV_TEXTS :: "(ustr \<times> ustr) list" where
  "HIDE_NAV_TEXTS =
     map (\<lambda>n. (L n, L ''true''))
       [''Alerts'', ''Targets'', ''Rules'', ''Service discovery'', ''TSDB status'', ''Alertmanager discovery'']"

text \<open>\<open>if (TABLE[text])\<close>: own and inherited properties are all truthy here.\<close>

definition hide_lookup :: "(ustr \<times> ustr) list \<Rightarrow> ustr \<Rightarrow> bool" where
  "hide_lookup table text \<longleftrightarrow> obj_get table text \<noteq> None"

section \<open>Hrefs\<close>

definition fixPageHref :: "ustr \<Rightarrow> ustr \<Rightarrow> anchor \<Rightarrow> anchor" where
  "fixPageHref PREFIX PAGE_PATH a =
     (let pathname = a_pathname a; prefix = PAGE_PATH @ L ''/'' in
      if pathname \<noteq> [] \<and> has_prefix prefix pathname then
        (let corrected = PREFIX @ L ''/'' @ drop (length prefix) pathname;
             a = a\<lparr>a_href := corrected, a_pathname := corrected\<rparr>
         in if \<not> a_fixed a then a\<lparr>a_fixed := True, a_listeners := Suc (a_listeners a)\<rparr> else a)
      else a)"

definition fix_if_page :: "window \<Rightarrow> anchor \<Rightarrow> anchor" where
  "fix_if_page w a = (case w_page w of None \<Rightarrow> a | Some pg \<Rightarrow> fixPageHref (w_prefix w) pg a)"

section \<open>The header, once\<close>

definition rename_text :: "ustr \<Rightarrow> ustr" where
  "rename_text s =
     (if contains_sub (L ''Prometheus'') s then replace_sub (L ''Prometheus'') (L ''Proxeus'') s else s)"

definition hide_link :: "anchor \<Rightarrow> anchor" where
  "hide_link a = (if hide_lookup HIDE_NAV_TEXTS (trim (a_text a)) then a\<lparr>a_hidden := True\<rparr> else a)"

definition custom_link :: "window \<Rightarrow> nav_link \<Rightarrow> nav_link" where
  "custom_link w l =
     (let a = (if l_in_header l then (l_anchor l)\<lparr>a_text := rename_text (a_text (l_anchor l))\<rparr> else l_anchor l)
      in l\<lparr>l_anchor := fix_if_page w (hide_link a)\<rparr>)"

definition customiseHeader :: "window \<Rightarrow> nav_page \<Rightarrow> nav_page" where
  "customiseHeader w p =
     (if n_headerDone p then p
      else case n_header p of None \<Rightarrow> p
      | Some hdr \<Rightarrow>
          (if filter l_in_header (n_links p) = [] then p
           else p\<lparr>n_header := Some (hdr\<lparr>h_img := map_option (\<lambda>_. w_prefix w @ L ''/proxeus/static/proxeus-icon.svg'') (h_img hdr),
                                      h_texts := map rename_text (h_texts hdr)\<rparr>),
                  n_links := map (custom_link w) (n_links p),
                  n_headerDone := True\<rparr>))"

section \<open>The status menu, once per menu\<close>

definition node_text :: "menu_node \<Rightarrow> ustr" where
  "node_text n = trim (concat (m_texts n))"

text \<open>A \<open>forEach\<close> that assigns on each match keeps the last one.\<close>

fun last_index_from :: "nat \<Rightarrow> ('a \<Rightarrow> bool) \<Rightarrow> 'a list \<Rightarrow> nat option" where
  "last_index_from i P [] = None"
| "last_index_from i P (x # xs) =
     (case last_index_from (Suc i) P xs of Some j \<Rightarrow> Some j | None \<Rightarrow> if P x then Some i else None)"

definition last_index :: "('a \<Rightarrow> bool) \<Rightarrow> 'a list \<Rightarrow> nat option" where
  "last_index P xs = last_index_from 0 P xs"

definition hide_node :: "menu_node \<Rightarrow> menu_node" where
  "hide_node n = n\<lparr>m_el := (m_el n)\<lparr>a_hidden := True\<rparr>\<rparr>"

definition hide_item :: "menu_node \<Rightarrow> menu_node" where
  "hide_item n = (if m_item n \<and> hide_lookup HIDE_DROPDOWN_LABELS (node_text n) then hide_node n else n)"

text \<open>
  The walk over the siblings after the monitoring label, up to the server status label
  or the end, hiding dividers.
\<close>

fun hide_dividers :: "nat option \<Rightarrow> nat \<Rightarrow> menu_node list \<Rightarrow> menu_node list" where
  "hide_dividers stop i [] = []"
| "hide_dividers stop i (n # ns) =
     (if stop = Some i then n # ns
      else (if m_divider n then hide_node n else n) # hide_dividers stop (Suc i) ns)"

definition hide_monitoring :: "nat option \<Rightarrow> nat option \<Rightarrow> menu_node list \<Rightarrow> menu_node list" where
  "hide_monitoring monitoring server ns =
     (case monitoring of None \<Rightarrow> ns
      | Some m \<Rightarrow> take m ns @ map hide_node (take 1 (drop m ns)) @ hide_dividers server (Suc m) (drop (Suc m) ns))"

text \<open>
  \<open>cloneNode(true)\<close> copies attributes, \<open>data-\<close> marks included, but no listeners. The
  label becomes the text of the \<open>span\<close>, or else of the first text node that is not blank; other text stays.
\<close>

primrec set_first_text :: "ustr \<Rightarrow> ustr list \<Rightarrow> ustr list" where
  "set_first_text label [] = []"
| "set_first_text label (t # ts) = (if trim t \<noteq> [] then label # ts else t # set_first_text label ts)"

definition menuItem :: "menu_node \<Rightarrow> ustr \<Rightarrow> ustr \<Rightarrow> ustr \<Rightarrow> menu_node" where
  "menuItem templateItem href label attr =
     (let link = templateItem
      in link\<lparr>m_texts := (case m_span link of Some i \<Rightarrow> (m_texts link)[i := label] | None \<Rightarrow> set_first_text label (m_texts link)),
              m_marks := m_marks link @ [attr],
              m_el := (m_el link)\<lparr>a_hidden := False, a_href := href, a_pathname := href, a_listeners := 0\<rparr>\<rparr>)"

definition template_item :: "menu_node list \<Rightarrow> menu_node option" where
  "template_item ns =
     (case last_index (\<lambda>n. m_item n \<and> node_text n = L ''Target health'') ns of
        Some i \<Rightarrow> Some (ns ! i)
      | None \<Rightarrow> find (\<lambda>n. m_item n \<and> \<not> a_hidden (m_el n)) ns)"

definition inject_links :: "window \<Rightarrow> nat option \<Rightarrow> menu_node list \<Rightarrow> menu_node list" where
  "inject_links w server ns =
     (if (\<exists>n \<in> set ns. L ''data-proxeus-backends'' \<in> set (m_marks n)) then ns
      else case (server, template_item ns) of
        (Some s, Some t) \<Rightarrow>
          take (Suc s) ns @
          [menuItem t (w_prefix w @ L ''/backends'') (L ''Backends'') (L ''data-proxeus-backends''),
           menuItem t (w_prefix w @ L ''/cardinality'') (L ''Cardinality'') (L ''data-proxeus-cardinality'')] @
          drop (Suc s) ns
      | _ \<Rightarrow> ns)"

definition fix_node :: "window \<Rightarrow> menu_node \<Rightarrow> menu_node" where
  "fix_node w n = (if m_is_a n then n\<lparr>m_el := fix_if_page w (m_el n)\<rparr> else n)"

definition customise_menu :: "window \<Rightarrow> menu \<Rightarrow> menu" where
  "customise_menu w mn =
     (if mn_processed mn then mn
      else (let ns = mn_nodes mn;
                monitoring = last_index (\<lambda>n. m_label n \<and> node_text n = L ''Monitoring status'') ns;
                server = last_index (\<lambda>n. m_label n \<and> node_text n = L ''Server status'') ns;
                ns = map hide_item ns;
                ns = hide_monitoring monitoring server ns;
                ns = inject_links w server ns;
                ns = map (fix_node w) ns
            in mn\<lparr>mn_nodes := ns, mn_processed := True\<rparr>))"

definition customiseDropdown :: "window \<Rightarrow> menu list \<Rightarrow> menu list" where
  "customiseDropdown w menus = map (customise_menu w) menus"

section \<open>Facts\<close>

interpretation header_once: observer_callback "customiseHeader w" "\<lambda>_. True"
proof unfold_locales
  fix p
  show "customiseHeader w (customiseHeader w p) = customiseHeader w p"
    by (auto simp: customiseHeader_def split: option.split)
qed simp

interpretation dropdown_once: observer_callback "customiseDropdown w" "\<lambda>_. True"
proof unfold_locales
  fix ms
  show "customiseDropdown w (customiseDropdown w ms) = customiseDropdown w ms"
    by (simp add: customiseDropdown_def customise_menu_def Let_def)
qed simp

lemma fixPageHref_below:
  assumes "a_pathname a = PAGE @ L ''/'' @ r"
  shows "a_href (fixPageHref P PAGE a) = P @ L ''/'' @ r"
    and "a_pathname (fixPageHref P PAGE a) = P @ L ''/'' @ r"
    and "a_fixed (fixPageHref P PAGE a)"
    and "a_listeners (fixPageHref P PAGE a) = (if a_fixed a then a_listeners a else Suc (a_listeners a))"
proof -
  have "has_prefix (PAGE @ L ''/'') (a_pathname a)" "a_pathname a \<noteq> []"
    using has_prefix_append [of "PAGE @ L ''/''" r] assms by simp_all
  then show "a_href (fixPageHref P PAGE a) = P @ L ''/'' @ r"
    and "a_pathname (fixPageHref P PAGE a) = P @ L ''/'' @ r"
    and "a_fixed (fixPageHref P PAGE a)"
    and "a_listeners (fixPageHref P PAGE a) = (if a_fixed a then a_listeners a else Suc (a_listeners a))"
    using assms by (auto simp: fixPageHref_def Let_def simp del: L.simps)
qed

lemma fixPageHref_other:
  "\<not> has_prefix (PAGE @ L ''/'') (a_pathname a) \<Longrightarrow> fixPageHref P PAGE a = a"
  by (simp add: fixPageHref_def)

text \<open>At most one listener per anchor: the mark and the listener come together.\<close>

definition listener_ok :: "anchor \<Rightarrow> bool" where
  "listener_ok a \<longleftrightarrow> a_listeners a \<le> (if a_fixed a then 1 else 0)"

lemma fixPageHref_listener: "listener_ok a \<Longrightarrow> listener_ok (fixPageHref P PAGE a)"
  by (auto simp: fixPageHref_def listener_ok_def Let_def)

lemma fixPageHref_frame [simp]:
  "a_text (fixPageHref P PAGE a) = a_text a" "a_hidden (fixPageHref P PAGE a) = a_hidden a"
  by (auto simp: fixPageHref_def Let_def)

lemma fix_if_page_frame [simp]: "a_text (fix_if_page w a) = a_text a" "a_hidden (fix_if_page w a) = a_hidden a"
  by (auto simp: fix_if_page_def split: option.split)

lemma fix_if_page_listener: "listener_ok a \<Longrightarrow> listener_ok (fix_if_page w a)"
  by (auto simp: fix_if_page_def fixPageHref_listener split: option.split)

lemma hide_lookup_iff:
  "hide_lookup table s \<longleftrightarrow> s \<in> fst ` set table \<or> s \<in> fst ` set proto_text"
proof -
  have "hide_lookup table s \<longleftrightarrow> map_of table s \<noteq> None \<or> map_of proto_text s \<noteq> None"
    by (auto simp: hide_lookup_def obj_get_def split: option.split)
  then show ?thesis by (simp only: map_of_eq_None_iff) simp
qed

lemma last_index_from_snoc:
  "last_index_from i P (xs @ [x]) = (if P x then Some (i + length xs) else last_index_from i P xs)"
  by (induction xs arbitrary: i) (simp_all split: option.split)

lemma last_index_from_Some:
  "last_index_from i P xs = Some j \<longleftrightarrow>
     i \<le> j \<and> j - i < length xs \<and> P (xs ! (j - i)) \<and> (\<forall>k. j - i < k \<and> k < length xs \<longrightarrow> \<not> P (xs ! k))"
proof (induction xs rule: rev_induct)
  case (snoc x xs)
  show ?case
  proof (cases "P x")
    case True
    have "j - i = length xs" if "j - i < Suc (length xs)" "\<forall>k. j - i < k \<and> k < Suc (length xs) \<longrightarrow> \<not> P ((xs @ [x]) ! k)"
      using that True by (metis less_Suc_eq lessI nth_append_length)
    with True show ?thesis by (auto simp: last_index_from_snoc)
  next
    case False
    then have "j - i \<noteq> length xs" if "P ((xs @ [x]) ! (j - i))" using that by auto
    with False show ?thesis unfolding last_index_from_snoc if_not_P [OF False] snoc.IH
      by (auto simp: nth_append less_Suc_eq)
  qed
qed simp

lemma last_index_Some:
  "last_index P xs = Some j \<longleftrightarrow> j < length xs \<and> P (xs ! j) \<and> (\<forall>k. j < k \<and> k < length xs \<longrightarrow> \<not> P (xs ! k))"
  by (simp add: last_index_def last_index_from_Some)

lemma length_hide_dividers [simp]: "length (hide_dividers stop i ns) = length ns"
  by (induction stop i ns rule: hide_dividers.induct) auto

lemma length_hide_monitoring [simp]: "length (hide_monitoring m s ns) = length ns"
  by (cases m) (auto simp: hide_monitoring_def)

section \<open>Properties\<close>

text \<open>
  However often a link is repaired, it gets at most one click listener.
\<close>

lemma fix_listener_once:
  assumes "a_listeners a = 0"
  shows "a_listeners ((fixPageHref P PAGE ^^ n) a) \<le> 1"
proof -
  have "listener_ok ((fixPageHref P PAGE ^^ n) a)" by (induction n) (use assms in \<open>simp_all add: listener_ok_def [of a] fixPageHref_listener\<close>)
  then show ?thesis by (auto simp: listener_ok_def split: if_splits)
qed

text \<open>
  Customising the header of a proxeus page once it has links: every header or side link whose text is
  one of the hidden ones is hidden, every link the router resolved below the page points to the same
  path below the route prefix, no text still says Prometheus where it was renamed, and running again
  changes nothing.
\<close>

lemma header_customised:
  assumes "\<not> n_headerDone p" "n_header p = Some hdr" "\<exists>l \<in> set (n_links p). l_in_header l" "w_page w = Some PAGE"
    and "i < length (n_links p)"
  shows "let a = l_anchor (n_links p ! i); a' = l_anchor (n_links (customiseHeader w p) ! i)
    in (trim (a_text a') \<in> fst ` set HIDE_NAV_TEXTS \<longrightarrow> a_hidden a') \<and>
       (\<forall>r. a_pathname a = PAGE @ L ''/'' @ r \<longrightarrow> a_href a' = w_prefix w @ L ''/'' @ r) \<and>
       customiseHeader w (customiseHeader w p) = customiseHeader w p"
proof -
  define l where "l = n_links p ! i"
  have links: "n_links (customiseHeader w p) = map (custom_link w) (n_links p)"
    using assms(1-3) by (auto simp: customiseHeader_def filter_empty_conv)
  have a': "l_anchor (n_links (customiseHeader w p) ! i) = l_anchor (custom_link w l)"
    using assms(5) by (simp add: links l_def)
  have hide: "trim (a_text b) \<in> fst ` set HIDE_NAV_TEXTS \<Longrightarrow> a_hidden (hide_link b)" for b
    by (simp add: hide_link_def hide_lookup_iff)
  have frame: "a_text (hide_link b) = a_text b" "a_pathname (hide_link b) = a_pathname b" for b
    by (simp_all add: hide_link_def)
  have "a_href (l_anchor (custom_link w l)) = w_prefix w @ L ''/'' @ r" if "a_pathname (l_anchor l) = PAGE @ L ''/'' @ r" for r
  proof -
    let ?b = "if l_in_header l then (l_anchor l)\<lparr>a_text := rename_text (a_text (l_anchor l))\<rparr> else l_anchor l"
    have "l_anchor (custom_link w l) = fixPageHref (w_prefix w) PAGE (hide_link ?b)"
      by (simp add: custom_link_def Let_def fix_if_page_def assms(4))
    moreover have "a_pathname (hide_link ?b) = PAGE @ L ''/'' @ r" using that by (simp add: frame)
    ultimately show ?thesis using fixPageHref_below(1) by simp
  qed
  with hide header_once.settled show ?thesis
    unfolding Let_def a' l_def [symmetric] by (auto simp: custom_link_def Let_def frame simp del: L.simps)
qed

lemma node_text_frame [simp]:
  "node_text (hide_node n) = node_text n" "node_text (hide_item n) = node_text n" "node_text (fix_node w n) = node_text n"
  by (simp_all add: node_text_def hide_node_def hide_item_def fix_node_def)

lemma node_frame [simp]:
  "m_item (hide_node n) = m_item n" "m_marks (hide_node n) = m_marks n" "a_hidden (m_el (hide_node n))"
  "m_item (hide_item n) = m_item n" "m_marks (hide_item n) = m_marks n"
  "m_item (fix_node w n) = m_item n" "m_marks (fix_node w n) = m_marks n" "a_hidden (m_el (fix_node w n)) = a_hidden (m_el n)"
  by (simp_all add: hide_node_def hide_item_def fix_node_def)

abbreviation maybe_hidden :: "menu_node \<Rightarrow> menu_node \<Rightarrow> bool" where
  "maybe_hidden a b \<equiv> b = a \<or> b = hide_node a"

lemma hide_dividers_nodes: "list_all2 maybe_hidden ns (hide_dividers stop i ns)"
  by (induction stop i ns rule: hide_dividers.induct) (auto intro: list_all2_refl)

lemma hide_monitoring_nodes: "list_all2 maybe_hidden ns (hide_monitoring m s ns)"
proof (cases m)
  case None
  then show ?thesis by (simp add: hide_monitoring_def list_all2_refl)
next
  case (Some k)
  have "list_all2 maybe_hidden (take k ns @ take 1 (drop k ns) @ drop (Suc k) ns)
      (take k ns @ map hide_node (take 1 (drop k ns)) @ hide_dividers s (Suc k) (drop (Suc k) ns))"
    by (intro list_all2_appendI hide_dividers_nodes) (auto simp: list_all2_map2 intro: list_all2_refl)
  moreover have "take k ns @ take 1 (drop k ns) @ drop (Suc k) ns = ns"
    by (metis append_take_drop_id drop_drop plus_1_eq_Suc)
  ultimately show ?thesis using Some by (simp add: hide_monitoring_def)
qed

definition hidden_nodes :: "menu \<Rightarrow> menu_node list" where
  "hidden_nodes mn =
     hide_monitoring (last_index (\<lambda>n. m_label n \<and> node_text n = L ''Monitoring status'') (mn_nodes mn))
       (last_index (\<lambda>n. m_label n \<and> node_text n = L ''Server status'') (mn_nodes mn)) (map hide_item (mn_nodes mn))"

lemma hidden_nodes_nth:
  assumes "i < length (mn_nodes mn)"
  shows "maybe_hidden (hide_item (mn_nodes mn ! i)) (hidden_nodes mn ! i)"
  using list_all2_nthD [OF hide_monitoring_nodes [of "map hide_item (mn_nodes mn)"], of i] assms
  by (simp add: hidden_nodes_def)

lemma length_hidden_nodes [simp]: "length (hidden_nodes mn) = length (mn_nodes mn)"
  by (simp add: hidden_nodes_def)

lemma hidden_nodes_frame:
  assumes "i < length (mn_nodes mn)"
  shows "node_text (hidden_nodes mn ! i) = node_text (mn_nodes mn ! i)" "m_item (hidden_nodes mn ! i) = m_item (mn_nodes mn ! i)"
    "m_marks (hidden_nodes mn ! i) = m_marks (mn_nodes mn ! i)"
  using hidden_nodes_nth [OF assms] by auto

text \<open>
  In a status menu that is customised, every item with one of the hidden labels is hidden: the menu's
  items keep their order, and an item hidden by its label never shows.
\<close>

lemma menu_items_hidden:
  assumes "\<not> mn_processed mn" "n \<in> set (mn_nodes (customise_menu w mn))" "m_item n"
    "node_text n \<in> fst ` set HIDE_DROPDOWN_LABELS" "m_marks n = []"
  shows "a_hidden (m_el n)"
proof -
  let ?s = "last_index (\<lambda>n. m_label n \<and> node_text n = L ''Server status'') (mn_nodes mn)"
  have ns: "mn_nodes (customise_menu w mn) = map (fix_node w) (inject_links w ?s (hidden_nodes mn))"
    using assms(1) by (simp add: customise_menu_def hidden_nodes_def Let_def)
  then obtain n0 where n0: "n = fix_node w n0" "n0 \<in> set (inject_links w ?s (hidden_nodes mn))" using assms(2) by auto
  have "set (inject_links w sv xs) \<subseteq> set xs \<union> {x. m_marks x \<noteq> []}" for sv xs
    by (auto simp: inject_links_def menuItem_def split: option.splits dest: in_set_takeD in_set_dropD)
  with n0 assms(5) have "n0 \<in> set (hidden_nodes mn)" by auto
  then obtain i where i: "i < length (mn_nodes mn)" "n0 = hidden_nodes mn ! i" by (auto simp: in_set_conv_nth)
  have "a_hidden (m_el (hide_item (mn_nodes mn ! i)))"
    using assms(3,4) n0 i hidden_nodes_frame [OF i(1)] by (simp add: hide_item_def hide_lookup_iff)
  with hidden_nodes_nth [OF i(1)] n0 i show ?thesis by auto
qed

definition sample_node :: "string \<Rightarrow> bool \<Rightarrow> menu_node" where
  "sample_node s item =
     \<lparr>m_item = item, m_label = \<not> item, m_divider = False, m_is_a = item, m_texts = [L s], m_span = Some 0, m_marks = [],
      m_el = \<lparr>a_text = L s, a_pathname = [], a_href = [], a_hidden = False, a_fixed = False, a_listeners = 0\<rparr>\<rparr>"

lemma sample_node_simps:
  "m_item (sample_node s i) = i" "m_label (sample_node s i) = (\<not> i)" "m_marks (sample_node s i) = []"
  by (simp_all add: sample_node_def)

definition sample_window :: window where
  "sample_window = \<lparr>w_prefix = [], w_pathname = L ''/query'', w_page = None, w_navReady = False, w_wrapped = False, w_entries = []\<rparr>"

lemma last_index_exists:
  assumes "\<exists>x \<in> set xs. P x"
  shows "\<exists>j. last_index P xs = Some j"
proof -
  have "last_index_from i P xs \<noteq> None" for i
    using assms
  proof (induction xs arbitrary: i)
    case (Cons x xs)
    show ?case
    proof (cases "\<exists>x \<in> set xs. P x")
      case True
      then obtain j where "last_index_from (Suc i) P xs = Some j" using Cons.IH by blast
      then show ?thesis by simp
    next
      case False
      with Cons.prems show ?thesis by (auto split: option.split)
    qed
  qed simp
  then show ?thesis by (auto simp: last_index_def)
qed

lemma own_link_kept:
  assumes "w_page w \<in> {None, Some (w_prefix w @ L ''/backends''), Some (w_prefix w @ L ''/cardinality'')}"
    "a_pathname a \<in> {w_prefix w @ L ''/backends'', w_prefix w @ L ''/cardinality''}"
  shows "fix_if_page w a = a"
proof (cases "w_page w")
  case (Some PAGE)
  with assms have "\<not> has_prefix (PAGE @ L ''/'') (a_pathname a)" by (auto simp: has_prefix_iff)
  with Some show ?thesis by (simp add: fix_if_page_def fixPageHref_other)
qed (simp add: fix_if_page_def)

lemma hidden_marks:
  assumes "\<forall>n \<in> set (mn_nodes mn). a \<notin> set (m_marks n)"
  shows "\<not> (\<exists>n \<in> set (hidden_nodes mn). a \<in> set (m_marks n))"
proof
  assume "\<exists>n \<in> set (hidden_nodes mn). a \<in> set (m_marks n)"
  then obtain i where i: "i < length (mn_nodes mn)" "a \<in> set (m_marks (hidden_nodes mn ! i))"
    by (metis in_set_conv_nth length_hidden_nodes)
  with assms show False unfolding hidden_nodes_frame(3) [OF i(1)] using nth_mem by blast
qed

lemma hidden_template:
  assumes "\<exists>n \<in> set (mn_nodes mn). m_item n \<and> node_text n = t"
  shows "\<exists>j. last_index (\<lambda>n. m_item n \<and> node_text n = t) (hidden_nodes mn) = Some j"
proof -
  obtain k where k: "k < length (mn_nodes mn)" "m_item (mn_nodes mn ! k)" "node_text (mn_nodes mn ! k) = t"
    using assms by (metis in_set_conv_nth)
  have "\<exists>n \<in> set (hidden_nodes mn). m_item n \<and> node_text n = t"
    using k hidden_nodes_frame(1,2) [OF k(1)] by (intro bexI [of _ "hidden_nodes mn ! k"]) simp_all
  then show ?thesis by (rule last_index_exists)
qed

lemma menu_links_at:
  assumes "\<not> mn_processed mn" "\<forall>n \<in> set (mn_nodes mn). L ''data-proxeus-backends'' \<notin> set (m_marks n)"
    and s: "last_index (\<lambda>n. m_label n \<and> node_text n = L ''Server status'') (mn_nodes mn) = Some s"
    and t: "\<exists>n \<in> set (mn_nodes mn). m_item n \<and> node_text n = L ''Target health''"
    and p: "w_page w \<in> {None, Some (w_prefix w @ L ''/backends''), Some (w_prefix w @ L ''/cardinality'')}"
  shows "let ns = mn_nodes (customise_menu w mn) in
    a_pathname (m_el (ns ! Suc s)) = w_prefix w @ L ''/backends'' \<and>
    a_pathname (m_el (ns ! Suc (Suc s))) = w_prefix w @ L ''/cardinality'' \<and>
    length ns = length (mn_nodes mn) + 2 \<and> node_text (ns ! s) = L ''Server status'' \<and>
    a_href (m_el (ns ! Suc s)) = w_prefix w @ L ''/backends'' \<and> \<not> a_hidden (m_el (ns ! Suc s)) \<and>
    a_href (m_el (ns ! Suc (Suc s))) = w_prefix w @ L ''/cardinality'' \<and> \<not> a_hidden (m_el (ns ! Suc (Suc s)))"
proof -
  define hs where "hs = hidden_nodes mn"
  have sl: "s < length hs" "node_text (mn_nodes mn ! s) = L ''Server status''"
    using s by (simp_all add: last_index_Some hs_def)
  have marks: "\<not> (\<exists>n \<in> set hs. L ''data-proxeus-backends'' \<in> set (m_marks n))"
    unfolding hs_def by (rule hidden_marks [OF assms(2)])
  obtain j where j: "last_index (\<lambda>n. m_item n \<and> node_text n = L ''Target health'') hs = Some j"
    using hidden_template [OF t] by (auto simp: hs_def)
  define b where "b = menuItem (hs ! j) (w_prefix w @ L ''/backends'') (L ''Backends'') (L ''data-proxeus-backends'')"
  define c where "c = menuItem (hs ! j) (w_prefix w @ L ''/cardinality'') (L ''Cardinality'') (L ''data-proxeus-cardinality'')"
  have inj: "inject_links w (Some s) hs = take (Suc s) hs @ [b, c] @ drop (Suc s) hs"
    unfolding inject_links_def using marks j by (simp only: if_False template_item_def option.case prod.case b_def c_def)
  have ns: "mn_nodes (customise_menu w mn) = map (fix_node w) (take (Suc s) hs @ [b, c] @ drop (Suc s) hs)"
  proof -
    have "mn_nodes (customise_menu w mn) = map (fix_node w) (inject_links w (Some s) hs)"
      using assms(1) by (simp add: customise_menu_def Let_def hs_def hidden_nodes_def s del: L.simps)
    then show ?thesis by (simp only: inj)
  qed
  have path: "a_pathname (m_el (fix_node w b)) = w_prefix w @ L ''/backends''"
    "a_pathname (m_el (fix_node w c)) = w_prefix w @ L ''/cardinality''"
    using own_link_kept [OF p] by (simp_all add: fix_node_def b_def c_def menuItem_def Let_def del: L.simps)
  have href: "a_href (m_el (fix_node w b)) = w_prefix w @ L ''/backends''" "\<not> a_hidden (m_el (fix_node w b))"
    "a_href (m_el (fix_node w c)) = w_prefix w @ L ''/cardinality''" "\<not> a_hidden (m_el (fix_node w c))"
    using own_link_kept [OF p] by (simp_all add: fix_node_def b_def c_def menuItem_def Let_def del: L.simps)
  have tk: "length (take (Suc s) hs) = Suc s" using sl by simp
  have "map (fix_node w) (take (Suc s) hs @ [b, c] @ drop (Suc s) hs) ! s = fix_node w (hs ! s)"
    using sl tk by (simp add: nth_append)
  moreover have "node_text (hs ! s) = L ''Server status''"
    using hidden_nodes_frame(1) [of s mn] sl by (simp add: hs_def)
  ultimately show ?thesis using sl tk href path unfolding Let_def ns
    by (simp add: nth_append hs_def del: L.simps)
qed

text \<open>
  A status menu with a "Server status" label and a "Target health" item gets exactly two more items, right
  below that label and in this order, visible: the links to the Backends and the Cardinality page,
  whose addresses the repair of links leaves alone on any page.
\<close>

lemma menu_links_injected:
  assumes "\<not> mn_processed mn" "\<forall>n \<in> set (mn_nodes mn). L ''data-proxeus-backends'' \<notin> set (m_marks n)"
    and s: "last_index (\<lambda>n. m_label n \<and> node_text n = L ''Server status'') (mn_nodes mn) = Some s"
    and t: "\<exists>n \<in> set (mn_nodes mn). m_item n \<and> node_text n = L ''Target health''"
    and p: "w_page w \<in> {None, Some (w_prefix w @ L ''/backends''), Some (w_prefix w @ L ''/cardinality'')}"
  shows "let ns = mn_nodes (customise_menu w mn) in
    length ns = length (mn_nodes mn) + 2 \<and> node_text (ns ! s) = L ''Server status'' \<and>
    a_href (m_el (ns ! Suc s)) = w_prefix w @ L ''/backends'' \<and> \<not> a_hidden (m_el (ns ! Suc s)) \<and>
    a_href (m_el (ns ! Suc (Suc s))) = w_prefix w @ L ''/cardinality'' \<and> \<not> a_hidden (m_el (ns ! Suc (Suc s)))"
  using menu_links_at [OF assms] unfolding Let_def by blast

end
