(* ===== verification/NavView.thy ===== *)
theory NavView
  imports NavHeader Html JsDate Inventory
begin

text \<open>
  The Backends page nav.js renders into the Mantine shell (the second half of
  \<open>cmd/proxeus/ui/nav.js\<close>): relative times, badge colours, the page's HTML as a
  string, and the tree that string denotes.
\<close>

section \<open>Utilities\<close>

definition nav_escHtml :: "ustr \<Rightarrow> ustr" where
  "nav_escHtml s =
     replace_unit (ch (CHR 0x22)) (L ''&quot;'')
       (replace_unit (ch (CHR ''>'')) (L ''&gt;'')
         (replace_unit (ch (CHR ''<'')) (L ''&lt;'')
           (replace_unit (ch (CHR ''&'')) (L ''&amp;'') s)))"

text \<open>An invalid date makes every comparison false and every sum \<open>NaN\<close>.\<close>

definition nav_relTime :: "host \<Rightarrow> ustr \<Rightarrow> ustr" where
  "nav_relTime h isoStr =
     (if isoStr = [] \<or> has_prefix (L ''0001-'') isoStr then L ''-''
      else case date_parse h isoStr of None \<Rightarrow> L ''NaNh ago''
      | Some t \<Rightarrow>
        (let diff = (clock h - t) div 1000 in
         if diff < 60 then show_int diff @ L ''s ago''
         else if diff < 3600 then show_int (diff div 60) @ L ''m ago''
         else show_int (diff div 3600) @ L ''h ago''))"

definition badge_colors :: "(ustr \<times> ustr) list" where
  "badge_colors =
     [(L ''thanos'', L ''#4dabf7''), (L ''victoriametrics'', L ''#51cf66''), (L ''cortex'', L ''#f783ac''),
      (L ''mimir'', L ''#cc5de8''), (L ''prometheus'', L ''#e67700'')]"

definition nav_badgeColor :: "host \<Rightarrow> ustr \<Rightarrow> ustr" where
  "nav_badgeColor h btype =
     (case obj_get badge_colors (to_lower h (or_else btype [])) of Some c \<Rightarrow> c | None \<Rightarrow> L ''#868e96'')"

definition NAV_TEXT :: ustr where "NAV_TEXT = L ''color:var(--mantine-color-text);''"
definition NAV_MUTED :: ustr where "NAV_MUTED = L ''color:var(--mantine-color-dimmed);''"
definition NAV_ERR :: ustr where "NAV_ERR = L ''color:var(--mantine-color-red-text, #fa5252);''"
definition NAV_BORDER :: ustr where "NAV_BORDER = L ''1px solid var(--mantine-color-default-border)''"
definition NAV_TINT :: ustr where "NAV_TINT = L ''background:var(--mantine-color-gray-light);''"
definition NAV_CELL :: ustr where
  "NAV_CELL = L ''padding:8px 16px;text-align:left;vertical-align:middle;border-bottom:'' @ NAV_BORDER @
     L '';overflow-wrap:anywhere;''"
definition NAV_COLGROUP :: ustr where
  "NAV_COLGROUP = L ''<colgroup><col style=\"width:45%\"><col style=\"width:15%\"><col style=\"width:12%\"><col style=\"width:28%\"></colgroup>''"

section \<open>The page's HTML\<close>

definition nav_dotColor :: "target list \<Rightarrow> ustr" where
  "nav_dotColor targets =
     (let totalUp = length (filter t_healthy targets) in
      if length targets = 0 then L ''#aaa''
      else if totalUp = 0 then L ''#fa5252''
      else if totalUp < length targets then L ''#fab005'' else L ''#40c057'')"

definition nav_row :: "host \<Rightarrow> target \<Rightarrow> ustr" where
  "nav_row h t =
     (let tDot = (if t_healthy t then L ''#40c057'' else L ''#fa5252'');
          bColor = nav_badgeColor h (t_backendType t) in
      L ''<tr>'' @
      L ''<td style=\"'' @ NAV_CELL @ L ''\">'' @
      L ''<span style=\"width:8px;height:8px;border-radius:50%;background:'' @ tDot @
        L '';display:inline-block;margin-right:6px;vertical-align:middle;\"></span>'' @
      L ''<a href=\"'' @ nav_escHtml (t_url t) @
        L ''\" style=\"color:var(--mantine-color-anchor);text-decoration:none;font-family:var(--mantine-font-family-monospace);font-size:0.82rem;\" target=\"_blank\" rel=\"noopener\">'' @
        nav_escHtml (t_url t) @ L ''</a>'' @
      L ''</td>'' @
      L ''<td style=\"'' @ NAV_CELL @ L ''\">'' @
      L ''<span style=\"display:inline-block;padding:2px 8px;border-radius:4px;background:'' @ bColor @
        L '';color:#fff;font-size:0.75rem;font-weight:600;\">'' @
        nav_escHtml (or_else (t_backendType t) (L ''-'')) @ L ''</span>'' @
      L ''</td>'' @
      L ''<td style=\"'' @ NAV_CELL @ NAV_TEXT @ L ''\">'' @ nav_escHtml (nav_relTime h (t_lastProbeAt t)) @ L ''</td>'' @
      L ''<td style=\"'' @ NAV_CELL @ (if t_lastError t \<noteq> [] then NAV_ERR else NAV_MUTED) @
        L ''font-size:0.8rem;\">'' @ nav_escHtml (or_else (t_lastError t) (L ''-'')) @ L ''</td>'' @
      L ''</tr>'')"

definition nav_th :: "string \<Rightarrow> ustr" where
  "nav_th s = L ''<th style=\"'' @ NAV_CELL @ NAV_TEXT @ L ''font-weight:600;\">'' @ L s @ L ''</th>''"

definition nav_card :: "host \<Rightarrow> group \<Rightarrow> ustr" where
  "nav_card h g =
     (let targets = or_empty (g_targets g); totalUp = length (filter t_healthy targets);
          dotColor = nav_dotColor targets in
      L ''<div style=\"background:var(--mantine-color-body);border:'' @ NAV_BORDER @
        L '';border-radius:8px;margin-bottom:16px;overflow:hidden;\">'' @
      L ''<div style=\"padding:12px 16px;'' @ NAV_TINT @ L ''border-bottom:'' @ NAV_BORDER @
        L '';display:flex;align-items:center;gap:8px;\">'' @
      L ''<span style=\"width:10px;height:10px;border-radius:50%;background:'' @ dotColor @
        L '';display:inline-block;flex-shrink:0;\"></span>'' @
      L ''<strong style=\"font-size:0.9rem;'' @ NAV_TEXT @ L ''\">'' @ nav_escHtml (g_name g) @ L ''</strong>'' @
      L ''<span style=\"font-size:0.8rem;margin-left:auto;'' @ NAV_MUTED @ L ''\">'' @
        show_nat totalUp @ L ''/'' @ show_nat (length targets) @ L '' up</span>'' @
      L ''</div>'' @
      (if length targets > 0 then
         L ''<table style=\"width:100%;table-layout:fixed;border-collapse:collapse;font-size:0.85rem;\">'' @ NAV_COLGROUP @
         L ''<thead><tr style=\"'' @ NAV_TINT @ L ''\">'' @
         nav_th ''Endpoint'' @ nav_th ''Type'' @ nav_th ''Last Probed'' @ nav_th ''Last Error'' @
         L ''</tr></thead><tbody>'' @
         concat (map (nav_row h) targets) @
         L ''</tbody></table>''
       else
         L ''<p style=\"padding:12px 16px;margin:0;'' @ NAV_MUTED @ L ''\">No targets in this group.</p>'') @
      L ''</div>'')"

definition renderBackendsData :: "host \<Rightarrow> inventory \<Rightarrow> ustr" where
  "renderBackendsData h data =
     (let groups = or_empty (i_groups data); now = locale_time h (clock h) in
      L ''<div style=\"display:flex;align-items:center;justify-content:space-between;margin-bottom:16px;\">'' @
      L ''<h2 style=\"margin:0;font-size:1.25rem;font-weight:600;'' @ NAV_TEXT @ L ''\">Backends</h2>'' @
      L ''<span id=\"proxeus-backends-status\" style=\"font-size:0.75rem;'' @ NAV_MUTED @ L ''\">Updated '' @ now @ L ''</span>'' @
      L ''</div>'' @
      (if length groups = 0 then L ''<p style=\"'' @ NAV_MUTED @ L ''\">No backend groups configured.</p>''
       else concat (map (nav_card h) groups)))"

text \<open>The text of a failed load: the exception is concatenated as it is.\<close>

definition nav_error_html :: "ustr \<Rightarrow> ustr" where
  "nav_error_html err = L ''<p style=\"'' @ NAV_ERR @ L ''\">Failed to load backends: '' @ err @ L ''</p>''"

section \<open>The trees they denote\<close>

definition nav_row_tree :: "host \<Rightarrow> target \<Rightarrow> html" where
  "nav_row_tree h t =
     el ''tr'' []
       [el ''td'' [att ''style'' NAV_CELL]
          [el ''span'' [att ''style'' (L ''width:8px;height:8px;border-radius:50%;background:'' @
               (if t_healthy t then L ''#40c057'' else L ''#fa5252'') @
               L '';display:inline-block;margin-right:6px;vertical-align:middle;'')] [],
           el ''a'' [att ''href'' (t_url t),
               att ''style'' (L ''color:var(--mantine-color-anchor);text-decoration:none;font-family:var(--mantine-font-family-monospace);font-size:0.82rem;''),
               att ''target'' (L ''_blank''), att ''rel'' (L ''noopener'')] [Text (t_url t)]],
        el ''td'' [att ''style'' NAV_CELL]
          [el ''span'' [att ''style'' (L ''display:inline-block;padding:2px 8px;border-radius:4px;background:'' @
               nav_badgeColor h (t_backendType t) @ L '';color:#fff;font-size:0.75rem;font-weight:600;'')]
             [Text (or_else (t_backendType t) (L ''-''))]],
        el ''td'' [att ''style'' (NAV_CELL @ NAV_TEXT)] [Text (nav_relTime h (t_lastProbeAt t))],
        el ''td'' [att ''style'' (NAV_CELL @ (if t_lastError t \<noteq> [] then NAV_ERR else NAV_MUTED) @ L ''font-size:0.8rem;'')]
          [Text (or_else (t_lastError t) (L ''-''))]]"

definition nav_th_tree :: "string \<Rightarrow> html" where
  "nav_th_tree s = el ''th'' [att ''style'' (NAV_CELL @ NAV_TEXT @ L ''font-weight:600;'')] [Text (L s)]"

definition nav_colgroup_tree :: html where
  "nav_colgroup_tree =
     el ''colgroup'' []
       (map (\<lambda>n. Void (L ''col'') [att ''style'' (L ''width:'' @ L n)]) [''45%'', ''15%'', ''12%'', ''28%''])"

definition nav_targets_tree :: "host \<Rightarrow> target list \<Rightarrow> html" where
  "nav_targets_tree h ts =
     (if ts \<noteq> [] then
        el ''table'' [att ''style'' (L ''width:100%;table-layout:fixed;border-collapse:collapse;font-size:0.85rem;'')]
          [nav_colgroup_tree,
           el ''thead'' [] [el ''tr'' [att ''style'' NAV_TINT]
             [nav_th_tree ''Endpoint'', nav_th_tree ''Type'', nav_th_tree ''Last Probed'', nav_th_tree ''Last Error'']],
           el ''tbody'' [] (map (nav_row_tree h) ts)]
      else el ''p'' [att ''style'' (L ''padding:12px 16px;margin:0;'' @ NAV_MUTED)] [Text (L ''No targets in this group.'')])"

definition nav_count_text :: "target list \<Rightarrow> ustr" where
  "nav_count_text ts = show_nat (length (filter t_healthy ts)) @ L ''/'' @ show_nat (length ts) @ L '' up''"

definition nav_card_tree :: "host \<Rightarrow> group \<Rightarrow> html" where
  "nav_card_tree h g =
     (let ts = or_empty (g_targets g) in
      el ''div'' [att ''style'' (L ''background:var(--mantine-color-body);border:'' @ NAV_BORDER @
          L '';border-radius:8px;margin-bottom:16px;overflow:hidden;'')]
        [el ''div'' [att ''style'' (L ''padding:12px 16px;'' @ NAV_TINT @ L ''border-bottom:'' @ NAV_BORDER @
             L '';display:flex;align-items:center;gap:8px;'')]
           [el ''span'' [att ''style'' (L ''width:10px;height:10px;border-radius:50%;background:'' @ nav_dotColor ts @
                L '';display:inline-block;flex-shrink:0;'')] [],
            el ''strong'' [att ''style'' (L ''font-size:0.9rem;'' @ NAV_TEXT)] [Text (g_name g)],
            el ''span'' [att ''style'' (L ''font-size:0.8rem;margin-left:auto;'' @ NAV_MUTED)] [Text (nav_count_text ts)]],
         nav_targets_tree h ts])"

definition nav_trees :: "host \<Rightarrow> inventory \<Rightarrow> html list" where
  "nav_trees h data =
     el ''div'' [att ''style'' (L ''display:flex;align-items:center;justify-content:space-between;margin-bottom:16px;'')]
       [el ''h2'' [att ''style'' (L ''margin:0;font-size:1.25rem;font-weight:600;'' @ NAV_TEXT)] [Text (L ''Backends'')],
        el ''span'' [att ''id'' (L ''proxeus-backends-status''), att ''style'' (L ''font-size:0.75rem;'' @ NAV_MUTED)]
          [Text (L ''Updated '' @ locale_time h (clock h))]] #
     (if or_empty (i_groups data) = []
      then [el ''p'' [att ''style'' NAV_MUTED] [Text (L ''No backend groups configured.'')]]
      else map (nav_card_tree h) (or_empty (i_groups data)))"

section \<open>Each string is its tree, serialised\<close>

lemma nav_escHtml_eq [simp]: "nav_escHtml s = esc_html s"
  by (simp only: nav_escHtml_def replace_chain)

interpretation nav: html_escaper nav_escHtml
  unfolding nav_escHtml_eq [abs_def] by (rule std.html_escaper_axioms)

lemma proto_text_safe: "(k, v) \<in> set proto_text \<Longrightarrow> esc_html v = v"
  by (auto simp: proto_text_def fn_text_def)

lemma nav_badgeColor_safe [esc_simps]: "esc_html (nav_badgeColor h b) = nav_badgeColor h b"
proof -
  have "esc_html c = c" if "obj_get badge_colors k = Some c" for k c
    using obj_get_cases [OF that] by (auto simp: badge_colors_def dest: proto_text_safe)
  then show ?thesis by (simp add: nav_badgeColor_def split: option.split)
qed

lemma nav_styles_safe [esc_simps]:
  "esc_html NAV_TEXT = NAV_TEXT" "esc_html NAV_MUTED = NAV_MUTED" "esc_html NAV_ERR = NAV_ERR"
  "esc_html NAV_BORDER = NAV_BORDER" "esc_html NAV_TINT = NAV_TINT" "esc_html NAV_CELL = NAV_CELL"
  by (simp_all add: NAV_TEXT_def NAV_MUTED_def NAV_ERR_def NAV_BORDER_def NAV_TINT_def NAV_CELL_def)

lemma nav_dotColor_safe [esc_simps]: "esc_html (nav_dotColor ts) = nav_dotColor ts"
  by (simp add: nav_dotColor_def Let_def)

abbreviation nav_ser :: "html list \<Rightarrow> ustr" where
  "nav_ser \<equiv> ser nav_escHtml"

lemma emit_nav_row: "nav_row h t = nav_ser [nav_row_tree h t]"
  by (simp add: nav_row_def nav_row_tree_def Let_def emit_simps esc_simps)

lemma emit_nav_th: "esc_html (L s) = L s \<Longrightarrow> nav_th s = nav_ser [nav_th_tree s]"
  by (simp add: nav_th_def nav_th_tree_def emit_simps esc_simps)

lemma emit_nav_colgroup: "NAV_COLGROUP = nav_ser [nav_colgroup_tree]"
  by (simp add: NAV_COLGROUP_def nav_colgroup_tree_def emit_simps)

lemma emit_nav_rows: "map (nav_row h) ts = map (\<lambda>t. nav_ser [nav_row_tree h t]) ts"
  by (intro map_cong refl emit_nav_row)

lemma emit_nav_head:
  "nav_ser [nav_th_tree ''Endpoint'', nav_th_tree ''Type'', nav_th_tree ''Last Probed'', nav_th_tree ''Last Error''] =
     nav_th ''Endpoint'' @ nav_th ''Type'' @ nav_th ''Last Probed'' @ nav_th ''Last Error''"
  by (simp add: nav_th_def nav_th_tree_def emit_simps esc_simps)

lemma emit_nav_table:
  "ts \<noteq> [] \<Longrightarrow> nav_ser [nav_targets_tree h ts] =
     L ''<table style=\"width:100%;table-layout:fixed;border-collapse:collapse;font-size:0.85rem;\">'' @ NAV_COLGROUP @
     L ''<thead><tr style=\"'' @ NAV_TINT @ L ''\">'' @
     nav_th ''Endpoint'' @ nav_th ''Type'' @ nav_th ''Last Probed'' @ nav_th ''Last Error'' @
     L ''</tr></thead><tbody>'' @ concat (map (nav_row h) ts) @ L ''</tbody></table>''"
  unfolding emit_nav_rows ser_map [symmetric]
  using ser_Cons [of nav_escHtml nav_colgroup_tree
      "[el ''thead'' [] [el ''tr'' [att ''style'' NAV_TINT]
             [nav_th_tree ''Endpoint'', nav_th_tree ''Type'', nav_th_tree ''Last Probed'', nav_th_tree ''Last Error'']],
           el ''tbody'' [] (map (nav_row_tree h) ts)]"] emit_nav_head emit_nav_colgroup
  by (simp add: nav_targets_tree_def emit_simps esc_simps)

lemma emit_nav_card: "nav_card h g = nav_ser [nav_card_tree h g]"
proof (cases "or_empty (g_targets g) = []")
  case True
  then show ?thesis
    by (simp add: nav_card_def nav_card_tree_def nav_targets_tree_def nav_count_text_def Let_def emit_simps esc_simps)
next
  case False
  have "nav_ser [nav_card_tree h g] = nav_card h g"
    using False ser_Cons [of nav_escHtml _ "[nav_targets_tree h (or_empty (g_targets g))]"]
    by (simp add: nav_card_def nav_card_tree_def nav_count_text_def Let_def
        emit_nav_table [OF False, simplified] emit_simps esc_simps)
  then show ?thesis by simp
qed

lemma emit_nav_cards: "map (nav_card h) gs = map (\<lambda>g. nav_ser [nav_card_tree h g]) gs"
  by (intro map_cong refl emit_nav_card)

lemma emit_nav:
  "esc_html (locale_time h (clock h)) = locale_time h (clock h) \<Longrightarrow>
     renderBackendsData h data = nav_ser (nav_trees h data)"
  by (simp add: renderBackendsData_def nav_trees_def Let_def emit_nav_cards ser_map [of _ "nav_card_tree h"]
      emit_simps esc_simps)

lemma nav_trees_ok: "list_all tree_ok (nav_trees h data)"
  by (auto simp: nav_trees_def nav_card_tree_def nav_targets_tree_def nav_row_tree_def nav_th_tree_def
      nav_colgroup_tree_def name_ok_L void_tags_def list_all_iff Let_def simp del: L.simps)

section \<open>Properties\<close>

text \<open>
  C5: Whatever text a snapshot contains, a browser reads the Backends page's markup as exactly the
  intended elements, provided only that the locale writes the time of day without markup characters
  (the one text the page does not escape).
\<close>

theorem nav_injection_free:
  assumes "esc_html (locale_time h (clock h)) = locale_time h (clock h)"
  shows "parse (renderBackendsData h data) = Some (tidy (nav_trees h data))"
  by (simp only: emit_nav [OF assms] nav.parse_ser [OF nav_trees_ok])

theorem nav_injection_free_witness:
  "parse (renderBackendsData (plain_host 12) \<lparr>i_generatedAt = [], i_groups = None\<rparr>) =
     Some (tidy (nav_trees (plain_host 12) \<lparr>i_generatedAt = [], i_groups = None\<rparr>))"
  by (rule nav_injection_free) simp

text \<open>
  The text of a failed load is not escaped: any well-formed markup in the exception's text becomes
  elements of the page.
\<close>

lemma nav_error_markup:
  assumes "list_all tree_ok f"
  shows "parse (nav_error_html (ser nav_escHtml f)) =
    Some (tidy [el ''p'' [att ''style'' NAV_ERR] (Text (L ''Failed to load backends: '') # f)])"
proof -
  let ?f = "[el ''p'' [att ''style'' NAV_ERR] (Text (L ''Failed to load backends: '') # f)]"
  have "nav_error_html (ser nav_escHtml f) = ser nav_escHtml ?f"
    using ser_Cons [of nav_escHtml "Text (L ''Failed to load backends: '')" f]
    by (simp add: nav_error_html_def emit_simps esc_simps)
  moreover have "list_all tree_ok ?f" using assms by (simp add: name_ok_L void_tags_def del: L.simps)
  ultimately show ?thesis by (simp only: nav.parse_ser)
qed

end
