(* ===== verification/NavBackends.thy ===== *)
theory NavBackends
  imports NavView
begin

text \<open>
  The life of the Backends page in the Mantine shell (\<open>renderBackendsPage\<close>,
  \<open>loadBackendsData\<close> and the mutation observer of \<open>cmd/proxeus/ui/nav.js\<close>): the
  container is created once, polling starts once, and every response replaces the
  container's content.
\<close>

text \<open>
  The page: whether React has mounted \<open>main\<close>, the container with the tree it holds
  (\<open>Some None\<close> is content outside the modelled fragment of HTML), the script's flags,
  the shared window, and the requests under way.
\<close>

record backends_page =
  b_main :: bool
  b_root :: "html list option option"
  b_rendered :: bool
  b_interval :: bool
  b_window :: window
  b_inflight :: "nat list"
  b_issued :: nat

definition BACKENDS_PATH :: "window \<Rightarrow> ustr" where
  "BACKENDS_PATH w = w_prefix w @ L ''/backends''"

text \<open>The address loaded.\<close>

definition NAV_API_URL :: "ustr \<Rightarrow> ustr" where
  "NAV_API_URL PREFIX = PREFIX @ L ''/proxeus/api/backends.json''"

definition isBackendsPage :: "window \<Rightarrow> bool" where
  "isBackendsPage w \<longleftrightarrow> w_page w = Some (BACKENDS_PATH w)"

text \<open>\<open>document.getElementById(i).textContent = s\<close> inside the container.\<close>

fun set_text_of_id :: "ustr \<Rightarrow> ustr \<Rightarrow> html \<Rightarrow> html" where
  "set_text_of_id i s (Text t) = Text t"
| "set_text_of_id i s (Void t as) = Void t as"
| "set_text_of_id i s (Elem t as cs) =
     (if attr_get (L ''id'') as = Some i then Elem t as [Text s] else Elem t as (map (set_text_of_id i s) cs))"

definition loadBackendsData :: "backends_page \<Rightarrow> backends_page" where
  "loadBackendsData p =
     p\<lparr>b_root := map_option (map_option (map (set_text_of_id (L ''proxeus-backends-status'') (L ''Refreshing...'')))) (b_root p),
       b_inflight := b_inflight p @ [b_issued p],
       b_issued := Suc (b_issued p)\<rparr>"

definition renderBackendsPage :: "backends_page \<Rightarrow> backends_page" where
  "renderBackendsPage p =
     (if \<not> isBackendsPage (b_window p) then p
      else if \<not> b_main p then p
      else
        (let p = (if b_root p = None
                  then p\<lparr>b_root := Some (Some []), b_rendered := True, b_window := (b_window p)\<lparr>w_navReady := True\<rparr>\<rparr>
                  else p)
         in if \<not> b_interval p then (loadBackendsData p)\<lparr>b_interval := True\<rparr> else p))"

definition nav_observe :: "backends_page \<Rightarrow> backends_page" where
  "nav_observe p =
     (if \<not> b_rendered p \<and> w_pathname (b_window p) = BACKENDS_PATH (b_window p) then renderBackendsPage p else p)"

text \<open>A response: rejected or not JSON (the exception), or a body. The status is not looked at.\<close>

type_synonym nav_response = "js_error + inventory"

definition nav_settle :: "host \<Rightarrow> nav_response \<Rightarrow> backends_page \<Rightarrow> backends_page" where
  "nav_settle h r p =
     p\<lparr>b_root := map_option (\<lambda>_. parse (case r of Inl e \<Rightarrow> nav_error_html (err_string e)
                                          | Inr data \<Rightarrow> renderBackendsData h data)) (b_root p)\<rparr>"

datatype nav_event =
    Mounted
  | Mutation
  | Timer
  | Answer host nat nav_response
  | Push ustr

fun nav_step :: "nav_event \<Rightarrow> backends_page \<Rightarrow> backends_page" where
  "nav_step Mounted p = p\<lparr>b_main := True\<rparr>"
| "nav_step Mutation p = nav_observe p"
| "nav_step Timer p = (if b_interval p then loadBackendsData p else p)"
| "nav_step (Answer h i r) p =
     (if i \<in> set (b_inflight p) then (nav_settle h r p)\<lparr>b_inflight := remove1 i (b_inflight p)\<rparr> else p)"
| "nav_step (Push u) p = p\<lparr>b_window := pushState u (b_window p)\<rparr>"

text \<open>The document as head.js and nav.js find it when they load at a path.\<close>

definition shell_window :: "ustr \<Rightarrow> ustr \<Rightarrow> window" where
  "shell_window PREFIX pathname =
     head_init \<lparr>w_prefix = PREFIX, w_pathname = pathname, w_page = None, w_navReady = False, w_wrapped = False,
                w_entries = [pathname]\<rparr>"

definition shell_page :: "ustr \<Rightarrow> ustr \<Rightarrow> backends_page" where
  "shell_page PREFIX pathname =
     \<lparr>b_main = False, b_root = None, b_rendered = False, b_interval = False,
      b_window = shell_window PREFIX pathname, b_inflight = [], b_issued = 0\<rparr>"

text \<open>Loading nav.js, which also renders at once in case React has already mounted \<open>main\<close>.\<close>

definition nav_boot :: "ustr \<Rightarrow> ustr \<Rightarrow> bool \<Rightarrow> backends_page" where
  "nav_boot PREFIX pathname mounted =
     (let p = (shell_page PREFIX pathname)\<lparr>b_main := mounted\<rparr>
      in if w_pathname (b_window p) = BACKENDS_PATH (b_window p) then renderBackendsPage p else p)"

section \<open>Facts\<close>

interpretation backends_once: observer_callback nav_observe "\<lambda>_. True"
proof unfold_locales
  fix p
  show "nav_observe (nav_observe p) = nav_observe p"
    by (auto simp: nav_observe_def renderBackendsPage_def loadBackendsData_def isBackendsPage_def
        BACKENDS_PATH_def Let_def)
qed simp

definition nav_rendered :: "host \<times> nav_response \<Rightarrow> html list option option option" where
  "nav_rendered hr =
     Some (Some (parse (case snd hr of Inl e \<Rightarrow> nav_error_html (err_string e)
                        | Inr data \<Rightarrow> renderBackendsData (fst hr) data)))"

interpretation nav_view: response_view "\<lambda>(h, r). nav_settle h r" b_root nav_rendered "\<lambda>p. b_root p \<noteq> None"
proof unfold_locales
  fix p :: backends_page and hr :: "host \<times> nav_response"
  assume p: "b_root p \<noteq> None"
  show "b_root ((case hr of (h, r) \<Rightarrow> nav_settle h r) p) \<noteq> None" using p by (cases hr) (simp add: nav_settle_def)
  show "b_root ((case hr of (h, r) \<Rightarrow> nav_settle h r) p) =
      (case nav_rendered hr of Some v \<Rightarrow> v | None \<Rightarrow> b_root p)"
    using p by (cases hr) (auto simp: nav_settle_def nav_rendered_def split: sum.split)
qed

lemma shell_window_page:
  "strip_slash path = P @ L ''/backends'' \<Longrightarrow> w_page (shell_window P path) = Some (P @ L ''/backends'')"
  "strip_slash path = P @ L ''/backends'' \<Longrightarrow> w_wrapped (shell_window P path)"
  "w_prefix (shell_window P path) = P" "w_pathname (shell_window P path) = path"
  "\<not> w_navReady (shell_window P path)"
  using head_page_Some [of P path "P @ L ''/backends''"]
  by (auto simp: shell_window_def head_init_def split: option.split)

text \<open>
  On a page where head.js holds navigation back, it stays held back until the container
  exists, and then polling has started; the number of requests made is the number of
  loads.
\<close>

definition nav_inv :: "backends_page \<Rightarrow> bool" where
  "nav_inv p \<longleftrightarrow>
     (w_navReady (b_window p) \<longrightarrow> b_root p \<noteq> None \<and> b_interval p) \<and>
     (b_rendered p \<longleftrightarrow> b_root p \<noteq> None) \<and> (b_interval p \<longrightarrow> b_rendered p) \<and> (b_rendered p \<longrightarrow> w_navReady (b_window p)) \<and>
     distinct (b_inflight p) \<and> (\<forall>i \<in> set (b_inflight p). i < b_issued p) \<and>
     (0 < b_issued p \<longleftrightarrow> b_interval p)"

lemma nav_inv_shell: "nav_inv (shell_page P path)"
  by (simp add: nav_inv_def shell_page_def shell_window_page)

lemma pushState_frame [simp]:
  "w_navReady (pushState u w) = w_navReady w" "w_page (pushState u w) = w_page w"
  "w_prefix (pushState u w) = w_prefix w"
  by (simp_all add: pushState_def)

lemma nav_inv_load: "nav_inv p \<Longrightarrow> b_interval p \<Longrightarrow> nav_inv (loadBackendsData p)"
  by (fastforce simp: nav_inv_def loadBackendsData_def)

lemma nav_inv_render: "nav_inv p \<Longrightarrow> nav_inv (renderBackendsPage p)"
  by (auto simp: nav_inv_def renderBackendsPage_def loadBackendsData_def Let_def)

lemma nav_inv_step: "nav_inv p \<Longrightarrow> nav_inv (nav_step e p)"
proof (cases e)
  case Mounted
  then show "nav_inv p \<Longrightarrow> ?thesis" by (auto simp: nav_inv_def)
next
  case Mutation
  then show "nav_inv p \<Longrightarrow> ?thesis" by (simp add: nav_observe_def nav_inv_render)
next
  case Timer
  then show "nav_inv p \<Longrightarrow> ?thesis" by (simp add: nav_inv_load)
next
  case (Answer h i r)
  then show "nav_inv p \<Longrightarrow> ?thesis"
    by (auto simp: nav_inv_def nav_settle_def dest: notin_set_remove1)
next
  case (Push u)
  then show "nav_inv p \<Longrightarrow> ?thesis" by (auto simp: nav_inv_def)
qed

lemma nav_inv_boot: "nav_inv (nav_boot P path mounted)"
proof -
  have "nav_inv ((shell_page P path)\<lparr>b_main := mounted\<rparr>)" using nav_inv_shell [of P path] by (auto simp: nav_inv_def)
  then show ?thesis by (simp add: nav_boot_def Let_def nav_inv_render)
qed

lemma nav_inv_run: "nav_inv p \<Longrightarrow> nav_inv (fold nav_step es p)"
  by (induction es arbitrary: p) (simp_all add: nav_inv_step)

text \<open>Where the path is not the backends path itself, the observer never renders.\<close>

definition nav_idle :: "backends_page \<Rightarrow> bool" where
  "nav_idle p \<longleftrightarrow> w_pathname (b_window p) \<noteq> BACKENDS_PATH (b_window p) \<and> b_root p = None \<and> \<not> b_interval p \<and>
     w_wrapped (b_window p) \<and> \<not> w_navReady (b_window p)"

lemma nav_idle_step: "nav_idle p \<Longrightarrow> nav_idle (nav_step e p)"
  by (cases e) (auto simp: nav_idle_def nav_observe_def nav_settle_def BACKENDS_PATH_def pushState_def)

lemma nav_idle_run: "nav_idle p \<Longrightarrow> nav_idle (fold nav_step es p)"
  by (induction es arbitrary: p) (simp_all add: nav_idle_step)

lemma held_back_step: "nav_idle p \<Longrightarrow> w_entries (b_window (nav_step e p)) = w_entries (b_window p)"
  by (cases e) (auto simp: nav_idle_def nav_observe_def nav_settle_def pushState_def)

lemma held_back_run: "nav_idle p \<Longrightarrow> w_entries (b_window (fold nav_step es p)) = w_entries (b_window p)"
  by (induction es rule: rev_induct) (simp_all add: held_back_step nav_idle_run)

section \<open>Properties\<close>

text \<open>
  C37: On a page of the shell, whatever happens in whatever order: navigation is released only once the
  container exists, and then polling has started; a container means polling has started; and
  requests have been made exactly if polling has started.
\<close>

theorem backends_page_invariant:
  "let p = fold nav_step es (nav_boot P path mounted) in
     (w_navReady (b_window p) \<longleftrightarrow> b_root p \<noteq> None) \<and> (w_navReady (b_window p) \<longrightarrow> b_interval p) \<and>
     (0 < b_issued p \<longleftrightarrow> b_interval p) \<and> distinct (b_inflight p) \<and> (\<forall>i \<in> set (b_inflight p). i < b_issued p)"
  using nav_inv_run [OF nav_inv_boot, of es P path mounted] unfolding Let_def nav_inv_def by blast

theorem backends_page_invariant_witness:
  "(0 < b_issued (fold nav_step [Mounted, Mutation] (nav_boot [] (L ''/backends'') False))) =
     b_interval (fold nav_step [Mounted, Mutation] (nav_boot [] (L ''/backends'') False))"
  using backends_page_invariant [of "[Mounted, Mutation]" "[]" "L ''/backends''" False] unfolding Let_def by blast

definition nav_waiting :: "ustr \<Rightarrow> backends_page \<Rightarrow> bool" where
  "nav_waiting P p \<longleftrightarrow>
     (b_root p \<noteq> None \<and> b_interval p \<and> w_navReady (b_window p)) \<or>
     (b_root p = None \<and> \<not> b_rendered p \<and> \<not> b_interval p \<and> b_window p = shell_window P (P @ L ''/backends''))"

lemma shell_window_backends:
  "w_page (shell_window P (P @ L ''/backends'')) = Some (BACKENDS_PATH (shell_window P (P @ L ''/backends'')))"
  "w_pathname (shell_window P (P @ L ''/backends'')) = BACKENDS_PATH (shell_window P (P @ L ''/backends''))"
  "pushState u (shell_window P (P @ L ''/backends'')) = shell_window P (P @ L ''/backends'')"
  using shell_window_page(1,2) [of "P @ L ''/backends''" P]
  by (simp_all add: BACKENDS_PATH_def shell_window_page(3-5) pushState_def del: L.simps)

lemma nav_waiting_step: "nav_waiting P p \<Longrightarrow> nav_waiting P (nav_step e p) \<and> (b_main p \<longrightarrow> b_main (nav_step e p))"
proof (cases e)
  case Mutation
  assume "nav_waiting P p"
  with Mutation show ?thesis
    using shell_window_backends(1,2) [of P]
    by (auto simp: nav_waiting_def nav_observe_def renderBackendsPage_def loadBackendsData_def isBackendsPage_def Let_def)
next
  case (Push u)
  assume "nav_waiting P p"
  with Push show ?thesis using shell_window_backends(3) [of u P] by (auto simp: nav_waiting_def)
qed (auto simp: nav_waiting_def loadBackendsData_def nav_settle_def)

lemma nav_waiting_run:
  "nav_waiting P p \<Longrightarrow> nav_waiting P (fold nav_step es p) \<and> (b_main p \<longrightarrow> b_main (fold nav_step es p))"
  by (induction es arbitrary: p) (use nav_waiting_step in \<open>auto simp del: not_None_eq\<close>)

lemma nav_mutation_renders:
  "nav_waiting P p \<Longrightarrow> b_main p \<Longrightarrow> b_root (nav_step Mutation p) \<noteq> None"
  using shell_window_backends(1,2) [of P]
  by (auto simp: nav_waiting_def nav_observe_def renderBackendsPage_def loadBackendsData_def isBackendsPage_def Let_def)

lemma nav_root_step: "b_root p \<noteq> None \<Longrightarrow> b_root (nav_step e p) \<noteq> None"
  by (cases e) (auto simp: nav_observe_def renderBackendsPage_def loadBackendsData_def nav_settle_def Let_def)

lemma nav_root_run: "b_root p \<noteq> None \<Longrightarrow> b_root (fold nav_step es p) \<noteq> None"
proof (induction es arbitrary: p)
  case (Cons e es)
  from Cons.IH [OF nav_root_step [OF Cons.prems]] show ?case by simp
qed simp

lemma nav_waiting_boot: "nav_waiting P (nav_boot P (P @ L ''/backends'') mounted)"
proof -
  have "nav_waiting P ((shell_page P (P @ L ''/backends''))\<lparr>b_main := mounted\<rparr>)"
    by (simp add: nav_waiting_def shell_page_def)
  then show ?thesis
    using shell_window_backends(1,2) [of P]
    by (auto simp: nav_boot_def nav_waiting_def renderBackendsPage_def loadBackendsData_def isBackendsPage_def Let_def)
qed

text \<open>
  C18: The Backends page opened at its own path does appear: once React has mounted \<open>main\<close> and a mutation is
  observed afterwards, the container exists, polling runs and navigation is released, whatever
  navigation the router attempted before.
\<close>

theorem backends_page_appears:
  "let p = fold nav_step (es1 @ [Mounted] @ es2 @ [Mutation] @ es3) (nav_boot P (P @ L ''/backends'') mounted) in
     b_root p \<noteq> None \<and> b_interval p \<and> w_navReady (b_window p)"
proof -
  let ?s = "nav_boot P (P @ L ''/backends'') mounted"
  have w0: "nav_waiting P ?s" by (rule nav_waiting_boot)
  define p1 where "p1 = fold nav_step (es1 @ [Mounted]) ?s"
  have w1: "nav_waiting P p1" using nav_waiting_run [OF w0] unfolding p1_def by blast
  have m1: "b_main p1" by (simp add: p1_def)
  define p2 where "p2 = fold nav_step es2 p1"
  have w2: "nav_waiting P p2" "b_main p2" using nav_waiting_run [OF w1, of es2] m1 unfolding p2_def by blast+
  define p3 where "p3 = fold nav_step es3 (nav_step Mutation p2)"
  have "b_root p3 \<noteq> None" unfolding p3_def by (rule nav_root_run [OF nav_mutation_renders [OF w2]])
  moreover have "nav_waiting P p3" using nav_waiting_run [of P "nav_step Mutation p2" es3] nav_waiting_step [OF w2(1)] unfolding p3_def by blast
  moreover have "fold nav_step (es1 @ [Mounted] @ es2 @ [Mutation] @ es3) ?s = p3" by (simp add: p3_def p2_def p1_def)
  ultimately show ?thesis unfolding Let_def nav_waiting_def by auto
qed

lemma boot_with_slash:
  "nav_boot P (P @ L ''/backends/'') mounted = (shell_page P (P @ L ''/backends/''))\<lparr>b_main := mounted\<rparr>"
  by (simp add: nav_boot_def shell_page_def BACKENDS_PATH_def shell_window_page(3,4) Let_def)

lemma boot_with_slash_idle: "nav_idle (nav_boot P (P @ L ''/backends/'') mounted)"
  using shell_window_page(1,2) [OF strip_slash_page(3), of P]
  unfolding boot_with_slash by (simp add: nav_idle_def shell_page_def BACKENDS_PATH_def shell_window_page(3-5))

text \<open>
  Opened with a trailing slash, the Backends page never appears, although head.js takes the path for the
  page's: no sequence of events renders it or releases navigation, and no history entry is ever added.
\<close>

lemma trailing_slash_never_renders:
  "let p = fold nav_step es (nav_boot P (P @ L ''/backends/'') mounted) in
     w_page (b_window p) = Some (P @ L ''/backends'') \<and> b_root p = None \<and> \<not> w_navReady (b_window p) \<and>
     w_entries (b_window p) = [P @ L ''/backends/'']"
proof -
  let ?s = "nav_boot P (P @ L ''/backends/'') mounted"
  have sp: "strip_slash (P @ L ''/backends/'') = P @ L ''/backends''" by (rule strip_slash_page)
  have pg: "w_page (b_window (nav_step e p)) = w_page (b_window p)" for e p
    by (cases e) (auto simp: nav_observe_def renderBackendsPage_def loadBackendsData_def nav_settle_def Let_def pushState_def)
  have pgs: "w_page (b_window (fold nav_step es p)) = w_page (b_window p)" for p
    by (induction es arbitrary: p) (simp_all add: pg)
  note boot = boot_with_slash [of P mounted] and idle = boot_with_slash_idle [of P mounted]
  have "w_entries (b_window ?s) = [P @ L ''/backends/'']"
    unfolding boot by (simp add: shell_page_def shell_window_def head_init_def split: option.split)
  moreover have "w_page (b_window ?s) = Some (P @ L ''/backends'')"
    using shell_window_page(1) [OF sp] unfolding boot by (simp add: shell_page_def)
  ultimately show ?thesis using nav_idle_run [OF idle, of es] held_back_run [OF idle, of es] pgs [of ?s]
    unfolding Let_def nav_idle_def by metis
qed

text \<open>
  After any sequence of responses to the Backends page, the container shows the last one to arrive: the
  snapshot it brought, or the text of its failure.
\<close>

lemma backends_last_response_shown:
  assumes "b_root p \<noteq> None" "esc_html (locale_time h (clock h)) = locale_time h (clock h)"
  shows "b_root (fold (\<lambda>(h, r). nav_settle h r) (earlier @ [(h, Inr data)]) p) = Some (Some (tidy (nav_trees h data))) \<and>
    b_root (fold (\<lambda>(h, r). nav_settle h r) (earlier @ [(h, Inl e)]) p) = Some (parse (nav_error_html (err_string e)))"
proof -
  have l: "b_root (fold (\<lambda>(h, r). nav_settle h r) (earlier @ (h, r) # []) p) = Some (parse (case r of
      Inl e \<Rightarrow> nav_error_html (err_string e) | Inr data \<Rightarrow> renderBackendsData h data))" for r
    by (rule nav_view.view_last_success [OF assms(1)]) (simp_all add: nav_rendered_def split: sum.split)
  show ?thesis
    using l [of "Inr data"] l [of "Inl e"]
    by (simp add: emit_nav [OF assms(2)] nav.parse_ser [OF nav_trees_ok])
qed

end
