(* ===== verification/NavShell.thy ===== *)
theory NavShell
  imports NavHeader NavBackends
begin

text \<open>
  The whole of nav.js's mutation observer (\<open>cmd/proxeus/ui/nav.js\<close>): one callback that
  customises the header, every open menu and the page, on the document the three parts
  share with React.
\<close>

record shell =
  sh_nav :: nav_page
  sh_menus :: "menu list"
  sh_page :: backends_page

definition nav_callback :: "shell \<Rightarrow> shell" where
  "nav_callback s =
     (let w = b_window (sh_page s)
      in s\<lparr>sh_nav := customiseHeader w (sh_nav s), sh_menus := customiseDropdown w (sh_menus s),
           sh_page := nav_observe (sh_page s)\<rparr>)"

text \<open>
  What happens to the document: React replaces the links, opens or closes menus, mounts
  \<open>main\<close>; the page's own events; after every change the observer runs.
\<close>

datatype shell_event = Links "header option" "nav_link list" | Menus "menu list" | PageEvent nav_event

fun shell_step :: "shell_event \<Rightarrow> shell \<Rightarrow> shell" where
  "shell_step (Links hdr ls) s = nav_callback (s\<lparr>sh_nav := (sh_nav s)\<lparr>n_header := hdr, n_links := ls\<rparr>\<rparr>)"
| "shell_step (Menus ms) s = nav_callback (s\<lparr>sh_menus := ms\<rparr>)"
| "shell_step (PageEvent e) s = nav_callback (s\<lparr>sh_page := nav_step e (sh_page s)\<rparr>)"

definition shell_boot :: "ustr \<Rightarrow> ustr \<Rightarrow> bool \<Rightarrow> header option \<Rightarrow> nav_link list \<Rightarrow> menu list \<Rightarrow> shell" where
  "shell_boot PREFIX pathname mounted hdr ls ms =
     (let p = nav_boot PREFIX pathname mounted; w = b_window p
      in \<lparr>sh_nav = customiseHeader w \<lparr>n_header = hdr, n_links = ls, n_headerDone = False\<rparr>,
          sh_menus = customiseDropdown w ms, sh_page = p\<rparr>)"

section \<open>The parts do not disturb each other\<close>

lemma nav_observe_window:
  "w_page (b_window (nav_observe p)) = w_page (b_window p)" "w_prefix (b_window (nav_observe p)) = w_prefix (b_window p)"
  by (auto simp: nav_observe_def renderBackendsPage_def loadBackendsData_def Let_def)

lemma fix_if_page_window: "w_page w = w_page w' \<Longrightarrow> w_prefix w = w_prefix w' \<Longrightarrow> fix_if_page w = fix_if_page w'"
  by (intro ext, cases "w_page w'") (simp_all add: fix_if_page_def)

lemma custom_window:
  assumes "w_page w = w_page w'" "w_prefix w = w_prefix w'"
  shows "customiseHeader w = customiseHeader w'" "customiseDropdown w = customiseDropdown w'"
proof -
  note f = fix_if_page_window [OF assms]
  have l: "custom_link w = custom_link w'" unfolding custom_link_def [abs_def] f by (rule refl)
  have "fix_node w = fix_node w'" "inject_links w = inject_links w'"
    unfolding fix_node_def [abs_def] inject_links_def [abs_def] f assms(2) by (rule refl)+
  then have "customise_menu w mn = customise_menu w' mn" for mn by (simp only: customise_menu_def)
  then show "customiseDropdown w = customiseDropdown w'" by (intro ext) (simp add: customiseDropdown_def)
  show "customiseHeader w = customiseHeader w'" unfolding customiseHeader_def [abs_def] l assms(2) by (rule refl)
qed

interpretation shell_once: observer_callback nav_callback "\<lambda>_. True"
proof unfold_locales
  fix s :: shell
  let ?w = "b_window (sh_page s)" and ?w' = "b_window (nav_observe (sh_page s))"
  have "customiseHeader ?w' (customiseHeader ?w (sh_nav s)) = customiseHeader ?w (sh_nav s)"
    "customiseDropdown ?w' (customiseDropdown ?w (sh_menus s)) = customiseDropdown ?w (sh_menus s)"
    using custom_window [OF nav_observe_window] header_once.settled dropdown_once.settled by metis+
  then show "nav_callback (nav_callback s) = nav_callback s"
    using backends_once.settled [of "sh_page s"] by (simp add: nav_callback_def Let_def)
qed simp

text \<open>The page part of the shell runs as the page alone does, with a mutation after every event.\<close>

fun page_events :: "shell_event \<Rightarrow> nav_event list" where
  "page_events (PageEvent e) = [e, Mutation]"
| "page_events _ = [Mutation]"

lemma shell_page_step: "sh_page (shell_step e s) = fold nav_step (page_events e) (sh_page s)"
  by (cases e) (simp_all add: nav_callback_def Let_def)

lemma shell_page_run:
  "sh_page (fold shell_step es s) = fold nav_step (concat (map page_events es)) (sh_page s)"
  by (induction es arbitrary: s) (simp_all add: shell_page_step)

lemma nav_step_window: "w_page (b_window (nav_step e p)) = w_page (b_window p) \<and> w_prefix (b_window (nav_step e p)) = w_prefix (b_window p)"
  using nav_observe_window [of p]
  by (cases e) (simp_all add: loadBackendsData_def nav_settle_def)

lemma shell_step_window:
  "w_page (b_window (sh_page (shell_step e s))) = w_page (b_window (sh_page s)) \<and>
   w_prefix (b_window (sh_page (shell_step e s))) = w_prefix (b_window (sh_page s))"
  using nav_step_window nav_observe_window by (cases e) (simp_all add: nav_callback_def Let_def)

section \<open>Every open menu is customised\<close>

definition menus_done :: "shell \<Rightarrow> bool" where
  "menus_done s \<longleftrightarrow> list_all mn_processed (sh_menus s)"

lemma menu_done: "mn_processed (customise_menu w mn)"
  by (simp add: customise_menu_def Let_def)

lemma menus_done_callback: "menus_done (nav_callback s)"
  by (simp add: menus_done_def nav_callback_def Let_def customiseDropdown_def list_all_iff menu_done)

lemma menus_done_step: "menus_done (shell_step e s)"
  by (cases e) (simp_all add: menus_done_callback)

lemma boot_window: "w_page (b_window (nav_boot P path m)) = w_page (shell_window P path)" "w_prefix (b_window (nav_boot P path m)) = P"
  by (auto simp: nav_boot_def shell_page_def renderBackendsPage_def loadBackendsData_def Let_def shell_window_page(3))

section \<open>Properties\<close>

text \<open>
  C17: The observer of nav.js wakes itself with what its callback changes, but that always ends at once: after any
  sequence of changes and events the callback has nothing left to do, every open menu is
  customised, and the page part is where the page alone would be.
\<close>

theorem shell_observer_settles:
  "let s = fold shell_step (es @ [e]) (shell_boot P path mounted hdr ls ms) in
     nav_callback s = s \<and> list_all mn_processed (sh_menus s) \<and>
     sh_page s = fold nav_step (concat (map page_events (es @ [e]))) (nav_boot P path mounted)"
proof -
  let ?boot = "shell_boot P path mounted hdr ls ms" and ?s = "fold shell_step es (shell_boot P path mounted hdr ls ms)"
  have "nav_callback (shell_step e ?s) = shell_step e ?s" using shell_once.settled by (cases e) simp_all
  moreover have "list_all mn_processed (sh_menus (shell_step e ?s))" using menus_done_step by (simp add: menus_done_def)
  moreover have "sh_page ?boot = nav_boot P path mounted" by (simp add: shell_boot_def Let_def)
  ultimately show ?thesis using shell_page_run [of "es @ [e]" ?boot] unfolding Let_def by simp
qed

end
