(* ===== verification/CardView.thy ===== *)
theory CardView
  imports Html JsDate
begin

text \<open>
  What the Cardinality page (\<open>cmd/proxeus/ui/cardinality.js\<close>) shows: number, byte and
  coverage texts, the page skeleton with its filter form, and one card per backend
  group, as the strings the script builds and as the trees they denote. The data is
  \<open>cardinality.json\<close> as the Go handler marshals it; a field Go omits when empty is
  absent here, and the top-N lists are the object's list-valued properties by name.
\<close>

section \<open>The data\<close>

record stat =
  st_name :: ustr
  st_value :: int

record coverage =
  cv_kind :: ustr
  cv_minTime :: "int option"
  cv_maxTime :: "int option"
  cv_date :: "ustr option"

record cgroup =
  c_name :: ustr
  c_backendType :: ustr
  c_target :: ustr
  c_error :: ustr
  c_notApplied :: "ustr list option"
  c_partial :: bool
  c_coverage :: "coverage option"
  c_totalSeries :: int
  c_totalLabelValuePairs :: int
  c_lists :: "(ustr \<times> stat list) list"

record filters =
  f_topN :: ustr
  f_match :: ustr
  f_focusLabel :: ustr
  f_date :: ustr

section \<open>Texts\<close>

definition C_TEXT :: ustr where "C_TEXT = L ''color:var(--mantine-color-text);''"
definition C_MUTED :: ustr where "C_MUTED = L ''color:var(--mantine-color-dimmed);''"
definition C_ERR :: ustr where "C_ERR = L ''color:var(--mantine-color-red-text, #fa5252);''"
definition C_BORDER :: ustr where "C_BORDER = L ''1px solid var(--mantine-color-default-border)''"
definition C_TINT :: ustr where "C_TINT = L ''background:var(--mantine-color-gray-light);''"
definition C_MONO :: ustr where "C_MONO = L ''font-family:var(--mantine-font-family-monospace);''"
definition C_CELL :: ustr where
  "C_CELL = L ''padding:6px 12px;text-align:left;vertical-align:top;border-bottom:'' @ C_BORDER @
     L '';overflow-wrap:anywhere;''"
definition C_INPUT :: ustr where
  "C_INPUT = L ''padding:6px 8px;border:'' @ C_BORDER @ L '';border-radius:4px;background:var(--mantine-color-body);'' @
     C_TEXT @ L ''font-size:0.85rem;''"

definition LISTS :: "(ustr \<times> ustr \<times> ustr \<times> ustr) list" where
  "LISTS =
     [(L ''seriesCountByMetricName'', L ''Series by metric name'', L ''Metric'', L ''Series''),
      (L ''seriesCountByLabelValuePair'', L ''Series by label=value pair'', L ''Pair'', L ''Series''),
      (L ''labelValueCountByLabelName'', L ''Values per label name'', L ''Label'', L ''Values''),
      (L ''seriesCountByLabelName'', L ''Series by label name'', L ''Label'', L ''Series''),
      (L ''seriesCountByFocusLabelValue'', L ''Series by focus label value'', L ''Value'', L ''Series''),
      (L ''memoryInBytesByLabelName'', L ''Memory by label name'', L ''Label'', L ''Bytes'')]"

definition FILTER_NAMES :: "(ustr \<times> ustr) list" where
  "FILTER_NAMES = [(L ''match[]'', L ''series filter''), (L ''focusLabel'', L ''focus label''), (L ''date'', L ''date'')]"

definition card_escHtml :: "ustr \<Rightarrow> ustr" where
  "card_escHtml s =
     replace_unit (ch (CHR 0x22)) (L ''&quot;'')
       (replace_unit (ch (CHR ''>'')) (L ''&gt;'')
         (replace_unit (ch (CHR ''<'')) (L ''&lt;'')
           (replace_unit (ch (CHR ''&'')) (L ''&amp;'') s)))"

definition card_num :: "host \<Rightarrow> int \<Rightarrow> ustr" where
  "card_num h n = locale_int h n"

definition byte_units :: "string list" where
  "byte_units = [''B'', ''KiB'', ''MiB'', ''GiB'', ''TiB'']"

function bytes_loop :: "nat \<Rightarrow> rat \<Rightarrow> nat \<times> rat" where
  "bytes_loop i n =
     (if 1024 \<le> n \<and> i < length byte_units - 1 then bytes_loop (Suc i) (n / 1024) else (i, n))"
  by pat_completeness auto
termination
  by (relation "measure (\<lambda>(i, n). length byte_units - i)") auto

declare bytes_loop.simps [simp del]

definition card_bytes :: "int \<Rightarrow> ustr" where
  "card_bytes v =
     (let (i, n) = bytes_loop 0 (of_int v)
      in (if i = 0 then show_int v else to_fixed 1 n) @ L '' '' @ L (byte_units ! i))"

text \<open>A time value beyond 8.64e15 ms, or an absent one, is an invalid date.\<close>

definition card_time :: "host \<Rightarrow> int option \<Rightarrow> ustr" where
  "card_time h ms =
     (case ms of None \<Rightarrow> L ''Invalid Date''
      | Some t \<Rightarrow> if \<bar>t\<bar> \<le> 8640000000000000 then locale_datetime h t else L ''Invalid Date'')"

definition card_colors :: "(ustr \<times> ustr) list" where
  "card_colors =
     [(L ''thanos'', L ''#4dabf7''), (L ''victoriametrics'', L ''#51cf66''), (L ''cortex'', L ''#f783ac''),
      (L ''mimir'', L ''#cc5de8''), (L ''prometheus'', L ''#e67700'')]"

definition card_badgeColor :: "host \<Rightarrow> ustr \<Rightarrow> ustr" where
  "card_badgeColor h btype =
     (case obj_get card_colors (to_lower h (or_else btype [])) of Some c \<Rightarrow> c | None \<Rightarrow> L ''#868e96'')"

definition coverageText :: "host \<Rightarrow> cgroup \<Rightarrow> ustr" where
  "coverageText h g =
     (case c_coverage g of None \<Rightarrow> []
      | Some c \<Rightarrow>
        if cv_kind c = L ''head''
        then L ''Head block: '' @ card_time h (cv_minTime c) @ L '' to '' @ card_time h (cv_maxTime c)
        else (let s = L ''Index for '' @ (case cv_date c of None \<Rightarrow> L ''undefined'' | Some d \<Rightarrow> d) @ L '' (UTC)''
              in if or_else (c_backendType g) [] = L ''victoriametrics''
                 then s @ L ''; a cluster sums its storage nodes, so counts can be upper bounds'' else s))"

section \<open>The string builders\<close>

definition card_field :: "ustr \<Rightarrow> ustr \<Rightarrow> ustr \<Rightarrow> ustr \<Rightarrow> ustr \<Rightarrow> ustr" where
  "card_field i label value attrs style =
     L ''<label style=\"display:flex;flex-direction:column;gap:4px;font-size:0.75rem;'' @ C_MUTED @ L ''\">'' @ label @
     L ''<input id=\"'' @ i @ L ''\" value=\"'' @ card_escHtml value @ L ''\" '' @ attrs @
     L '' style=\"'' @ C_INPUT @ or_else style [] @ L ''\"></label>''"

definition card_skeleton :: "filters \<Rightarrow> ustr" where
  "card_skeleton f =
     L ''<div style=\"display:flex;align-items:center;justify-content:space-between;margin-bottom:16px;\">'' @
     L ''<h2 style=\"margin:0;font-size:1.25rem;font-weight:600;'' @ C_TEXT @ L ''\">Cardinality</h2>'' @
     L ''<span id=\"proxeus-cardinality-status\" style=\"font-size:0.75rem;'' @ C_MUTED @ L ''\"></span>'' @
     L ''</div>'' @
     L ''<form id=\"proxeus-cardinality-form\" style=\"display:flex;flex-wrap:wrap;align-items:flex-end;gap:12px;margin-bottom:8px;\">'' @
     card_field (L ''proxeus-cardinality-topn'') (L ''Top N'') (f_topN f)
       (L ''type=\"number\" min=\"1\" max=\"1000\"'') (L ''width:90px;'') @
     card_field (L ''proxeus-cardinality-match'') (L ''Series filter (match[])'') (f_match f)
       (L ''type=\"text\" placeholder=\"{job=&quot;node&quot;}\" spellcheck=\"false\"'') [] @
     card_field (L ''proxeus-cardinality-focus'') (L ''Focus label'') (f_focusLabel f)
       (L ''type=\"text\" placeholder=\"instance\" spellcheck=\"false\"'') [] @
     card_field (L ''proxeus-cardinality-date'') (L ''Date (UTC)'') (f_date f) (L ''type=\"date\"'') [] @
     L ''<button id=\"proxeus-cardinality-apply\" type=\"submit\" style=\"padding:7px 16px;border:none;border-radius:4px;'' @
     L ''background:var(--mantine-color-blue-filled, #228be6);color:#fff;font-size:0.85rem;cursor:pointer;\">Apply</button>'' @
     L ''</form>'' @
     L ''<p style=\"margin:0 0 16px;font-size:0.8rem;'' @ C_MUTED @ L ''\">Each backend is shown separately: series kept by more than one '' @
     L ''backend would be counted twice in a sum. Series filter, focus label and date apply to VictoriaMetrics only.</p>'' @
     L ''<div id=\"proxeus-cardinality-groups\"></div>''"

definition list_row :: "host \<Rightarrow> ustr \<Rightarrow> stat \<Rightarrow> ustr" where
  "list_row h field r =
     L ''<tr><td style=\"'' @ C_CELL @ C_TEXT @ C_MONO @ L ''\">'' @ card_escHtml (st_name r) @ L ''</td>'' @
     L ''<td style=\"'' @ C_CELL @ C_TEXT @ L ''text-align:right;white-space:nowrap;\">'' @
       card_escHtml (if field = L ''memoryInBytesByLabelName'' then card_bytes (st_value r) else card_num h (st_value r)) @
     L ''</td></tr>''"

definition listTable :: "host \<Rightarrow> cgroup \<Rightarrow> (ustr \<times> ustr \<times> ustr \<times> ustr) \<Rightarrow> ustr" where
  "listTable h g list =
     (case list of (field, title, ncol, vcol) \<Rightarrow>
       (let rows = or_empty (map_of (c_lists g) field) in
        if rows = [] then []
        else
          L ''<table data-list=\"'' @ field @ L ''\" style=\"width:100%;table-layout:fixed;border-collapse:collapse;font-size:0.82rem;\">'' @
          L ''<colgroup><col style=\"width:72%\"><col style=\"width:28%\"></colgroup>'' @
          L ''<caption style=\"text-align:left;padding:0 0 6px;font-size:0.85rem;font-weight:600;'' @ C_TEXT @ L ''\">'' @ card_escHtml title @ L ''</caption>'' @
          L ''<thead><tr style=\"'' @ C_TINT @ L ''\">'' @
          L ''<th style=\"'' @ C_CELL @ C_TEXT @ L ''font-weight:600;\">'' @ ncol @ L ''</th>'' @
          L ''<th style=\"'' @ C_CELL @ C_TEXT @ L ''font-weight:600;text-align:right;\">'' @ vcol @ L ''</th>'' @
          L ''</tr></thead><tbody>'' @
          concat (map (list_row h field) rows) @
          L ''</tbody></table>''))"

definition filter_name :: "ustr \<Rightarrow> ustr" where
  "filter_name f = (case obj_get FILTER_NAMES f of Some v \<Rightarrow> v | None \<Rightarrow> f)"

definition card_header :: "host \<Rightarrow> cgroup \<Rightarrow> ustr" where
  "card_header h g =
     L ''<div style=\"padding:12px 16px;'' @ C_TINT @ L ''border-bottom:'' @ C_BORDER @ L '';display:flex;flex-wrap:wrap;align-items:center;gap:8px;\">'' @
     L ''<strong data-group-name style=\"font-size:0.9rem;'' @ C_TEXT @ L ''\">'' @ card_escHtml (c_name g) @ L ''</strong>'' @
     L ''<span style=\"display:inline-block;padding:2px 8px;border-radius:4px;background:'' @ card_badgeColor h (c_backendType g) @
     L '';color:#fff;font-size:0.75rem;font-weight:600;\">'' @ card_escHtml (or_else (c_backendType g) (L ''-'')) @ L ''</span>'' @
     (if c_target g \<noteq> []
      then L ''<span style=\"font-size:0.8rem;'' @ C_MUTED @ C_MONO @ L ''overflow-wrap:anywhere;\">'' @ card_escHtml (c_target g) @ L ''</span>''
      else []) @
     L ''</div>''"

definition card_summary :: "host \<Rightarrow> cgroup \<Rightarrow> ustr" where
  "card_summary h g =
     (if c_error g \<noteq> [] then
        L ''<p data-error style=\"margin:0;font-size:0.85rem;'' @ C_ERR @ L ''overflow-wrap:anywhere;\">'' @ card_escHtml (c_error g) @ L ''</p>''
      else
        L ''<div style=\"font-size:0.85rem;'' @ C_TEXT @ L ''\">Series: <strong data-total-series>'' @ card_escHtml (card_num h (c_totalSeries g)) @
        L ''</strong> '' @ [0xB7] @ L '' Label=value pairs: <strong>'' @ card_escHtml (card_num h (c_totalLabelValuePairs g)) @ L ''</strong></div>'' @
        L ''<div data-coverage style=\"font-size:0.8rem;'' @ C_TEXT @ L ''\">'' @ card_escHtml (coverageText h g) @ L ''</div>'' @
        (if c_partial g
         then L ''<div style=\"font-size:0.8rem;'' @ C_ERR @ L ''\">Partial response: some storage nodes did not answer.</div>''
         else []))"

definition card_notApplied :: "cgroup \<Rightarrow> ustr" where
  "card_notApplied g =
     (if or_empty (c_notApplied g) \<noteq> []
      then L ''<div data-not-applied style=\"font-size:0.8rem;'' @ C_TEXT @ L ''\">Not applied, this backend does not support it: '' @
           card_escHtml (join (L '', '') (map filter_name (or_empty (c_notApplied g)))) @ L ''</div>''
      else [])"

definition card_tables :: "host \<Rightarrow> cgroup \<Rightarrow> ustr" where
  "card_tables h g =
     (if c_error g = [] then
        (let tables = filter (\<lambda>t. t \<noteq> []) (map (listTable h g) LISTS) in
         if tables \<noteq> []
         then L ''<div style=\"display:grid;grid-template-columns:repeat(auto-fill,minmax(min(100%,420px),1fr));gap:16px;margin-top:4px;\">'' @
              join [] (map (\<lambda>t. L ''<div>'' @ t @ L ''</div>'') tables) @ L ''</div>''
         else L ''<p style=\"margin:0;font-size:0.85rem;'' @ C_MUTED @ L ''\">No series.</p>'')
      else [])"

definition card_html :: "host \<Rightarrow> cgroup \<Rightarrow> ustr" where
  "card_html h g =
     L ''<div data-group=\"'' @ card_escHtml (c_name g) @ L ''\" style=\"background:var(--mantine-color-body);border:'' @ C_BORDER @
     L '';border-radius:8px;margin-bottom:16px;overflow:hidden;\">'' @
     card_header h g @
     L ''<div style=\"padding:12px 16px;display:flex;flex-direction:column;gap:8px;\">'' @
     card_summary h g @ card_notApplied g @ card_tables h g @
     L ''</div></div>''"

definition card_groups_html :: "host \<Rightarrow> cgroup list option \<Rightarrow> ustr" where
  "card_groups_html h groups =
     (if or_empty groups \<noteq> [] then join [] (map (card_html h) (or_empty groups))
      else L ''<p style=\"'' @ C_MUTED @ L ''\">No backend groups configured.</p>'')"

definition card_error_html :: "ustr \<Rightarrow> ustr" where
  "card_error_html err = L ''<p style=\"'' @ C_ERR @ L ''\">Failed to load cardinality: '' @ card_escHtml err @ L ''</p>''"

end
