(* ===== verification/CardQuery.thy ===== *)
theory CardQuery
  imports CardView
begin

text \<open>
  The filters of the Cardinality page and the query string its requests carry
  (\<open>cmd/proxeus/ui/cardinality.js\<close>): \<open>URLSearchParams\<close> as the page uses it (reading
  \<open>location.search\<close>, \<open>get\<close>, \<open>set\<close>, \<open>toString\<close>), with the conversion from UTF-16 to
  scalar values and UTF-8 that it performs, and the proof that a query reads back as
  what was set.
\<close>

section \<open>UTF-16 and UTF-8\<close>

definition high_surrogate :: "cu \<Rightarrow> bool" where
  "high_surrogate c \<longleftrightarrow> 0xD800 \<le> unat c \<and> unat c \<le> 0xDBFF"

definition low_surrogate :: "cu \<Rightarrow> bool" where
  "low_surrogate c \<longleftrightarrow> 0xDC00 \<le> unat c \<and> unat c \<le> 0xDFFF"

text \<open>Conversion to scalar values: a surrogate without its partner becomes U+FFFD.\<close>

fun code_points :: "ustr \<Rightarrow> nat list" where
  "code_points [] = []"
| "code_points [c] = [if high_surrogate c \<or> low_surrogate c then 0xFFFD else unat c]"
| "code_points (c # d # s) =
     (if high_surrogate c \<and> low_surrogate d
      then (0x10000 + (unat c - 0xD800) * 0x400 + (unat d - 0xDC00)) # code_points s
      else (if high_surrogate c \<or> low_surrogate c then 0xFFFD else unat c) # code_points (d # s))"

definition utf16_units :: "nat \<Rightarrow> ustr" where
  "utf16_units cp =
     (if cp < 0x10000 then [word_of_nat cp]
      else [word_of_nat (0xD800 + (cp - 0x10000) div 0x400), word_of_nat (0xDC00 + (cp - 0x10000) mod 0x400)])"

definition to_utf16 :: "nat list \<Rightarrow> ustr" where
  "to_utf16 cps = concat (map utf16_units cps)"

text \<open>Every surrogate has its partner.\<close>

fun well_formed16 :: "ustr \<Rightarrow> bool" where
  "well_formed16 [] = True"
| "well_formed16 [c] = (\<not> high_surrogate c \<and> \<not> low_surrogate c)"
| "well_formed16 (c # d # s) =
     (if high_surrogate c then low_surrogate d \<and> well_formed16 s
      else \<not> low_surrogate c \<and> well_formed16 (d # s))"

definition scalar :: "nat \<Rightarrow> bool" where
  "scalar cp \<longleftrightarrow> cp < 0xD800 \<or> 0xE000 \<le> cp \<and> cp < 0x110000"

definition utf8_bytes :: "nat \<Rightarrow> nat list" where
  "utf8_bytes cp =
     (if cp < 0x80 then [cp]
      else if cp < 0x800 then [0xC0 + cp div 64, 0x80 + cp mod 64]
      else if cp < 0x10000 then [0xE0 + cp div 4096, 0x80 + cp div 64 mod 64, 0x80 + cp mod 64]
      else [0xF0 + cp div 262144, 0x80 + cp div 4096 mod 64, 0x80 + cp div 64 mod 64, 0x80 + cp mod 64])"

definition utf8 :: "nat list \<Rightarrow> nat list" where
  "utf8 cps = concat (map utf8_bytes cps)"

text \<open>
  Decoding, malformed input replaced by U+FFFD: the number of continuation bytes still
  needed, the range the next one must lie in, the bits so far. A byte that does not
  continue a sequence ends it and is looked at again.
\<close>

function utf8_go :: "nat \<Rightarrow> nat \<Rightarrow> nat \<Rightarrow> nat \<Rightarrow> nat list \<Rightarrow> nat list" where
  "utf8_go need lo hi cp [] = (if need = 0 then [] else [0xFFFD])"
| "utf8_go need lo hi cp (b # bs) =
     (if need = 0 then
        (if b < 0x80 then b # utf8_go 0 0 0 0 bs
         else if 0xC2 \<le> b \<and> b \<le> 0xDF then utf8_go 1 0x80 0xBF (b - 0xC0) bs
         else if 0xE0 \<le> b \<and> b \<le> 0xEF
         then utf8_go 2 (if b = 0xE0 then 0xA0 else 0x80) (if b = 0xED then 0x9F else 0xBF) (b - 0xE0) bs
         else if 0xF0 \<le> b \<and> b \<le> 0xF4
         then utf8_go 3 (if b = 0xF0 then 0x90 else 0x80) (if b = 0xF4 then 0x8F else 0xBF) (b - 0xF0) bs
         else 0xFFFD # utf8_go 0 0 0 0 bs)
      else if lo \<le> b \<and> b \<le> hi then
        (if need = 1 then (cp * 64 + (b - 0x80)) # utf8_go 0 0 0 0 bs
         else utf8_go (need - 1) 0x80 0xBF (cp * 64 + (b - 0x80)) bs)
      else 0xFFFD # utf8_go 0 0 0 0 (b # bs))"
  by pat_completeness auto
termination
  by (relation "measures [\<lambda>(need, lo, hi, cp, bs). length bs, \<lambda>(need, lo, hi, cp, bs). need]") auto

definition utf8_decode :: "nat list \<Rightarrow> nat list" where
  "utf8_decode bs = utf8_go 0 0 0 0 bs"

section \<open>The form encoding\<close>

definition unreserved :: "nat \<Rightarrow> bool" where
  "unreserved b \<longleftrightarrow> 48 \<le> b \<and> b \<le> 57 \<or> 65 \<le> b \<and> b \<le> 90 \<or> 97 \<le> b \<and> b \<le> 122 \<or> b \<in> {42, 45, 46, 95}"

definition hex_digit :: "nat \<Rightarrow> nat" where
  "hex_digit n = (if n < 10 then 48 + n else 55 + n)"

definition hex_val :: "nat \<Rightarrow> nat option" where
  "hex_val b =
     (if 48 \<le> b \<and> b \<le> 57 then Some (b - 48)
      else if 65 \<le> b \<and> b \<le> 70 then Some (b - 55)
      else if 97 \<le> b \<and> b \<le> 102 then Some (b - 87) else None)"

definition form_byte :: "nat \<Rightarrow> nat list" where
  "form_byte b =
     (if b = 32 then [43] else if unreserved b then [b]
      else [37, hex_digit (b div 16), hex_digit (b mod 16)])"

definition form_escape :: "ustr \<Rightarrow> nat list" where
  "form_escape s = concat (map form_byte (utf8 (code_points s)))"

text \<open>\<open>+\<close> is a space; a \<open>%\<close> without two hexadecimal digits stands for itself.\<close>

fun form_unescape :: "nat list \<Rightarrow> nat list" where
  "form_unescape [] = []"
| "form_unescape (b # x # y # bs) =
     (if b = 43 then 32 # form_unescape (x # y # bs)
      else if b = 37 then
        (case (hex_val x, hex_val y) of (Some h, Some l) \<Rightarrow> (16 * h + l) # form_unescape bs
         | _ \<Rightarrow> 37 # form_unescape (x # y # bs))
      else b # form_unescape (x # y # bs))"
| "form_unescape (b # bs) = (if b = 43 then 32 else b) # form_unescape bs"

fun split_on :: "'a \<Rightarrow> 'a list \<Rightarrow> 'a list list" where
  "split_on c [] = [[]]"
| "split_on c (x # xs) =
     (if x = c then [] # split_on c xs
      else (case split_on c xs of [] \<Rightarrow> [[x]] | w # ws \<Rightarrow> (x # w) # ws))"

section \<open>\<open>URLSearchParams\<close>\<close>

type_synonym search_params = "(ustr \<times> ustr) list"

definition usp_get :: "ustr \<Rightarrow> search_params \<Rightarrow> ustr option" where
  "usp_get k ps = map_of ps k"

text \<open>Replaces the first entry of the name and drops the others, or appends.\<close>

definition usp_set :: "ustr \<Rightarrow> ustr \<Rightarrow> search_params \<Rightarrow> search_params" where
  "usp_set k v ps =
     (if k \<in> fst ` set ps
      then takeWhile (\<lambda>e. fst e \<noteq> k) ps @ (k, v) # filter (\<lambda>e. fst e \<noteq> k) (tl (dropWhile (\<lambda>e. fst e \<noteq> k) ps))
      else ps @ [(k, v)])"

definition usp_toString :: "search_params \<Rightarrow> ustr" where
  "usp_toString ps =
     map word_of_nat (join [38] (map (\<lambda>(k, v). form_escape k @ [61] @ form_escape v) ps))"

definition usp_entry :: "nat list \<Rightarrow> ustr \<times> ustr" where
  "usp_entry seg =
     (to_utf16 (utf8_decode (form_unescape (takeWhile (\<lambda>b. b \<noteq> 61) seg))),
      to_utf16 (utf8_decode (form_unescape (drop 1 (dropWhile (\<lambda>b. b \<noteq> 61) seg)))))"

text \<open>\<open>new URLSearchParams(s)\<close>: one leading question mark is dropped.\<close>

definition usp_parse :: "ustr \<Rightarrow> search_params" where
  "usp_parse s =
     map usp_entry
       (filter (\<lambda>seg. seg \<noteq> [])
         (split_on 38 (utf8 (code_points (if has_prefix (L ''?'') s then drop 1 s else s)))))"

section \<open>The page's filters\<close>

definition card_filters :: "ustr \<Rightarrow> filters" where
  "card_filters search =
     (let params = usp_parse search;
          get = (\<lambda>k. case usp_get (L k) params of None \<Rightarrow> [] | Some v \<Rightarrow> v)
      in \<lparr>f_topN = or_else (get ''topN'') (L ''10''), f_match = get ''match[]'',
          f_focusLabel = get ''focusLabel'', f_date = get ''date''\<rparr>)"

definition card_query :: "filters \<Rightarrow> search_params" where
  "card_query f =
     (let q = usp_set (L ''topN'') (or_else (f_topN f) (L ''10'')) [];
          q = (if f_match f \<noteq> [] then usp_set (L ''match[]'') (f_match f) q else q);
          q = (if f_focusLabel f \<noteq> [] then usp_set (L ''focusLabel'') (f_focusLabel f) q else q);
          q = (if f_date f \<noteq> [] then usp_set (L ''date'') (f_date f) q else q)
      in q)"

definition API_URL :: "ustr \<Rightarrow> ustr" where
  "API_URL PREFIX = PREFIX @ L ''/proxeus/api/cardinality.json''"

definition card_url :: "ustr \<Rightarrow> filters \<Rightarrow> ustr" where
  "card_url PREFIX f = API_URL PREFIX @ L ''?'' @ usp_toString (card_query f)"

section \<open>Reading back\<close>

lemma utf8_go_bytes: "scalar cp \<Longrightarrow> utf8_go 0 0 0 0 (utf8_bytes cp @ bs) = cp # utf8_go 0 0 0 0 bs"
proof -
  assume s: "scalar cp"
  define a b c d where "a = cp div 262144" and "b = cp div 4096 mod 64" and "c = cp div 64 mod 64" and "d = cp mod 64"
  have lim: "b < 64" "c < 64" "d < 64" by (simp_all add: b_def c_def d_def)
  have v1: "cp = 64 * (cp div 64) + d" by (simp add: d_def)
  have v2: "cp div 64 = 64 * (cp div 4096) + c"
    using div_mult2_eq [of cp 64 64] by (simp add: c_def)
  have v3: "cp div 4096 = 64 * a + b"
    using div_mult2_eq [of cp 4096 64] by (simp add: a_def b_def)
  have cp: "cp = 262144 * a + 4096 * b + 64 * c + d" using v1 v2 v3 by linarith
  consider "cp < 0x80" | "0x80 \<le> cp" "cp < 0x800" | "0x800 \<le> cp" "cp < 0x10000" | "0x10000 \<le> cp" by linarith
  then show ?thesis
  proof cases
    case 1
    then show ?thesis by (simp add: utf8_bytes_def)
  next
    case 2
    then have "cp div 64 < 32" "2 \<le> cp div 64" using v1 lim by linarith+
    with 2 show ?thesis by (simp add: utf8_bytes_def)
  next
    case 3
    have a: "a = 0" using 3 cp lim by linarith
    have e: "utf8_bytes cp = [0xE0 + b, 0x80 + c, 0x80 + d]"
      using 3 v3 a by (simp add: utf8_bytes_def c_def d_def)
    have "b < 16" "b = 0 \<Longrightarrow> 32 \<le> c" "b = 13 \<Longrightarrow> c \<le> 31"
      using 3 cp a lim s by (auto simp: scalar_def)
    with lim show ?thesis unfolding e by (simp add: cp a)
  next
    case 4
    have e: "utf8_bytes cp = [0xF0 + a, 0x80 + b, 0x80 + c, 0x80 + d]"
      using 4 by (simp add: utf8_bytes_def a_def b_def c_def d_def)
    have "a \<le> 4" "a = 0 \<Longrightarrow> 16 \<le> b" "a = 4 \<Longrightarrow> b \<le> 15"
      using 4 cp lim s by (auto simp: scalar_def)
    with lim show ?thesis unfolding e by (simp add: cp)
  qed
qed

lemma utf8_decode_utf8: "list_all scalar cps \<Longrightarrow> utf8_decode (utf8 cps) = cps"
  unfolding utf8_decode_def utf8_def
  by (induction cps) (simp_all add: utf8_go_bytes)

lemma unat_cu: "unat (c :: cu) < 0x10000"
  using unsigned_less [of c] by simp

lemma scalar_or_replaced: "scalar (if high_surrogate c \<or> low_surrogate c then 0xFFFD else unat c)"
proof (cases "high_surrogate c \<or> low_surrogate c")
  case False
  with unat_cu [of c] show ?thesis
    unfolding scalar_def high_surrogate_def low_surrogate_def by (simp; linarith)
qed (simp add: scalar_def)

lemma scalar_pair:
  "high_surrogate c \<Longrightarrow> low_surrogate d \<Longrightarrow> scalar (0x10000 + (unat c - 0xD800) * 0x400 + (unat d - 0xDC00))"
  unfolding scalar_def high_surrogate_def low_surrogate_def by linarith

lemma code_points_scalar: "list_all scalar (code_points s)"
proof (induction s rule: code_points.induct)
  case (2 c)
  then show ?case using scalar_or_replaced [of c] by simp
next
  case (3 c d s)
  then show ?case using scalar_or_replaced [of c] scalar_pair [of c d] by simp
qed simp

lemma utf16_units_bmp: "utf16_units (unat c) = [c]" for c :: cu
  using unat_cu [of c] by (simp add: utf16_units_def)

lemma to_utf16_code_points: "well_formed16 s \<Longrightarrow> to_utf16 (code_points s) = s"
proof (induction s rule: code_points.induct)
  case (3 c d s)
  show ?case
  proof (cases "high_surrogate c")
    case True
    with 3 have d: "low_surrogate d" and IH: "to_utf16 (code_points s) = s" by simp_all
    let ?i = "unat c - 0xD800" and ?j = "unat d - 0xDC00"
    have ij: "?j < 0x400" "unat c = 0xD800 + ?i" "unat d = 0xDC00 + ?j"
      using True d unfolding high_surrogate_def low_surrogate_def by linarith+
    have q: "(?i * 0x400 + ?j) div 0x400 = ?i" "(?i * 0x400 + ?j) mod 0x400 = ?j" using ij(1) by simp_all
    have "utf16_units (0x10000 + (?i * 0x400 + ?j)) = [word_of_nat (0xD800 + ?i), word_of_nat (0xDC00 + ?j)]"
      unfolding utf16_units_def add_diff_cancel_left' q by simp
    also have "\<dots> = [c, d]" by (simp only: ij(2,3) [symmetric]) simp
    finally show ?thesis using True d IH by (simp add: to_utf16_def add.assoc)
  next
    case False
    with 3 show ?thesis by (simp add: to_utf16_def utf16_units_bmp)
  qed
qed (simp_all add: to_utf16_def utf16_units_bmp)

lemma utf8_lt: "scalar cp \<Longrightarrow> b \<in> set (utf8_bytes cp) \<Longrightarrow> b < 256"
  by (auto simp: utf8_bytes_def scalar_def split: if_splits)

lemma hex_val_digit: "n < 16 \<Longrightarrow> hex_val (hex_digit n) = Some n"
  by (auto simp: hex_val_def hex_digit_def)

lemma form_unescape_plain:
  "b \<noteq> 37 \<Longrightarrow> form_unescape (b # bs) = (if b = 43 then 32 else b) # form_unescape bs"
  by (cases bs; cases "tl bs") auto

lemma form_unescape_byte: "b < 256 \<Longrightarrow> form_unescape (form_byte b @ bs) = b # form_unescape bs"
  by (auto simp: form_byte_def form_unescape_plain unreserved_def hex_val_digit)

lemma form_unescape_bytes:
  "\<forall>b \<in> set s. b < 256 \<Longrightarrow> form_unescape (concat (map form_byte s)) = s"
  by (induction s) (simp_all add: form_unescape_byte)

lemma form_unescape_escape: "form_unescape (form_escape s) = utf8 (code_points s)"
  unfolding form_escape_def
  by (rule form_unescape_bytes)
     (use code_points_scalar [of s] in \<open>auto simp: utf8_def list_all_iff dest: utf8_lt\<close>)

lemma hex_digit_range: "n < 16 \<Longrightarrow> hex_digit n < 128 \<and> hex_digit n \<noteq> 38 \<and> hex_digit n \<noteq> 61"
  by (simp add: hex_digit_def)

lemma form_byte_range: "b < 256 \<Longrightarrow> x \<in> set (form_byte b) \<Longrightarrow> x < 128 \<and> x \<noteq> 38 \<and> x \<noteq> 61"
proof -
  assume b: "b < 256" and x: "x \<in> set (form_byte b)"
  have "b div 16 < 16" using b by (simp add: less_mult_imp_div_less)
  then have h: "y \<in> {hex_digit (b div 16), hex_digit (b mod 16)} \<Longrightarrow> y < 128 \<and> y \<noteq> 38 \<and> y \<noteq> 61" for y
    using hex_digit_range [of "b div 16"] hex_digit_range [of "b mod 16"] by auto
  consider "b = 32" | "unreserved b" | "b \<noteq> 32" "\<not> unreserved b" by blast
  then show ?thesis
  proof cases
    case 2
    then show ?thesis using x by (auto simp: form_byte_def unreserved_def split: if_splits)
  next
    case 3
    then have "x = 37 \<or> x \<in> {hex_digit (b div 16), hex_digit (b mod 16)}" using x by (simp add: form_byte_def)
    then show ?thesis using h by auto
  qed (use x in \<open>simp add: form_byte_def\<close>)
qed

lemma form_escape_range: "x \<in> set (form_escape s) \<Longrightarrow> x < 128 \<and> x \<noteq> 38 \<and> x \<noteq> 61"
proof -
  assume "x \<in> set (form_escape s)"
  then obtain cp b where x: "x \<in> set (form_byte b)" and b: "b \<in> set (utf8_bytes cp)" "cp \<in> set (code_points s)"
    by (auto simp: form_escape_def utf8_def)
  then have "scalar cp" using code_points_scalar [of s] by (simp add: list_all_iff)
  then show ?thesis using form_byte_range [OF utf8_lt x] b by simp
qed

lemma split_on_none: "c \<notin> set s \<Longrightarrow> split_on c s = [s]"
  by (induction s) auto

lemma split_on_append: "c \<notin> set s \<Longrightarrow> split_on c (s @ c # t) = s # split_on c t"
  by (induction s) auto

lemma split_on_join:
  "xs \<noteq> [] \<Longrightarrow> \<forall>x \<in> set xs. c \<notin> set x \<Longrightarrow> split_on c (join [c] xs) = xs"
  by (induction "[c]" xs rule: join.induct) (auto simp: split_on_none split_on_append)

lemma ascii_units:
  "\<forall>b \<in> set bs. b < 128 \<Longrightarrow> utf8 (code_points (map word_of_nat bs)) = bs"
proof (induction bs rule: induct_list012)
  case (3 b b' bs)
  have small: "unat (word_of_nat x :: cu) = x" if "x < 128" for x
    using that unfolding unat_of_nat by simp
  from 3 have "\<not> high_surrogate (word_of_nat b)" "\<not> low_surrogate (word_of_nat b)" "unat (word_of_nat b :: cu) = b"
    by (simp_all add: high_surrogate_def low_surrogate_def small)
  with 3 show ?case by (simp add: utf8_def utf8_bytes_def)
next
  case (2 b)
  then have "unat (word_of_nat b :: cu) = b" unfolding unat_of_nat by simp
  with 2 show ?case by (simp add: utf8_def utf8_bytes_def high_surrogate_def low_surrogate_def)
qed (simp add: utf8_def)

lemma usp_entry_pair:
  "well_formed16 k \<Longrightarrow> well_formed16 v \<Longrightarrow> usp_entry (form_escape k @ [61] @ form_escape v) = (k, v)"
proof -
  assume w: "well_formed16 k" "well_formed16 v"
  have n: "\<forall>b \<in> set (form_escape k). b \<noteq> 61" using form_escape_range by blast
  have rb: "to_utf16 (utf8_decode (form_unescape (form_escape s))) = s" if "well_formed16 s" for s
    using that by (simp add: form_unescape_escape utf8_decode_utf8 code_points_scalar to_utf16_code_points)
  show ?thesis using n w by (simp add: usp_entry_def takeWhile_append2 dropWhile_append2 rb)
qed

lemma join_set: "x \<in> set (join sep xs) \<Longrightarrow> x \<in> set sep \<or> (\<exists>y \<in> set xs. x \<in> set y)"
  by (induction sep xs rule: join.induct) auto

lemma usp_read_back:
  assumes "list_all (\<lambda>(k, v). well_formed16 k \<and> well_formed16 v) ps"
  shows "usp_parse (L ''?'' @ usp_toString ps) = ps"
proof (cases "ps = []")
  case True
  then show ?thesis by (simp add: usp_parse_def usp_toString_def utf8_def)
next
  case False
  let ?seg = "\<lambda>(k, v). form_escape k @ [61] @ form_escape v"
  let ?bs = "join [38] (map ?seg ps)"
  have r: "x < 128" if "x \<in> set ?bs" for x
    using join_set [OF that] form_escape_range by fastforce
  have "usp_parse (L ''?'' @ usp_toString ps) = map usp_entry (filter (\<lambda>seg. seg \<noteq> []) (split_on 38 ?bs))"
    unfolding usp_parse_def usp_toString_def using ascii_units [of ?bs] r by simp
  also have "split_on 38 ?bs = map ?seg ps"
    using False form_escape_range by (intro split_on_join) fastforce+
  also have "filter (\<lambda>seg. seg \<noteq> []) (map ?seg ps) = map ?seg ps"
    by (auto simp: filter_id_conv)
  also have "map usp_entry (map ?seg ps) = ps"
    using assms by (auto simp: list_all_iff o_def usp_entry_pair [simplified] intro!: map_idI)
  finally show ?thesis .
qed

definition filters_ok :: "filters \<Rightarrow> bool" where
  "filters_ok f \<longleftrightarrow> well_formed16 (f_topN f) \<and> well_formed16 (f_match f) \<and> well_formed16 (f_focusLabel f) \<and>
     well_formed16 (f_date f)"

lemma well_formed16_L: "well_formed16 (L s)"
proof -
  have n: "\<not> high_surrogate (ch c)" "\<not> low_surrogate (ch c)" for c
    using ch_less [of c] by (simp_all add: high_surrogate_def low_surrogate_def)
  show ?thesis by (induction s rule: induct_list012) (simp_all add: n)
qed

lemma card_query_entries:
  "card_query f =
     (L ''topN'', or_else (f_topN f) (L ''10'')) #
     filter (\<lambda>e. snd e \<noteq> [])
       [(L ''match[]'', f_match f), (L ''focusLabel'', f_focusLabel f), (L ''date'', f_date f)]"
  by (simp add: card_query_def Let_def usp_set_def del: L.simps)

lemma card_query_read_back: "filters_ok f \<Longrightarrow> usp_parse (L ''?'' @ usp_toString (card_query f)) = card_query f"
  by (rule usp_read_back)
     (auto simp: card_query_entries filters_ok_def well_formed16_L or_else_def simp del: L.simps)

section \<open>Properties\<close>

lemma get_nonempty:
  "distinct (map fst ps) \<Longrightarrow>
     (case map_of (filter (\<lambda>e. snd e \<noteq> []) ps) k of None \<Rightarrow> [] | Some v \<Rightarrow> v) =
     (case map_of ps k of None \<Rightarrow> [] | Some v \<Rightarrow> v)"
proof (induction ps)
  case (Cons e ps)
  have "map_of (filter (\<lambda>e. snd e \<noteq> []) ps) (fst e) = None"
    using Cons.prems by (auto simp: map_of_eq_None_iff)
  with Cons show ?case by (cases e) auto
qed simp

lemma card_query_get:
  "(case map_of (card_query f) k of None \<Rightarrow> [] | Some v \<Rightarrow> v) =
     (if k = L ''topN'' then or_else (f_topN f) (L ''10'')
      else if k = L ''match[]'' then f_match f
      else if k = L ''focusLabel'' then f_focusLabel f
      else if k = L ''date'' then f_date f else [])"
proof -
  have "distinct (map fst [(L ''match[]'', f_match f), (L ''focusLabel'', f_focusLabel f), (L ''date'', f_date f)])"
    by (simp del: L.simps)
  from get_nonempty [OF this, of k] show ?thesis
    unfolding card_query_entries by (auto simp del: L.simps filter.simps)
qed

text \<open>
  C9: The query a page sends carries its filters exactly: opened with that query, the page reads the same
  filters back (the top N being 10 where it was empty), for all texts that are well-formed UTF-16.
\<close>

theorem filters_round_trip:
  assumes "filters_ok f"
  shows "card_filters (L ''?'' @ usp_toString (card_query f)) = f\<lparr>f_topN := or_else (f_topN f) (L ''10'')\<rparr>"
proof -
  have "or_else (or_else s (L ''10'')) (L ''10'') = or_else s (L ''10'')" for s by (simp add: or_else_def)
  then show ?thesis
    unfolding card_filters_def card_query_read_back [OF assms] Let_def usp_get_def card_query_get
    by (cases f) (simp del: L.simps)
qed

theorem filters_round_trip_witness:
  "card_filters (L ''?'' @ usp_toString (card_query
      \<lparr>f_topN = [], f_match = L ''{a=\"b&c\"}'' @ [0xD83D, 0xDE00], f_focusLabel = [], f_date = L ''2024-01-02''\<rparr>)) =
    \<lparr>f_topN = L ''10'', f_match = L ''{a=\"b&c\"}'' @ [0xD83D, 0xDE00], f_focusLabel = [], f_date = L ''2024-01-02''\<rparr>"
proof -
  have "high_surrogate 0xD83D" "low_surrogate 0xDE00" by (simp_all add: high_surrogate_def low_surrogate_def)
  moreover have "\<not> high_surrogate (ch c)" "\<not> low_surrogate (ch c)" for c
    using ch_less [of c] by (simp_all add: high_surrogate_def low_surrogate_def)
  ultimately show ?thesis by (subst filters_round_trip) (simp_all add: filters_ok_def)
qed

end
