(* ===== verification/Paths.thy ===== *)
theory Paths
  imports CardQuery
begin

text \<open>
  Go's paths, as character sequences: \<open>strings.TrimRight\<close> and \<open>strings.TrimPrefix\<close>, \<open>path.Clean\<close> and \<open>path.Join\<close>, and
  the prefixes for which joining is concatenation.
\<close>

section \<open>Trimming\<close>

definition trim_right_slash :: "ustr \<Rightarrow> ustr" where
  "trim_right_slash s = rev (dropWhile (\<lambda>c. c = ch (CHR ''/'')) (rev s))"

definition trim_prefix :: "ustr \<Rightarrow> ustr \<Rightarrow> ustr" where
  "trim_prefix p s = (if has_prefix p s then drop (length p) s else s)"

section \<open>Cleaning\<close>

abbreviation slash :: cu where
  "slash \<equiv> ch (CHR ''/'')"

abbreviation segments :: "ustr \<Rightarrow> ustr list" where
  "segments \<equiv> split_on slash"

definition rooted :: "ustr list \<Rightarrow> ustr" where
  "rooted ws = concat (map (\<lambda>w. slash # w) ws)"

text \<open>\<open>path.Clean\<close> of a rooted path.\<close>

definition clean_step :: "ustr \<Rightarrow> ustr list \<Rightarrow> ustr list" where
  "clean_step w up = (if w = [] \<or> w = L ''.'' then up else if w = L ''..'' then drop 1 up else w # up)"

definition clean_segments :: "ustr list \<Rightarrow> ustr list" where
  "clean_segments ws = rev (fold clean_step ws [])"

definition path_clean :: "ustr \<Rightarrow> ustr" where
  "path_clean p = (case clean_segments (segments p) of [] \<Rightarrow> [slash] | w # ws \<Rightarrow> rooted (w # ws))"

text \<open>\<open>path.Clean\<close>, of any path.\<close>

definition clean_rel_step :: "ustr \<Rightarrow> ustr list \<Rightarrow> ustr list" where
  "clean_rel_step w up =
     (if w = [] \<or> w = L ''.'' then up
      else if w = L ''..'' \<and> up \<noteq> [] \<and> hd up \<noteq> L ''..'' then tl up else w # up)"

definition go_clean :: "ustr \<Rightarrow> ustr" where
  "go_clean p =
     (if has_prefix [slash] p then path_clean p
      else (case rev (fold clean_rel_step (segments p) []) of [] \<Rightarrow> L ''.'' | ws \<Rightarrow> join [slash] ws))"

text \<open>\<open>path.Join\<close> of a route prefix and a literal path.\<close>

definition path_join :: "ustr \<Rightarrow> string \<Rightarrow> ustr" where
  "path_join routePrefix s = go_clean (if routePrefix = [] then L s else routePrefix @ slash # L s)"

text \<open>
  The prefixes a path is joined to by concatenation: the empty one and, but for slashes at the end, any rooted
  path that is clean. The start-up code only trims slashes, so \<open>/a//b\<close> is none of them.
\<close>

definition clean_prefix :: "ustr \<Rightarrow> bool" where
  "clean_prefix routePrefix \<longleftrightarrow>
     (let P = trim_right_slash routePrefix in P = [] \<or> has_prefix [slash] P \<and> go_clean P = P)"

section \<open>Facts\<close>

lemma rel_below [simp]: "trim_prefix p (p @ r) = r"
  by (simp add: trim_prefix_def)

text \<open>The segments of a clean path.\<close>

definition plain :: "ustr \<Rightarrow> bool" where
  "plain w \<longleftrightarrow> w \<noteq> [] \<and> w \<noteq> L ''.'' \<and> w \<noteq> L ''..'' \<and> slash \<notin> set w"

lemma segments_no_slash: "w \<in> set (segments s) \<Longrightarrow> slash \<notin> set w"
  by (induction s arbitrary: w) (auto split: if_splits list.splits)

lemma segments_word: "slash \<notin> set w \<Longrightarrow> segments w = [w]"
  by (induction w) auto

lemma segments_append: "slash \<notin> set w \<Longrightarrow> segments (w @ slash # s) = w # segments s"
  by (induction w) auto

lemma clean_step_plain: "slash \<notin> set w \<Longrightarrow> list_all plain up \<Longrightarrow> list_all plain (clean_step w up)"
  by (auto simp: clean_step_def plain_def list_all_iff dest: in_set_dropD)

lemma fold_clean_plain:
  "\<forall>w \<in> set ws. slash \<notin> set w \<Longrightarrow> list_all plain up \<Longrightarrow> list_all plain (fold clean_step ws up)"
  by (induction ws arbitrary: up) (simp_all add: clean_step_plain)

lemma fold_plain: "list_all plain ws \<Longrightarrow> fold clean_step ws up = rev ws @ up"
  by (induction ws arbitrary: up) (simp_all add: clean_step_def plain_def)

lemma clean_segments_plain: "list_all plain (clean_segments (segments p))"
proof -
  have "list_all plain (fold clean_step (segments p) [])"
    by (rule fold_clean_plain) (auto dest: segments_no_slash)
  then show ?thesis by (simp add: clean_segments_def list_all_iff)
qed

lemma segments_rooted: "list_all plain ws \<Longrightarrow> ws \<noteq> [] \<Longrightarrow> segments (rooted ws) = [] # ws"
proof (induction ws)
  case (Cons w ws)
  then have w: "slash \<notin> set w" by (simp add: plain_def)
  show ?case
  proof (cases ws)
    case Nil
    then show ?thesis using w by (simp add: rooted_def segments_word)
  next
    case (Cons v vs)
    then have "segments (rooted ws) = [] # ws" using Cons.IH Cons.prems by simp
    then show ?thesis using w Cons by (simp add: rooted_def segments_append)
  qed
qed simp

lemma segments_dir: "list_all plain ws \<Longrightarrow> segments (rooted ws @ [slash]) = [] # ws @ [[]]"
proof (induction ws)
  case (Cons w ws)
  then have w: "slash \<notin> set w" by (simp add: plain_def)
  have "segments (rooted ws @ [slash]) = [] # ws @ [[]]" using Cons by simp
  moreover have "\<exists>r. rooted ws @ [slash] = slash # r" by (cases ws) (simp_all add: rooted_def)
  ultimately show ?case using w by (auto simp: rooted_def segments_append)
qed (simp add: rooted_def)

lemma clean_segments_rooted: "list_all plain ws \<Longrightarrow> clean_segments ([] # ws) = ws"
  by (simp add: clean_segments_def fold_plain) (simp add: clean_step_def fold_plain)

lemma clean_segments_dir: "list_all plain ws \<Longrightarrow> clean_segments ([] # ws @ [[]]) = ws"
  using clean_segments_rooted [of ws] by (simp add: clean_segments_def clean_step_def)

lemma rooted_ends: "list_all plain ws \<Longrightarrow> ws \<noteq> [] \<Longrightarrow> last (rooted ws) \<noteq> slash \<and> hd (rooted ws) = slash \<and> rooted ws \<noteq> []"
proof (induction ws)
  case (Cons w ws)
  then have "w \<noteq> []" "slash \<notin> set w" by (simp_all add: plain_def)
  then have "last w \<noteq> slash" by (metis last_in_set)
  with Cons \<open>w \<noteq> []\<close> show ?case by (cases ws) (auto simp: rooted_def)
qed simp

lemma rooted_prefix: "ws \<noteq> [] \<Longrightarrow> has_prefix [slash] (rooted ws @ s)"
  by (cases ws) (simp_all add: rooted_def)

text \<open>The segments a path names, once cleaned.\<close>

definition segments_of :: "ustr \<Rightarrow> ustr list" where
  "segments_of p = clean_segments (segments p)"

lemma segments_of_plain: "list_all plain (segments_of p)"
  by (simp add: segments_of_def clean_segments_plain)

lemma clean_rooted:
  "has_prefix [slash] p \<Longrightarrow> go_clean p = (if segments_of p = [] then [slash] else rooted (segments_of p))"
  by (simp add: go_clean_def path_clean_def segments_of_def split: list.split)

lemma rooted_append: "rooted (vs @ ws) = rooted vs @ rooted ws"
  by (simp add: rooted_def)

lemma rooted_Nil_iff: "rooted ws = [] \<longleftrightarrow> ws = []"
  by (cases ws) (simp_all add: rooted_def)

section \<open>Joining\<close>

lemma split_on_append_any: "split_on c (s @ c # t) = split_on c s @ split_on c t"
proof (induction s)
  case (Cons x s)
  have "split_on c s \<noteq> []" by (cases s) (auto split: list.split)
  then show ?case using Cons by (cases "split_on c s") auto
qed simp

lemma segments_of_snoc: "segments_of (p @ [slash]) = segments_of p"
  by (simp add: segments_of_def clean_segments_def split_on_append_any clean_step_def)

lemma trim_split: "\<exists>n. s = trim_right_slash s @ replicate n slash"
proof -
  define sl where "sl = takeWhile (\<lambda>c. c = slash) (rev s)"
  have "rev s = sl @ rev (trim_right_slash s)" by (simp add: trim_right_slash_def sl_def)
  then have "s = trim_right_slash s @ rev sl" by (metis rev_append rev_rev_ident)
  moreover have "\<forall>c \<in> set (rev sl). c = slash" by (auto simp: sl_def dest: set_takeWhileD)
  then have "rev sl = replicate (length (rev sl)) slash" by (simp only: replicate_eqI)
  ultimately show ?thesis by (intro exI [of _ "length (rev sl)"]) simp
qed

lemma segments_of_trim: "segments_of (trim_right_slash s) = segments_of s"
proof -
  have "segments_of (p @ replicate n slash) = segments_of p" for p n
  proof (induction n arbitrary: p)
    case (Suc n)
    then show ?case using Suc [of "p @ [slash]"] by (simp add: segments_of_snoc)
  qed simp
  then show ?thesis using trim_split [of s] by metis
qed

lemma trim_last: "trim_right_slash s \<noteq> [] \<Longrightarrow> last (trim_right_slash s) \<noteq> slash"
  using hd_dropWhile [of "\<lambda>c. c = slash" "rev s"] by (simp add: trim_right_slash_def last_rev)

text \<open>The literals that are joined: rooted, clean and not the root.\<close>

definition absolute :: "string \<Rightarrow> bool" where
  "absolute s \<longleftrightarrow> has_prefix [slash] (L s) \<and> go_clean (L s) = L s \<and> segments_of (L s) \<noteq> []"

lemma absolute_rooted: "absolute s \<Longrightarrow> L s = rooted (segments_of (L s))"
  using clean_rooted [of "L s"] by (simp add: absolute_def)

lemma segments_join:
  assumes "list_all plain ws" "ws \<noteq> []"
  shows "segments_of (p @ slash # rooted ws) = segments_of p @ ws"
proof -
  have "fold clean_step ([] # ws) up = rev ws @ up" for up using fold_plain [OF assms(1)] by (simp add: clean_step_def)
  then show ?thesis
    by (simp add: segments_of_def clean_segments_def split_on_append_any segments_rooted [OF assms])
qed

lemma path_join_rooted:
  assumes "rp = [] \<or> has_prefix [slash] rp" "absolute s"
  shows "path_join rp s = rooted (segments_of rp) @ L s"
proof (cases "rp = []")
  case True
  then show ?thesis using assms(2) by (simp add: path_join_def absolute_def segments_of_def clean_segments_def clean_step_def rooted_def)
next
  case False
  define ws where "ws = segments_of (L s)"
  have ws: "list_all plain ws" "ws \<noteq> []" "L s = rooted ws"
    using assms(2) absolute_rooted [OF assms(2)] by (simp_all add: ws_def absolute_def segments_of_plain)
  have "has_prefix [slash] (rp @ slash # L s)" using assms(1) False by (cases rp) auto
  then have "path_join rp s = rooted (segments_of rp @ ws)"
    using clean_rooted [of "rp @ slash # L s"] False ws(2)
    unfolding path_join_def ws(3) segments_join [OF ws(1,2)] by simp
  then show ?thesis by (simp add: rooted_append ws(3))
qed

lemma clean_prefix_rooted:
  assumes "clean_prefix rp"
  shows "rp = [] \<or> has_prefix [slash] rp" "rooted (segments_of rp) = trim_right_slash rp"
proof -
  define P where "P = trim_right_slash rp"
  obtain n where n: "rp = P @ replicate n slash" using trim_split [of rp] by (auto simp: P_def)
  have P: "P = [] \<or> has_prefix [slash] P \<and> go_clean P = P" using assms by (simp add: clean_prefix_def Let_def P_def)
  show "rp = [] \<or> has_prefix [slash] rp" unfolding n using P by (cases P; cases n) (auto simp: has_prefix_iff)
  have s: "segments_of P = segments_of rp" by (simp add: P_def segments_of_trim)
  have "rooted (segments_of P) = P"
  proof (cases "P = []")
    case True
    then show ?thesis by (simp add: segments_of_def clean_segments_def clean_step_def rooted_def)
  next
    case False
    then have "P \<noteq> [slash]" using trim_last [of rp] by (auto simp: P_def)
    then show ?thesis using False P clean_rooted [of P] by (auto split: if_splits)
  qed
  then show "rooted (segments_of rp) = trim_right_slash rp" using s by (simp only: P_def)
qed

text \<open>Below a clean prefix, joining is concatenation.\<close>

lemma path_join_clean: "clean_prefix rp \<Longrightarrow> absolute s \<Longrightarrow> path_join rp s = trim_right_slash rp @ L s"
  using path_join_rooted clean_prefix_rooted by metis

lemma clean_prefix_Nil: "trim_right_slash rp = [] \<Longrightarrow> clean_prefix rp"
  by (simp add: clean_prefix_def)

text \<open>The literals of the server's own routes.\<close>

lemma absolute_literals:
  "absolute ''/debug''" "absolute ''/-/ready''" "absolute ''/-/healthy''" "absolute ''/proxeus''" "absolute ''/assets''"
  "absolute ''/proxeus/backends''" "absolute ''/api/v1/query''" "absolute ''/api/v1/query_range''"
  by code_simp+

end
