(* ===== verification/Server.thy ===== *)
theory Server
  imports AppPoll NavBackends Paths
begin

text \<open>
  Which of its parts the server answers a path with (\<open>cmd/proxeus/main.go\<close>: \<open>uiRedirect\<close>,
  \<open>isReactRoute\<close> and the fallback handler), as far as it decides whether the pages and the
  requests of their scripts meet: the fallback sees every GET the router has no route of
  its own for, which all paths below are. A path is one that needs no escaping, so that the browser's
  and the server's are the same characters; the route prefix is any, and the facts about clean ones say so.
\<close>

section \<open>Routing\<close>

definition reactRouteSet :: "ustr list" where
  "reactRouteSet =
     map L [''/config'', ''/flags'', ''/service-discovery'', ''/alertmanager-discovery'', ''/status'', ''/targets'',
       ''/alerts'', ''/query'', ''/rules'', ''/agent'', ''/backends'', ''/cardinality'']"

definition uiRedirects :: "(ustr \<times> ustr) list" where
  "uiRedirects = [(L ''/tsdb-status'', L ''/cardinality'')]"

definition uiRedirect :: "ustr \<Rightarrow> ustr \<Rightarrow> ustr option" where
  "uiRedirect routePrefix urlPath =
     (let trimmed = trim_right_slash routePrefix; rel = trim_prefix trimmed urlPath
      in if trimmed \<noteq> [] \<and> rel = urlPath then None
         else (case map_of uiRedirects rel of None \<Rightarrow> None | Some to \<Rightarrow> Some (trimmed @ to)))"

definition isReactRoute :: "ustr \<Rightarrow> ustr \<Rightarrow> bool" where
  "isReactRoute routePrefix urlPath =
     (let trimmed = trim_right_slash routePrefix; rel = trim_prefix trimmed urlPath
      in if trimmed \<noteq> [] \<and> rel = urlPath then False else rel \<in> set reactRouteSet)"

text \<open>The handlers the fallback chooses from, in its order.\<close>

datatype route = DebugMux | Ready | RedirectTo ustr | Shell | ProxeusUI | Assets | Prometheus

definition notFound :: "ustr \<Rightarrow> ustr \<Rightarrow> route" where
  "notFound routePrefix urlPath =
     (if has_prefix (path_join routePrefix ''/debug'') urlPath then DebugMux
      else if urlPath = path_join routePrefix ''/-/ready'' then Ready
      else (case uiRedirect routePrefix urlPath of Some to \<Rightarrow> RedirectTo to
            | None \<Rightarrow>
                if isReactRoute routePrefix urlPath then Shell
                else if has_prefix (path_join routePrefix ''/proxeus'') urlPath then ProxeusUI
                else if has_prefix (path_join routePrefix ''/assets'') urlPath then Assets
                else Prometheus))"

section \<open>Facts\<close>

lemma has_prefix_same [simp]: "has_prefix (p @ q) (p @ r) \<longleftrightarrow> has_prefix q r"
  by (simp add: has_prefix_iff)

lemma react_below: "isReactRoute rp (trim_right_slash rp @ r) \<longleftrightarrow> r \<in> set reactRouteSet"
  by (simp add: isReactRoute_def Let_def)

lemma redirect_below:
  "uiRedirect rp (trim_right_slash rp @ r) = map_option (\<lambda>to. trim_right_slash rp @ to) (map_of uiRedirects r)"
proof (cases "trim_right_slash rp \<noteq> [] \<and> r = trim_right_slash rp @ r")
  case False
  then show ?thesis by (auto simp: uiRedirect_def Let_def split: option.split)
qed simp

text \<open>The answer for a path below a clean prefix, by its rest.\<close>

lemma notFound_below:
  assumes "clean_prefix rp"
  shows "notFound rp (trim_right_slash rp @ r) =
     (if has_prefix (L ''/debug'') r then DebugMux else if r = L ''/-/ready'' then Ready
      else (case map_of uiRedirects r of Some to \<Rightarrow> RedirectTo (trim_right_slash rp @ to)
            | None \<Rightarrow> if r \<in> set reactRouteSet then Shell else if has_prefix (L ''/proxeus'') r then ProxeusUI
                      else if has_prefix (L ''/assets'') r then Assets else Prometheus))"
  using absolute_literals(1-5) [THEN path_join_clean [OF assms]]
  unfolding notFound_def redirect_below react_below by (simp split: option.split del: L.simps)

text \<open>
  Below a prefix that is not clean, the shell is still served at the page's path, which is compared with the prefix
  as it stands, but not what its scripts load, whose path is compared with the joined one.
\<close>

lemma unclean_prefix_misses:
  "\<not> clean_prefix (L ''/a//b'')" "notFound (L ''/a//b'') (L ''/a//b/backends'') = Shell"
  "notFound (L ''/a//b'') (NAV_API_URL (L ''/a//b'')) = Prometheus" "notFound (L ''/a//b'') (API_URL (L ''/a//b'')) = Prometheus"
  by code_simp+

lemmas route_simps = notFound_below uiRedirects_def reactRouteSet_def

section \<open>Properties\<close>

text \<open>
  C23: Server and scripts agree on the pages: the paths at which the server sends the shell and head.js recognises
  a proxeus page are exactly the two page paths, the page Prometheus's own menu would show is
  redirected to one of them, and the addresses the two pages load their data from reach the
  handler that has it, under every clean route prefix and for paths that need no escaping.
\<close>

theorem page_paths_served:
  assumes "clean_prefix rp"
  shows "let P = trim_right_slash rp in
     (notFound rp path = Shell \<and> head_page P path \<noteq> None \<longleftrightarrow> path \<in> {P @ L ''/backends'', P @ L ''/cardinality''}) \<and>
     notFound rp (P @ L ''/tsdb-status'') = RedirectTo (P @ L ''/cardinality'') \<and>
     notFound rp (NAV_API_URL P) = ProxeusUI \<and> notFound rp (API_URL P) = ProxeusUI"
proof -
  define P where "P = trim_right_slash rp"
  note below = notFound_below [OF assms, folded P_def]
  have slash: "notFound rp (P @ L ''/backends/'') \<noteq> Shell" "notFound rp (P @ L ''/cardinality/'') \<noteq> Shell"
    by (simp_all add: below uiRedirects_def reactRouteSet_def)
  have "notFound rp path = Shell \<and> head_page P path \<noteq> None \<longleftrightarrow> path \<in> {P @ L ''/backends'', P @ L ''/cardinality''}"
  proof
    assume a: "notFound rp path = Shell \<and> head_page P path \<noteq> None"
    then have "strip_slash path \<in> {P @ L ''/backends'', P @ L ''/cardinality''}" unfolding head_page_None by simp
    then show "path \<in> {P @ L ''/backends'', P @ L ''/cardinality''}"
      using strip_slash_cases [of path] a slash by auto
  next
    assume "path \<in> {P @ L ''/backends'', P @ L ''/cardinality''}"
    then show "notFound rp path = Shell \<and> head_page P path \<noteq> None"
      by (auto simp: below uiRedirects_def reactRouteSet_def head_page_None simp del: L.simps not_None_eq)
        (simp_all add: has_prefix_iff)
  qed
  moreover have "notFound rp (P @ L ''/tsdb-status'') = RedirectTo (P @ L ''/cardinality'')"
    by (simp add: below uiRedirects_def)
  moreover have "notFound rp (NAV_API_URL P) = ProxeusUI" "notFound rp (API_URL P) = ProxeusUI"
    by (simp_all add: NAV_API_URL_def API_URL_def below uiRedirects_def reactRouteSet_def)
  ultimately show ?thesis by (simp only: Let_def P_def [symmetric] simp_thms)
qed

theorem page_paths_served_witness:
  "notFound (L ''/foo/'') (L ''/foo/backends'') = Shell \<and> notFound (L ''/foo/'') (NAV_API_URL (L ''/foo'')) = ProxeusUI"
proof -
  have P: "trim_right_slash (L ''/foo/'') = L ''/foo''" "L ''/foo'' @ L ''/backends'' = L ''/foo/backends''"
    by (simp_all add: trim_right_slash_def)
  have "clean_prefix (L ''/foo/'')" by code_simp
  from page_paths_served [OF this, of "L ''/foo/backends''"] show ?thesis
    unfolding Let_def P(1) using P(2) by (simp del: L.simps)
qed

end
