(* ===== verification/CardTree.thy ===== *)
theory CardTree
  imports CardView
begin

text \<open>
  The element trees the Cardinality page's strings denote, the emission lemmas that
  each string is its tree serialised, and facts about the texts the cards show.
\<close>

section \<open>Trees\<close>

definition field_tree :: "ustr \<Rightarrow> ustr \<Rightarrow> ustr \<Rightarrow> attr list \<Rightarrow> ustr \<Rightarrow> html" where
  "field_tree i label value attrs style =
     el ''label'' [att ''style'' (L ''display:flex;flex-direction:column;gap:4px;font-size:0.75rem;'' @ C_MUTED)]
       [Text label,
        Void (L ''input'') ([att ''id'' i, att ''value'' value] @ attrs @ [att ''style'' (C_INPUT @ style)])]"

definition skeleton_trees :: "filters \<Rightarrow> html list" where
  "skeleton_trees f =
     [el ''div'' [att ''style'' (L ''display:flex;align-items:center;justify-content:space-between;margin-bottom:16px;'')]
        [el ''h2'' [att ''style'' (L ''margin:0;font-size:1.25rem;font-weight:600;'' @ C_TEXT)] [Text (L ''Cardinality'')],
         el ''span'' [att ''id'' (L ''proxeus-cardinality-status''), att ''style'' (L ''font-size:0.75rem;'' @ C_MUTED)] []],
      el ''form'' [att ''id'' (L ''proxeus-cardinality-form''),
          att ''style'' (L ''display:flex;flex-wrap:wrap;align-items:flex-end;gap:12px;margin-bottom:8px;'')]
        [field_tree (L ''proxeus-cardinality-topn'') (L ''Top N'') (f_topN f)
           [att ''type'' (L ''number''), att ''min'' (L ''1''), att ''max'' (L ''1000'')] (L ''width:90px;''),
         field_tree (L ''proxeus-cardinality-match'') (L ''Series filter (match[])'') (f_match f)
           [att ''type'' (L ''text''), att ''placeholder'' (L ''{job=\"node\"}''), att ''spellcheck'' (L ''false'')] [],
         field_tree (L ''proxeus-cardinality-focus'') (L ''Focus label'') (f_focusLabel f)
           [att ''type'' (L ''text''), att ''placeholder'' (L ''instance''), att ''spellcheck'' (L ''false'')] [],
         field_tree (L ''proxeus-cardinality-date'') (L ''Date (UTC)'') (f_date f) [att ''type'' (L ''date'')] [],
         el ''button'' [att ''id'' (L ''proxeus-cardinality-apply''), att ''type'' (L ''submit''),
             att ''style'' (L ''padding:7px 16px;border:none;border-radius:4px;background:var(--mantine-color-blue-filled, #228be6);color:#fff;font-size:0.85rem;cursor:pointer;'')]
           [Text (L ''Apply'')]],
      el ''p'' [att ''style'' (L ''margin:0 0 16px;font-size:0.8rem;'' @ C_MUTED)]
        [Text (L ''Each backend is shown separately: series kept by more than one backend would be counted twice in a sum. Series filter, focus label and date apply to VictoriaMetrics only.'')],
      el ''div'' [att ''id'' (L ''proxeus-cardinality-groups'')] []]"

definition stat_text :: "host \<Rightarrow> ustr \<Rightarrow> stat \<Rightarrow> ustr" where
  "stat_text h field r =
     (if field = L ''memoryInBytesByLabelName'' then card_bytes (st_value r) else card_num h (st_value r))"

definition list_row_tree :: "host \<Rightarrow> ustr \<Rightarrow> stat \<Rightarrow> html" where
  "list_row_tree h field r =
     el ''tr'' []
       [el ''td'' [att ''style'' (C_CELL @ C_TEXT @ C_MONO)] [Text (st_name r)],
        el ''td'' [att ''style'' (C_CELL @ C_TEXT @ L ''text-align:right;white-space:nowrap;'')]
          [Text (stat_text h field r)]]"

definition list_tree :: "host \<Rightarrow> (ustr \<times> ustr \<times> ustr \<times> ustr) \<Rightarrow> stat list \<Rightarrow> html" where
  "list_tree h list rows =
     (case list of (field, title, ncol, vcol) \<Rightarrow>
       el ''table'' [att ''data-list'' field, att ''style'' (L ''width:100%;table-layout:fixed;border-collapse:collapse;font-size:0.82rem;'')]
         [el ''colgroup'' [] [Void (L ''col'') [att ''style'' (L ''width:72%'')], Void (L ''col'') [att ''style'' (L ''width:28%'')]],
          el ''caption'' [att ''style'' (L ''text-align:left;padding:0 0 6px;font-size:0.85rem;font-weight:600;'' @ C_TEXT)] [Text title],
          el ''thead'' [] [el ''tr'' [att ''style'' C_TINT]
            [el ''th'' [att ''style'' (C_CELL @ C_TEXT @ L ''font-weight:600;'')] [Text ncol],
             el ''th'' [att ''style'' (C_CELL @ C_TEXT @ L ''font-weight:600;text-align:right;'')] [Text vcol]]],
          el ''tbody'' [] (map (list_row_tree h field) rows)])"

text \<open>The lists of a group that are shown, in the fixed order of the page.\<close>

definition shown_lists :: "cgroup \<Rightarrow> ((ustr \<times> ustr \<times> ustr \<times> ustr) \<times> stat list) list" where
  "shown_lists g =
     filter (\<lambda>(l, rows). rows \<noteq> []) (map (\<lambda>l. (l, or_empty (map_of (c_lists g) (fst l)))) LISTS)"

definition header_tree :: "host \<Rightarrow> cgroup \<Rightarrow> html" where
  "header_tree h g =
     el ''div'' [att ''style'' (L ''padding:12px 16px;'' @ C_TINT @ L ''border-bottom:'' @ C_BORDER @
          L '';display:flex;flex-wrap:wrap;align-items:center;gap:8px;'')]
       ([el ''strong'' [Flag (L ''data-group-name''), att ''style'' (L ''font-size:0.9rem;'' @ C_TEXT)] [Text (c_name g)],
         el ''span'' [att ''style'' (L ''display:inline-block;padding:2px 8px;border-radius:4px;background:'' @
              card_badgeColor h (c_backendType g) @ L '';color:#fff;font-size:0.75rem;font-weight:600;'')]
           [Text (or_else (c_backendType g) (L ''-''))]] @
        (if c_target g \<noteq> []
         then [el ''span'' [att ''style'' (L ''font-size:0.8rem;'' @ C_MUTED @ C_MONO @ L ''overflow-wrap:anywhere;'')] [Text (c_target g)]]
         else []))"

definition summary_trees :: "host \<Rightarrow> cgroup \<Rightarrow> html list" where
  "summary_trees h g =
     (if c_error g \<noteq> []
      then [el ''p'' [Flag (L ''data-error''), att ''style'' (L ''margin:0;font-size:0.85rem;'' @ C_ERR @ L ''overflow-wrap:anywhere;'')]
              [Text (c_error g)]]
      else
        [el ''div'' [att ''style'' (L ''font-size:0.85rem;'' @ C_TEXT)]
           [Text (L ''Series: ''), el ''strong'' [Flag (L ''data-total-series'')] [Text (card_num h (c_totalSeries g))],
            Text (L '' '' @ [0xB7] @ L '' Label=value pairs: ''), el ''strong'' [] [Text (card_num h (c_totalLabelValuePairs g))]],
         el ''div'' [Flag (L ''data-coverage''), att ''style'' (L ''font-size:0.8rem;'' @ C_TEXT)] [Text (coverageText h g)]] @
        (if c_partial g
         then [el ''div'' [att ''style'' (L ''font-size:0.8rem;'' @ C_ERR)] [Text (L ''Partial response: some storage nodes did not answer.'')]]
         else []))"

definition notApplied_trees :: "cgroup \<Rightarrow> html list" where
  "notApplied_trees g =
     (if or_empty (c_notApplied g) \<noteq> []
      then [el ''div'' [Flag (L ''data-not-applied''), att ''style'' (L ''font-size:0.8rem;'' @ C_TEXT)]
              [Text (L ''Not applied, this backend does not support it: '' @
                     join (L '', '') (map filter_name (or_empty (c_notApplied g))))]]
      else [])"

definition tables_trees :: "host \<Rightarrow> cgroup \<Rightarrow> html list" where
  "tables_trees h g =
     (if c_error g = []
      then (if shown_lists g \<noteq> []
            then [el ''div'' [att ''style'' (L ''display:grid;grid-template-columns:repeat(auto-fill,minmax(min(100%,420px),1fr));gap:16px;margin-top:4px;'')]
                   (map (\<lambda>(l, rows). el ''div'' [] [list_tree h l rows]) (shown_lists g))]
            else [el ''p'' [att ''style'' (L ''margin:0;font-size:0.85rem;'' @ C_MUTED)] [Text (L ''No series.'')]])
      else [])"

definition card_tree :: "host \<Rightarrow> cgroup \<Rightarrow> html" where
  "card_tree h g =
     el ''div'' [att ''data-group'' (c_name g), att ''style'' (L ''background:var(--mantine-color-body);border:'' @ C_BORDER @
          L '';border-radius:8px;margin-bottom:16px;overflow:hidden;'')]
       [header_tree h g,
        el ''div'' [att ''style'' (L ''padding:12px 16px;display:flex;flex-direction:column;gap:8px;'')]
          (summary_trees h g @ notApplied_trees g @ tables_trees h g)]"

definition card_groups_trees :: "host \<Rightarrow> cgroup list option \<Rightarrow> html list" where
  "card_groups_trees h groups =
     (if or_empty groups \<noteq> [] then map (card_tree h) (or_empty groups)
      else [el ''p'' [att ''style'' C_MUTED] [Text (L ''No backend groups configured.'')]])"

definition card_error_trees :: "ustr \<Rightarrow> html list" where
  "card_error_trees err = [el ''p'' [att ''style'' C_ERR] [Text (L ''Failed to load cardinality: '' @ err)]]"

section \<open>Escaping\<close>

lemma card_escHtml_eq [simp]: "card_escHtml s = esc_html s"
  by (simp only: card_escHtml_def replace_chain)

interpretation crd: html_escaper card_escHtml
  unfolding card_escHtml_eq [abs_def] by (rule std.html_escaper_axioms)

abbreviation crd_ser :: "html list \<Rightarrow> ustr" where
  "crd_ser \<equiv> ser card_escHtml"

lemma card_badgeColor_safe [esc_simps]: "esc_html (card_badgeColor h b) = card_badgeColor h b"
proof -
  have "esc_html c = c" if "obj_get card_colors k = Some c" for k c
    using obj_get_cases [OF that] by (auto simp: card_colors_def proto_text_def fn_text_def)
  then show ?thesis by (simp add: card_badgeColor_def split: option.split)
qed

lemma card_styles_safe [esc_simps]:
  "esc_html C_TEXT = C_TEXT" "esc_html C_MUTED = C_MUTED" "esc_html C_ERR = C_ERR" "esc_html C_BORDER = C_BORDER"
  "esc_html C_TINT = C_TINT" "esc_html C_MONO = C_MONO" "esc_html C_CELL = C_CELL" "esc_html C_INPUT = C_INPUT"
  by (simp_all add: C_TEXT_def C_MUTED_def C_ERR_def C_BORDER_def C_TINT_def C_MONO_def C_CELL_def C_INPUT_def)

lemma esc_unit_B7 [simp]: "esc_unit 0xB7 = [0xB7]"
  by (simp add: esc_unit_def ch_def)

section \<open>Each string is its tree, serialised\<close>

lemma emit_card_error: "card_error_html err = crd_ser (card_error_trees err)"
  by (simp add: card_error_html_def card_error_trees_def emit_simps esc_simps)

lemma emit_list_row: "list_row h field r = crd_ser [list_row_tree h field r]"
  by (simp add: list_row_def list_row_tree_def stat_text_def emit_simps esc_simps del: L.simps(2))
     (simp add: emit_simps esc_simps)

lemma emit_list_rows: "concat (map (list_row h field) rows) = crd_ser (map (list_row_tree h field) rows)"
  unfolding ser_map by (intro arg_cong [where f = concat] map_cong refl emit_list_row)

lemma LISTS_safe: "(f, t, n, v) \<in> set LISTS \<Longrightarrow> esc_html f = f \<and> esc_html n = n \<and> esc_html v = v"
  by (auto simp: LISTS_def)

lemma emit_listTable:
  assumes "l \<in> set LISTS"
  shows "listTable h g l =
    (let rows = or_empty (map_of (c_lists g) (fst l)) in if rows = [] then [] else crd_ser [list_tree h l rows])"
proof -
  obtain f t n v where l: "l = (f, t, n, v)" by (cases l) auto
  with LISTS_safe assms have s: "esc_html f = f" "esc_html n = n" "esc_html v = v" by blast+
  show ?thesis
    unfolding l listTable_def list_tree_def emit_list_rows prod.case fst_conv
    by (simp add: Let_def s emit_simps esc_simps)
qed

lemma list_tree_nonempty: "crd_ser [list_tree h l rows] \<noteq> []"
  by (cases l) (simp add: list_tree_def emit_simps)

lemma emit_shown:
  "filter (\<lambda>t. t \<noteq> []) (map (listTable h g) LISTS) = map (\<lambda>(l, rows). crd_ser [list_tree h l rows]) (shown_lists g)"
proof -
  have "filter (\<lambda>t. t \<noteq> []) (map (listTable h g) ls) =
      map (\<lambda>(l, rows). crd_ser [list_tree h l rows])
        (filter (\<lambda>(l, rows). rows \<noteq> []) (map (\<lambda>l. (l, or_empty (map_of (c_lists g) (fst l)))) ls))"
    if "set ls \<subseteq> set LISTS" for ls
    using that by (induction ls) (auto simp: emit_listTable Let_def list_tree_nonempty simp del: ser_simps)
  then show ?thesis by (simp add: shown_lists_def)
qed

lemma emit_tables: "card_tables h g = crd_ser (tables_trees h g)"
proof (cases "shown_lists g = []")
  case True
  then show ?thesis
    unfolding card_tables_def tables_trees_def emit_shown by (simp add: Let_def emit_simps esc_simps)
next
  case False
  have W: "crd_ser (map (\<lambda>(l, rows). el ''div'' [] [list_tree h l rows]) ls) =
      concat (map (\<lambda>t. L ''<div>'' @ t @ L ''</div>'') (map (\<lambda>(l, rows). crd_ser [list_tree h l rows]) ls))" for ls
    by (induction ls) (auto simp: emit_simps)
  have ne: "map (\<lambda>(l, rows). crd_ser [list_tree h l rows]) (shown_lists g) \<noteq> []" using False by simp
  show ?thesis
    unfolding card_tables_def tables_trees_def emit_shown Let_def if_P [OF False] if_P [OF ne] join_Nil_concat
    by (cases "c_error g = []") (simp_all only: if_True if_False ser_simps W refl simp_thms, simp add: esc_simps)
qed

lemma emit_header: "card_header h g = crd_ser [header_tree h g]"
  by (simp add: card_header_def header_tree_def emit_simps esc_simps)

lemma emit_summary_trees: "card_summary h g = crd_ser (summary_trees h g)"
  by (simp add: card_summary_def summary_trees_def emit_simps esc_simps)

lemma emit_notApplied: "card_notApplied g = crd_ser (notApplied_trees g)"
  by (simp add: card_notApplied_def notApplied_trees_def emit_simps esc_simps)

lemma emit_card: "card_html h g = crd_ser [card_tree h g]"
proof -
  have "crd_ser [card_tree h g] =
      L ''<div'' @ concat (map (ser_attr card_escHtml) [att ''data-group'' (c_name g),
         att ''style'' (L ''background:var(--mantine-color-body);border:'' @ C_BORDER @
          L '';border-radius:8px;margin-bottom:16px;overflow:hidden;'')]) @ L ''>'' @
      crd_ser [header_tree h g] @
      crd_ser [el ''div'' [att ''style'' (L ''padding:12px 16px;display:flex;flex-direction:column;gap:8px;'')]
          (summary_trees h g @ notApplied_trees g @ tables_trees h g)] @ L ''</div>''"
    unfolding card_tree_def ser_simps(3) ser_Cons [of _ "header_tree h g" "[el ''div'' as cs]" for as cs]
    by (simp add: ser_simps)
  also have "\<dots> = card_html h g"
    unfolding card_html_def emit_header emit_summary_trees emit_notApplied emit_tables ser_simps(1,3) ser_append
    by (simp add: esc_simps)
  finally show ?thesis by simp
qed

lemma emit_cards: "map (card_html h) gs = map (\<lambda>g. crd_ser [card_tree h g]) gs"
  by (intro map_cong refl emit_card)

lemma emit_card_groups: "card_groups_html h groups = crd_ser (card_groups_trees h groups)"
  by (simp add: card_groups_html_def card_groups_trees_def join_Nil_concat emit_cards
      ser_map [of _ "card_tree h"] emit_simps esc_simps)

lemma emit_field:
  assumes "esc_html i = i" "esc_html label = label" "esc_html style = style"
    "concat (map (ser_attr card_escHtml) attrs) = L '' '' @ raw"
  shows "card_field i label value raw style = crd_ser [field_tree i label value attrs style]"
  using assms by (simp add: card_field_def field_tree_def or_else_def emit_simps esc_simps)

lemma emit_fields:
  "card_field (L ''proxeus-cardinality-topn'') (L ''Top N'') v (L ''type=\"number\" min=\"1\" max=\"1000\"'') (L ''width:90px;'') =
     crd_ser [field_tree (L ''proxeus-cardinality-topn'') (L ''Top N'') v
       [att ''type'' (L ''number''), att ''min'' (L ''1''), att ''max'' (L ''1000'')] (L ''width:90px;'')]"
  "card_field (L ''proxeus-cardinality-match'') (L ''Series filter (match[])'') v
       (L ''type=\"text\" placeholder=\"{job=&quot;node&quot;}\" spellcheck=\"false\"'') [] =
     crd_ser [field_tree (L ''proxeus-cardinality-match'') (L ''Series filter (match[])'') v
       [att ''type'' (L ''text''), att ''placeholder'' (L ''{job=\"node\"}''), att ''spellcheck'' (L ''false'')] []]"
  "card_field (L ''proxeus-cardinality-focus'') (L ''Focus label'') v
       (L ''type=\"text\" placeholder=\"instance\" spellcheck=\"false\"'') [] =
     crd_ser [field_tree (L ''proxeus-cardinality-focus'') (L ''Focus label'') v
       [att ''type'' (L ''text''), att ''placeholder'' (L ''instance''), att ''spellcheck'' (L ''false'')] []]"
  "card_field (L ''proxeus-cardinality-date'') (L ''Date (UTC)'') v (L ''type=\"date\"'') [] =
     crd_ser [field_tree (L ''proxeus-cardinality-date'') (L ''Date (UTC)'') v [att ''type'' (L ''date'')] []]"
  by (rule emit_field; simp add: esc_unit_def)+

lemma ser_five: "ser esc [a, b, c, d, e] = ser esc [a] @ ser esc [b] @ ser esc [c] @ ser esc [d] @ ser esc [e]"
  using ser_Cons [of esc a "[b, c, d, e]"] ser_Cons [of esc b "[c, d, e]"] ser_Cons [of esc c "[d, e]"]
    ser_Cons [of esc d "[e]"] by simp

definition skeleton_button :: ustr where
  "skeleton_button =
     L ''<button id=\"proxeus-cardinality-apply\" type=\"submit\" style=\"padding:7px 16px;border:none;border-radius:4px;'' @
     L ''background:var(--mantine-color-blue-filled, #228be6);color:#fff;font-size:0.85rem;cursor:pointer;\">Apply</button>''"

lemma emit_button:
  "skeleton_button =
     crd_ser [el ''button'' [att ''id'' (L ''proxeus-cardinality-apply''), att ''type'' (L ''submit''),
       att ''style'' (L ''padding:7px 16px;border:none;border-radius:4px;background:var(--mantine-color-blue-filled, #228be6);color:#fff;font-size:0.85rem;cursor:pointer;'')]
       [Text (L ''Apply'')]]"
  by (simp add: skeleton_button_def emit_simps)

lemma emit_form:
  "crd_ser [el ''form'' [att ''id'' i, att ''style'' st] cs] =
     L ''<form id=\"'' @ card_escHtml i @ L ''\" style=\"'' @ card_escHtml st @ L ''\">'' @ crd_ser cs @ L ''</form>''"
  by (simp add: emit_simps)

lemma emit_skeleton_top:
  "crd_ser [el ''div'' [att ''style'' (L ''display:flex;align-items:center;justify-content:space-between;margin-bottom:16px;'')]
        [el ''h2'' [att ''style'' (L ''margin:0;font-size:1.25rem;font-weight:600;'' @ C_TEXT)] [Text (L ''Cardinality'')],
         el ''span'' [att ''id'' (L ''proxeus-cardinality-status''), att ''style'' (L ''font-size:0.75rem;'' @ C_MUTED)] []]] =
     L ''<div style=\"display:flex;align-items:center;justify-content:space-between;margin-bottom:16px;\">'' @
     L ''<h2 style=\"margin:0;font-size:1.25rem;font-weight:600;'' @ C_TEXT @ L ''\">Cardinality</h2>'' @
     L ''<span id=\"proxeus-cardinality-status\" style=\"font-size:0.75rem;'' @ C_MUTED @ L ''\"></span>'' @
     L ''</div>''"
  by (simp add: emit_simps esc_simps)

lemma emit_skeleton_bottom:
  "crd_ser [el ''p'' [att ''style'' (L ''margin:0 0 16px;font-size:0.8rem;'' @ C_MUTED)]
        [Text (L ''Each backend is shown separately: series kept by more than one backend would be counted twice in a sum. Series filter, focus label and date apply to VictoriaMetrics only.'')]] @
   crd_ser [el ''div'' [att ''id'' (L ''proxeus-cardinality-groups'')] []] =
     L ''<p style=\"margin:0 0 16px;font-size:0.8rem;'' @ C_MUTED @ L ''\">Each backend is shown separately: series kept by more than one '' @
     L ''backend would be counted twice in a sum. Series filter, focus label and date apply to VictoriaMetrics only.</p>'' @
     L ''<div id=\"proxeus-cardinality-groups\"></div>''"
  by (simp add: emit_simps esc_simps)

lemma ser_four: "ser esc [a, b, c, d] = ser esc [a] @ ser esc [b] @ ser esc [c] @ ser esc [d]"
  using ser_Cons [of esc a "[b, c, d]"] ser_Cons [of esc b "[c, d]"] ser_Cons [of esc c "[d]"] by simp

lemma form_attrs_safe:
  "card_escHtml (L ''proxeus-cardinality-form'') = L ''proxeus-cardinality-form''"
  "card_escHtml (L ''display:flex;flex-wrap:wrap;align-items:flex-end;gap:12px;margin-bottom:8px;'') =
     L ''display:flex;flex-wrap:wrap;align-items:flex-end;gap:12px;margin-bottom:8px;''"
  by simp_all

lemma form_open:
  "L ''<form id=\"proxeus-cardinality-form\" style=\"display:flex;flex-wrap:wrap;align-items:flex-end;gap:12px;margin-bottom:8px;\">'' =
     L ''<form id=\"'' @ L ''proxeus-cardinality-form'' @ L ''\" style=\"'' @
     L ''display:flex;flex-wrap:wrap;align-items:flex-end;gap:12px;margin-bottom:8px;'' @ L ''\">''"
  by simp

lemma emit_skeleton: "card_skeleton f = crd_ser (skeleton_trees f)"
  unfolding skeleton_trees_def ser_four emit_skeleton_top emit_skeleton_bottom emit_form ser_five
    emit_fields [symmetric] emit_button [symmetric] form_attrs_safe card_skeleton_def form_open skeleton_button_def
    append_assoc
  by (rule refl)

section \<open>The trees are well formed\<close>

lemma list_tree_ok: "tree_ok (list_tree h l rows)"
  by (cases l) (auto simp: list_tree_def list_row_tree_def name_ok_L void_tags_def list_all_iff simp del: L.simps)

lemma card_tree_ok: "tree_ok (card_tree h g)"
  by (auto simp: card_tree_def header_tree_def summary_trees_def notApplied_trees_def tables_trees_def
      list_tree_ok name_ok_L void_tags_def list_all_iff simp del: L.simps)

lemma card_groups_ok: "list_all tree_ok (card_groups_trees h groups)"
  by (auto simp: card_groups_trees_def card_tree_ok name_ok_L void_tags_def list_all_iff simp del: L.simps)

lemma card_error_ok: "list_all tree_ok (card_error_trees err)"
  by (auto simp: card_error_trees_def name_ok_L void_tags_def list_all_iff simp del: L.simps)

lemma skeleton_ok: "list_all tree_ok (skeleton_trees f)"
  by (auto simp: skeleton_trees_def field_tree_def name_ok_L void_tags_def list_all_iff simp del: L.simps)

section \<open>Byte counts\<close>

text \<open>The loop divides by 1024 as often as it counts, and stops below 1024 or at TiB.\<close>

lemma bytes_loop_inv:
  "bytes_loop i n = (j, m) \<Longrightarrow> i \<le> 4 \<Longrightarrow> i \<le> j \<and> j \<le> 4 \<and> m * 1024 ^ (j - i) = n \<and> (j < 4 \<longrightarrow> m < 1024) \<and> (i < j \<longrightarrow> 1 \<le> m)"
proof (induction i n arbitrary: j m rule: bytes_loop.induct)
  case (1 i n)
  have len: "length byte_units - 1 = 4" by (simp add: byte_units_def)
  show ?case
  proof (cases "1024 \<le> n \<and> i < 4")
    case True
    with "1.prems" len have "bytes_loop (Suc i) (n / 1024) = (j, m)"
      by (subst (asm) bytes_loop.simps) simp
    with "1.IH" True len have IH: "Suc i \<le> j" "j \<le> 4" "m * 1024 ^ (j - Suc i) = n / 1024"
      "j < 4 \<longrightarrow> m < 1024" "Suc i < j \<longrightarrow> 1 \<le> m" by auto
    then obtain d where d: "j = Suc (i + d)" by (metis add_Suc less_eqE)
    with IH(3) have "m * 1024 ^ (j - i) = n" by simp
    moreover have "1 \<le> m"
    proof (cases d)
      case 0
      with IH(3) d True show ?thesis by simp
    next
      case (Suc k)
      with IH(5) d show ?thesis by simp
    qed
    ultimately show ?thesis using IH by simp
  next
    case False
    with "1.prems" len have "j = i" "m = n" by (subst (asm) bytes_loop.simps, auto)+
    with False "1.prems" show ?thesis by auto
  qed
qed

section \<open>Properties\<close>

text \<open>
  C4: Whatever text the cardinality data or a failure contains, a browser reads the markup built for it as
  exactly the intended elements, the backends' metric names, label values, targets and error texts
  being plain text and attribute values.
\<close>

theorem cardinality_injection_free:
  "parse (card_groups_html h groups) = Some (tidy (card_groups_trees h groups)) \<and>
   parse (card_error_html e) = Some (tidy (card_error_trees e))"
  by (simp only: emit_card_groups emit_card_error crd.parse_ser [OF card_groups_ok] crd.parse_ser [OF card_error_ok])

text \<open>
  The filters come from the page's address, so anyone can choose them in a link: the form built around
  them is still read as exactly the intended elements, each filter being the value of its field.
\<close>

lemma skeleton_injection_free: "parse (card_skeleton f) = Some (tidy (skeleton_trees f))"
  by (simp only: emit_skeleton crd.parse_ser [OF skeleton_ok])

text \<open>
  A byte count is shown exactly scaled: with the unit's power of 1024 factored out, in the largest unit
  up to TiB in which it is at least one, and below 1024 of it unless there is no larger unit.
\<close>

lemma bytes_scaled:
  "\<exists>i m. card_bytes v = (if i = 0 then show_int v else to_fixed 1 m) @ L '' '' @ L (byte_units ! i) \<and>
     m * 1024 ^ i = of_int v \<and> i < length byte_units \<and> (i = 4 \<or> m < 1024) \<and> (i = 0 \<or> 1 \<le> m)"
proof -
  obtain i m where l: "bytes_loop 0 (of_int v) = (i, m)" by (cases "bytes_loop 0 (of_int v)")
  have "card_bytes v = (if i = 0 then show_int v else to_fixed 1 m) @ L '' '' @ L (byte_units ! i)"
    by (simp add: card_bytes_def l)
  with bytes_loop_inv [OF l] show ?thesis by (intro exI [of _ i] exI [of _ m]) (auto simp: byte_units_def)
qed

end
