(* ===== verification/CardPage.thy ===== *)
theory CardPage
  imports CardTree CardQuery HeadNav Async
begin

text \<open>
  The life of the Cardinality page (\<open>load\<close>, \<open>render\<close>, the form's submit handler and the
  mutation observer of \<open>cmd/proxeus/ui/cardinality.js\<close>): the skeleton is rendered once,
  every submit reads the form and starts another load, and every response replaces the
  groups, whichever load it answers.
\<close>

section \<open>Responses\<close>

text \<open>
  Rejected, or answered with a status: the text of the body, read when the status is
  not a success, and the body as JSON (its \<open>groups\<close>), each of which can fail.
\<close>

datatype card_response =
    CRejected js_error
  | CResponse nat "js_error + ustr" "js_error + cgroup list option"

fun card_result :: "card_response \<Rightarrow> js_error + cgroup list option" where
  "card_result (CRejected e) = Inl e"
| "card_result (CResponse status text json) =
     (if \<not> (200 \<le> status \<and> status \<le> 299) then
        (case text of Inl e \<Rightarrow> Inl e
         | Inr t \<Rightarrow> Inl \<lparr>e_name = L ''Error'', e_message = or_else (trim t) (L ''HTTP '' @ show_nat status)\<rparr>)
      else json)"

section \<open>The page\<close>

text \<open>
  Whether React has mounted \<open>main\<close>, the skeleton the container was filled with, the
  texts of the status element and the content of the groups element (both part of the
  skeleton), the script's flags and filters, the shared window, and the requests under
  way with the address each was sent to.
\<close>

record card_page =
  k_main :: bool
  k_skeleton :: "html list option"
  k_status :: "ustr option"
  k_groups :: "html list option"
  k_rendered :: bool
  k_observing :: bool
  k_filters :: filters
  k_window :: window
  k_inflight :: "(nat \<times> ustr) list"
  k_issued :: nat

text \<open>\<open>innerHTML\<close>; what this page assigns is always read (\<open>card_read\<close> below).\<close>

definition card_inner_html :: "ustr \<Rightarrow> html list" where
  "card_inner_html s = (case parse s of Some f \<Rightarrow> f | None \<Rightarrow> [])"

definition card_load :: "card_page \<Rightarrow> card_page" where
  "card_load p =
     p\<lparr>k_status := map_option (\<lambda>_. L ''Loading...'') (k_status p),
       k_inflight := k_inflight p @ [(k_issued p, card_url (w_prefix (k_window p)) (k_filters p))],
       k_issued := Suc (k_issued p)\<rparr>"

definition card_settle :: "host \<Rightarrow> card_response \<Rightarrow> card_page \<Rightarrow> card_page" where
  "card_settle h r p =
     (case card_result r of
        Inr groups \<Rightarrow>
          p\<lparr>k_groups := map_option (\<lambda>_. card_inner_html (card_groups_html h groups)) (k_groups p),
            k_status := map_option (\<lambda>_. L ''Updated '' @ locale_time h (clock h)) (k_status p)\<rparr>
      | Inl err \<Rightarrow>
          p\<lparr>k_groups := map_option (\<lambda>_. card_inner_html (card_error_html (or_else (e_message err) (err_string err)))) (k_groups p),
            k_status := map_option (\<lambda>_. []) (k_status p)\<rparr>)"

definition card_render :: "card_page \<Rightarrow> card_page" where
  "card_render p =
     (if k_rendered p then p
      else if \<not> k_main p then p
      else card_load
        (p\<lparr>k_rendered := True, k_skeleton := Some (card_inner_html (card_skeleton (k_filters p))),
           k_status := Some [], k_groups := Some [], k_window := (k_window p)\<lparr>w_navReady := True\<rparr>\<rparr>))"

definition card_submit :: "filters \<Rightarrow> card_page \<Rightarrow> card_page" where
  "card_submit form p =
     card_load
       (p\<lparr>k_filters := \<lparr>f_topN = trim (f_topN form), f_match = trim (f_match form),
            f_focusLabel = trim (f_focusLabel form), f_date = trim (f_date form)\<rparr>\<rparr>)"

definition card_observe :: "card_page \<Rightarrow> card_page" where
  "card_observe p =
     (if k_observing p
      then (let p = card_render p in if k_rendered p then p\<lparr>k_observing := False\<rparr> else p)
      else p)"

text \<open>
  Loading the script on a page whose address has the given query; on any other page of
  the shell it does nothing.
\<close>

definition card_boot :: "window \<Rightarrow> ustr \<Rightarrow> bool \<Rightarrow> card_page option" where
  "card_boot w search mounted =
     (if w_page w \<noteq> Some (w_prefix w @ L ''/cardinality'') then None
      else Some (card_render
        \<lparr>k_main = mounted, k_skeleton = None, k_status = None, k_groups = None, k_rendered = False,
         k_observing = True, k_filters = card_filters search, k_window = w, k_inflight = [], k_issued = 0\<rparr>))"

datatype card_event =
    CMounted
  | CMutation
  | CSubmit filters
  | CAnswer host nat card_response
  | CPush ustr

fun card_step :: "card_event \<Rightarrow> card_page \<Rightarrow> card_page" where
  "card_step CMounted p = p\<lparr>k_main := True\<rparr>"
| "card_step CMutation p = card_observe p"
| "card_step (CSubmit form) p = (if k_rendered p then card_submit form p else p)"
| "card_step (CAnswer h i r) p =
     (if i \<in> fst ` set (k_inflight p)
      then (card_settle h r p)\<lparr>k_inflight := filter (\<lambda>e. fst e \<noteq> i) (k_inflight p)\<rparr> else p)"
| "card_step (CPush u) p = p\<lparr>k_window := pushState u (k_window p)\<rparr>"

section \<open>Facts\<close>

lemma card_read:
  "card_inner_html (card_groups_html h groups) = tidy (card_groups_trees h groups)"
  "card_inner_html (card_error_html e) = tidy (card_error_trees e)"
  "card_inner_html (card_skeleton f) = tidy (skeleton_trees f)"
  by (simp_all only: card_inner_html_def emit_card_groups emit_card_error emit_skeleton
      crd.parse_ser [OF card_groups_ok] crd.parse_ser [OF card_error_ok] crd.parse_ser [OF skeleton_ok] option.case)

interpretation card_once: observer_callback card_observe "\<lambda>_. True"
proof unfold_locales
  fix p
  show "card_observe (card_observe p) = card_observe p"
    by (auto simp: card_observe_def card_render_def card_load_def Let_def)
qed simp

definition card_shown :: "host \<times> card_response \<Rightarrow> html list option option" where
  "card_shown hr =
     Some (Some (tidy (case card_result (snd hr) of
                         Inl err \<Rightarrow> card_error_trees (or_else (e_message err) (err_string err))
                       | Inr groups \<Rightarrow> card_groups_trees (fst hr) groups)))"

interpretation card_view: response_view "\<lambda>(h, r). card_settle h r" k_groups card_shown "\<lambda>p. k_groups p \<noteq> None"
proof unfold_locales
  fix p :: card_page and hr :: "host \<times> card_response"
  assume p: "k_groups p \<noteq> None"
  show "k_groups ((case hr of (h, r) \<Rightarrow> card_settle h r) p) \<noteq> None"
    using p by (cases hr) (simp add: card_settle_def split: sum.split)
  show "k_groups ((case hr of (h, r) \<Rightarrow> card_settle h r) p) =
      (case card_shown hr of Some v \<Rightarrow> v | None \<Rightarrow> k_groups p)"
    using p by (cases hr) (auto simp: card_settle_def card_shown_def card_read split: sum.split)
qed

text \<open>
  The skeleton is there exactly when the script has rendered, and only then is
  navigation released; the observer stops only after that; requests are numbered in the
  order they are sent, and some have been sent exactly when the page is rendered.
\<close>

definition card_inv :: "card_page \<Rightarrow> bool" where
  "card_inv p \<longleftrightarrow>
     (k_skeleton p = None \<longleftrightarrow> \<not> k_rendered p) \<and> (k_status p = None \<longleftrightarrow> \<not> k_rendered p) \<and>
     (k_groups p = None \<longleftrightarrow> \<not> k_rendered p) \<and> (k_rendered p \<longrightarrow> w_navReady (k_window p)) \<and>
     (\<not> k_observing p \<longrightarrow> k_rendered p) \<and> (0 < k_issued p \<longleftrightarrow> k_rendered p) \<and>
     sorted_wrt (<) (map fst (k_inflight p)) \<and> (\<forall>e \<in> set (k_inflight p). fst e < k_issued p)"

lemma card_inv_load:
  "card_inv p \<Longrightarrow> k_rendered p \<Longrightarrow> card_inv (card_load p)"
  by (fastforce simp: card_inv_def card_load_def sorted_wrt_append)

lemma card_inv_render: "card_inv p \<Longrightarrow> card_inv (card_render p)"
  by (auto simp: card_inv_def card_render_def card_load_def sorted_wrt_append)

lemma card_render_observing [simp]: "k_observing (card_render p) = k_observing p"
  by (simp add: card_render_def card_load_def)

lemma card_inv_observe: "card_inv p \<Longrightarrow> card_inv (card_observe p)"
  using card_inv_render [of p] by (auto simp: card_observe_def Let_def card_inv_def)

lemma card_inv_submit: "card_inv p \<Longrightarrow> k_rendered p \<Longrightarrow> card_inv (card_submit form p)"
  unfolding card_submit_def by (rule card_inv_load) (auto simp: card_inv_def)

lemma card_settle_frame [simp]:
  "k_main (card_settle h r p) = k_main p" "k_skeleton (card_settle h r p) = k_skeleton p"
  "k_status (card_settle h r p) = None \<longleftrightarrow> k_status p = None"
  "k_groups (card_settle h r p) = None \<longleftrightarrow> k_groups p = None"
  "k_rendered (card_settle h r p) = k_rendered p" "k_observing (card_settle h r p) = k_observing p"
  "k_filters (card_settle h r p) = k_filters p" "k_window (card_settle h r p) = k_window p"
  "k_issued (card_settle h r p) = k_issued p"
  by (auto simp: card_settle_def split: sum.split)

lemma card_inv_answer: "card_inv p \<Longrightarrow> card_inv (card_step (CAnswer h i r) p)"
proof -
  assume p: "card_inv p"
  have "sorted_wrt (<) (map fst (filter (\<lambda>e. fst e \<noteq> i) (k_inflight p)))"
    using p by (simp add: card_inv_def sorted_wrt_filter sorted_wrt_map)
  with p show ?thesis by (auto simp: card_inv_def)
qed

lemma push_navReady: "w_navReady (pushState u w) = w_navReady w"
  by (simp add: pushState_def)

lemma card_inv_step: "card_inv p \<Longrightarrow> card_inv (card_step e p)"
proof (cases e)
  case CMounted
  then show "card_inv p \<Longrightarrow> ?thesis" unfolding card_inv_def by simp
next
  case CMutation
  then show "card_inv p \<Longrightarrow> ?thesis" by (simp add: card_inv_observe)
next
  case (CSubmit form)
  then show "card_inv p \<Longrightarrow> ?thesis" by (simp add: card_inv_submit)
next
  case (CAnswer h i r)
  then show "card_inv p \<Longrightarrow> ?thesis" using card_inv_answer by blast
next
  case (CPush u)
  then show "card_inv p \<Longrightarrow> ?thesis" by (simp add: card_inv_def push_navReady)
qed

lemma card_inv_run: "card_inv p \<Longrightarrow> card_inv (fold card_step es p)"
  by (induction es arbitrary: p) (simp_all add: card_inv_step)

lemma card_inv_boot: "card_boot w search mounted = Some p \<Longrightarrow> card_inv p"
  by (auto simp: card_boot_def card_inv_def card_render_def card_load_def split: if_splits)

text \<open>
  Two loads answered in the opposite order: the page holds the second filters, but shows
  what the first ones asked for, marked as up to date.
\<close>

lemma swapped_answers:
  assumes p: "card_inv p" "k_rendered p" and n: "k_issued p = n"
    and rf: "card_result rf = Inr gf" and rg: "card_result rg = Inr gg"
  shows "k_groups (fold card_step [CSubmit f, CSubmit g, CAnswer h (Suc n) rg, CAnswer h' n rf] p) =
      Some (tidy (card_groups_trees h' gf))"
    and "f_match (k_filters (fold card_step [CSubmit f, CSubmit g, CAnswer h (Suc n) rg, CAnswer h' n rf] p)) = trim (f_match g)"
    and "k_status (fold card_step [CSubmit f, CSubmit g, CAnswer h (Suc n) rg, CAnswer h' n rf] p) =
      Some (L ''Updated '' @ locale_time h' (clock h'))"
proof -
  obtain s gs where s: "k_status p = Some s" "k_groups p = Some gs"
    using p unfolding card_inv_def by (cases "k_status p"; cases "k_groups p") simp_all
  define q where "q = card_step (CSubmit g) (card_step (CSubmit f) p)"
  have q: "(n, card_url (w_prefix (k_window p)) (k_filters (card_submit f p))) \<in> set (k_inflight q)"
    "(Suc n, card_url (w_prefix (k_window p)) (k_filters q)) \<in> set (k_inflight q)"
    "k_status q = Some (L ''Loading...'')" "k_groups q = Some gs" "f_match (k_filters q) = trim (f_match g)"
    using p n s by (simp_all add: q_def card_submit_def card_load_def)
  from q have m: "Suc n \<in> fst ` set (k_inflight q)"
    "n \<in> fst ` set (filter (\<lambda>e. fst e \<noteq> Suc n) (k_inflight q))"
    by force+
  have e: "fold card_step [CSubmit f, CSubmit g, CAnswer h (Suc n) rg, CAnswer h' n rf] p =
      card_step (CAnswer h' n rf) (card_step (CAnswer h (Suc n) rg) q)"
    by (simp add: q_def)
  show "k_groups (fold card_step [CSubmit f, CSubmit g, CAnswer h (Suc n) rg, CAnswer h' n rf] p) =
      Some (tidy (card_groups_trees h' gf))"
    "f_match (k_filters (fold card_step [CSubmit f, CSubmit g, CAnswer h (Suc n) rg, CAnswer h' n rf] p)) = trim (f_match g)"
    "k_status (fold card_step [CSubmit f, CSubmit g, CAnswer h (Suc n) rg, CAnswer h' n rf] p) =
      Some (L ''Updated '' @ locale_time h' (clock h'))"
    unfolding e using m q rf rg by (simp_all add: card_settle_def card_read)
qed

section \<open>Properties\<close>

lemma card_mono_step:
  "(k_rendered p \<longrightarrow> k_rendered (card_step e p)) \<and> (k_main p \<longrightarrow> k_main (card_step e p))"
  by (cases e) (auto simp: card_observe_def card_render_def card_load_def card_submit_def Let_def)

lemma card_mono_run:
  "(k_rendered p \<longrightarrow> k_rendered (fold card_step es p)) \<and> (k_main p \<longrightarrow> k_main (fold card_step es p))"
  by (induction es arbitrary: p) (use card_mono_step in auto)

lemma card_mutation_renders: "card_inv p \<Longrightarrow> k_main p \<Longrightarrow> k_rendered (card_step CMutation p)"
  by (auto simp: card_inv_def card_observe_def card_render_def card_load_def Let_def)

text \<open>
  C19: On its own page the script renders once React has mounted \<open>main\<close> and a mutation is observed afterwards,
  whatever else happens before, between and after: the form, the status and the groups are there, a
  load has been started and navigation is released.
\<close>

theorem cardinality_page_appears:
  assumes "w_page w = Some (w_prefix w @ L ''/cardinality'')"
  shows "\<exists>p0. card_boot w search mounted = Some p0 \<and>
    (let p = fold card_step (es1 @ [CMounted] @ es2 @ [CMutation] @ es3) p0 in
      k_rendered p \<and> k_skeleton p \<noteq> None \<and> k_status p \<noteq> None \<and> k_groups p \<noteq> None \<and> 0 < k_issued p \<and>
      w_navReady (k_window p))"
proof -
  obtain p0 where b: "card_boot w search mounted = Some p0" using assms by (simp add: card_boot_def)
  define p1 where "p1 = fold card_step (es1 @ [CMounted] @ es2) p0"
  define p where "p = fold card_step es3 (card_step CMutation p1)"
  have i1: "card_inv p1" unfolding p1_def by (rule card_inv_run [OF card_inv_boot [OF b]])
  have "k_main p1" using card_mono_run [of "card_step CMounted (fold card_step es1 p0)" es2] by (simp add: p1_def)
  then have r: "k_rendered p"
    using card_mutation_renders [OF i1] card_mono_run [of "card_step CMutation p1" es3] unfolding p_def by blast
  have i: "card_inv p" unfolding p_def by (intro card_inv_run card_inv_step i1)
  have "fold card_step (es1 @ [CMounted] @ es2 @ [CMutation] @ es3) p0 = p" by (simp add: p_def p1_def)
  with b r i show ?thesis by (intro exI [of _ p0]) (simp add: card_inv_def Let_def del: not_None_eq)
qed

definition card_window :: window where
  "card_window = \<lparr>w_prefix = [], w_pathname = L ''/cardinality'', w_page = Some (L ''/cardinality''), w_navReady = False,
     w_wrapped = True, w_entries = []\<rparr>"

theorem cardinality_page_appears_witness:
  "\<exists>p0. card_boot card_window [] False = Some p0 \<and> k_rendered (fold card_step [CMounted, CMutation] p0)"
  using cardinality_page_appears [of card_window "[]" False "[]" "[]" "[]"] by (auto simp: card_window_def Let_def)

text \<open>
  After any sequence of responses, the groups are those of the last response to arrive: its groups if it
  succeeded, otherwise the text of the failure, which for an HTTP error is the trimmed body or, where
  that is empty, the status.
\<close>

lemma cardinality_last_response_shown:
  assumes "k_groups p \<noteq> None"
  shows "k_groups (fold (\<lambda>(h, r). card_settle h r) (earlier @ [(h, CResponse 200 text (Inr groups))]) p) =
      Some (tidy (card_groups_trees h groups)) \<and>
    k_groups (fold (\<lambda>(h, r). card_settle h r) (earlier @ [(h, CResponse 502 (Inr body) json)]) p) =
      Some (tidy (card_error_trees (if trim body = [] then L ''HTTP 502'' else trim body)))"
proof -
  have l: "k_groups (fold (\<lambda>(h, r). card_settle h r) (earlier @ (h, r) # []) p) = v" if "card_shown (h, r) = Some v" for r v
    by (rule card_view.view_last_success [OF assms that]) simp
  have n: "L ''HTTP '' @ show_nat 502 = L ''HTTP 502''" by (simp add: show_nat_big show_nat_small)
  show ?thesis
    using l [OF card_shown_def, of "CResponse 200 text (Inr groups)"] l [OF card_shown_def, of "CResponse 502 (Inr body) json"]
    by (auto simp: or_else_def n [simplified] n err_string_def)
qed

text \<open>
  Loads are not ordered: submit one set of filters and then another, and let the second answer arrive
  first. The page then holds the second filters but shows the groups of the first, as up to date.
\<close>

lemma stale_answer_shown:
  assumes "card_inv p" "k_rendered p" "card_result rf = Inr gf" "card_result rg = Inr gg"
  shows "let q = fold card_step [CSubmit f, CSubmit g, CAnswer h (Suc (k_issued p)) rg, CAnswer h' (k_issued p) rf] p in
    k_groups q = Some (tidy (card_groups_trees h' gf)) \<and> f_match (k_filters q) = trim (f_match g) \<and>
    k_status q = Some (L ''Updated '' @ locale_time h' (clock h'))"
  using swapped_answers [OF assms(1,2) refl assms(3,4)] unfolding Let_def by blast

end
