(* ===== verification/StatsFetch.thy ===== *)
theory StatsFetch
  imports CardQuery
begin

text \<open>
  The \<open>fetch\<close> wrapper of the query page (\<open>cmd/proxeus/ui/stats.js\<close>): range queries of the
  page's own origin that do not ask for stats get \<open>stats=true\<close>; every other request, and
  every input that is not a string or not a URL, is passed on untouched.
\<close>

section \<open>URLs\<close>

text \<open>
  A parsed URL with a host, by its WHATWG components: the scheme with its colon, the
  credentials with their \<open>@\<close>, the host with its port, the path, and the query and fragment
  with their leading character, empty when there is none.
\<close>

record url =
  u_protocol :: ustr
  u_userinfo :: ustr
  u_host :: ustr
  u_pathname :: ustr
  u_search :: ustr
  u_hash :: ustr

definition tuple_schemes :: "ustr list" where
  "tuple_schemes = [L ''http:'', L ''https:'', L ''ws:'', L ''wss:'', L ''ftp:'']"

definition url_origin :: "url \<Rightarrow> ustr" where
  "url_origin u =
     (if u_protocol u \<in> set tuple_schemes then u_protocol u @ L ''//'' @ u_host u else L ''null'')"

definition url_toString :: "url \<Rightarrow> ustr" where
  "url_toString u =
     u_protocol u @ L ''//'' @ u_userinfo u @ u_host u @ u_pathname u @ u_search u @ u_hash u"

text \<open>\<open>u.searchParams\<close>, and what \<open>u.searchParams.set\<close> does to the URL it belongs to.\<close>

definition url_params :: "url \<Rightarrow> search_params" where
  "url_params u = usp_parse (u_search u)"

definition url_set_param :: "ustr \<Rightarrow> ustr \<Rightarrow> url \<Rightarrow> url" where
  "url_set_param k v u =
     (let q = usp_toString (usp_set k v (url_params u))
      in u\<lparr>u_search := (if q = [] then [] else L ''?'' @ q)\<rparr>)"

section \<open>The wrapper\<close>

definition API_PREFIX :: "ustr \<Rightarrow> ustr" where
  "API_PREFIX PREFIX = PREFIX @ L ''/api/v1/''"

definition isRangeQuery :: "ustr \<Rightarrow> url \<Rightarrow> url \<Rightarrow> bool" where
  "isRangeQuery PREFIX location u \<longleftrightarrow>
     url_origin u = url_origin location \<and> u_pathname u = API_PREFIX PREFIX @ L ''query_range''"

datatype 'o stats_input = SStr ustr | SObj 'o

text \<open>
  \<open>parse_url\<close> is the browser's URL parser, \<open>parse_url base input\<close>, \<open>None\<close> where the constructor
  throws; \<open>location\<close> is the page's own URL.
\<close>

fun stats_fetch_input :: "(url \<Rightarrow> ustr \<Rightarrow> url option) \<Rightarrow> ustr \<Rightarrow> url \<Rightarrow> 'o stats_input \<Rightarrow> 'o stats_input" where
  "stats_fetch_input parse_url PREFIX location (SObj r) = SObj r"
| "stats_fetch_input parse_url PREFIX location (SStr input) =
     (case parse_url location input of
        None \<Rightarrow> SStr input
      | Some u \<Rightarrow>
          if isRangeQuery PREFIX location u \<and> usp_get (L ''stats'') (url_params u) = None
          then SStr (url_toString (url_set_param (L ''stats'') (L ''true'') u))
          else SStr input)"

section \<open>Parameters survive the rewriting\<close>

text \<open>What a byte sequence under way can still decode to.\<close>

fun decode_ok :: "nat \<Rightarrow> nat \<Rightarrow> nat \<Rightarrow> nat \<Rightarrow> bool" where
  "decode_ok 0 lo hi cp \<longleftrightarrow> True"
| "decode_ok (Suc 0) lo hi cp \<longleftrightarrow> (\<forall>b. lo \<le> b \<and> b \<le> hi \<longrightarrow> scalar (cp * 64 + (b - 0x80)))"
| "decode_ok (Suc (Suc n)) lo hi cp \<longleftrightarrow>
     (\<forall>b. lo \<le> b \<and> b \<le> hi \<longrightarrow> decode_ok (Suc n) 0x80 0xBF (cp * 64 + (b - 0x80)))"

lemma decode_ok_two: "0xC2 \<le> b \<Longrightarrow> b \<le> 0xDF \<Longrightarrow> decode_ok 1 0x80 0xBF (b - 0xC0)"
  by (auto simp: scalar_def)

lemma decode_ok_three:
  "0xE0 \<le> b \<Longrightarrow> b \<le> 0xEF \<Longrightarrow>
     decode_ok 2 (if b = 0xE0 then 0xA0 else 0x80) (if b = 0xED then 0x9F else 0xBF) (b - 0xE0)"
  unfolding numeral_2_eq_2 decode_ok.simps scalar_def by (intro allI impI) (auto split: if_splits)

lemma decode_ok_four:
  "0xF0 \<le> b \<Longrightarrow> b \<le> 0xF4 \<Longrightarrow>
     decode_ok 3 (if b = 0xF0 then 0x90 else 0x80) (if b = 0xF4 then 0x8F else 0xBF) (b - 0xF0)"
  unfolding numeral_3_eq_3 decode_ok.simps scalar_def by (intro allI impI) (auto split: if_splits)

lemma utf8_go_scalar: "decode_ok need lo hi cp \<Longrightarrow> list_all scalar (utf8_go need lo hi cp bs)"
proof (induction need lo hi cp bs rule: utf8_go.induct)
  case (1 need lo hi cp)
  then show ?case by (simp add: scalar_def)
next
  case (2 need lo hi cp b bs)
  show ?case
  proof (cases "need = 0")
    case True
    consider "b < 0x80" | "0x80 \<le> b" "b < 0xC2" | "0xC2 \<le> b" "b \<le> 0xDF" | "0xE0 \<le> b" "b \<le> 0xEF"
      | "0xF0 \<le> b" "b \<le> 0xF4" | "0xF4 < b" by linarith
    then show ?thesis
    proof cases
      case 3
      with True 2 decode_ok_two [of b] show ?thesis by simp
    next
      case 4
      with True 2 decode_ok_three [of b] show ?thesis by simp
    next
      case 5
      with True 2 decode_ok_four [of b] show ?thesis by simp
    qed (use True 2 in \<open>simp_all add: scalar_def\<close>)
  next
    case False
    then obtain n where n: "need = Suc n" by (cases need) auto
    show ?thesis
    proof (cases "lo \<le> b \<and> b \<le> hi")
      case True
      with n 2 show ?thesis by (cases n) auto
    next
      case out: False
      with n have "utf8_go need lo hi cp (b # bs) = 0xFFFD # utf8_go 0 0 0 0 (b # bs)"
        by (subst utf8_go.simps) (simp only: nat.distinct if_False)
      moreover have "list_all scalar (utf8_go 0 0 0 0 (b # bs))"
        by (rule "2.IH") (use n out in simp_all)
      moreover have "scalar 0xFFFD" by (simp add: scalar_def)
      ultimately show ?thesis by (simp only: list.pred_inject)
    qed
  qed
qed

lemma well_formed16_units: "scalar cp \<Longrightarrow> well_formed16 (utf16_units cp @ s) \<longleftrightarrow> well_formed16 s"
proof (cases "cp < 0x10000")
  case True
  assume "scalar cp"
  with True have "\<not> high_surrogate (word_of_nat cp)" "\<not> low_surrogate (word_of_nat cp)"
    unfolding high_surrogate_def low_surrogate_def scalar_def unat_of_nat by auto
  with True show ?thesis by (cases s) (simp_all add: utf16_units_def)
next
  case False
  assume "scalar cp"
  with False have "(cp - 0x10000) div 0x400 < 0x400" by (simp add: scalar_def less_mult_imp_div_less)
  moreover have "(cp - 0x10000) mod 0x400 < 0x400" by simp
  ultimately have "high_surrogate (word_of_nat (0xD800 + (cp - 0x10000) div 0x400))"
    "low_surrogate (word_of_nat (0xDC00 + (cp - 0x10000) mod 0x400))"
    unfolding high_surrogate_def low_surrogate_def unat_of_nat by simp_all
  with False show ?thesis by (simp add: utf16_units_def)
qed

lemma well_formed16_scalars: "list_all scalar cps \<Longrightarrow> well_formed16 (to_utf16 cps)"
  unfolding to_utf16_def by (induction cps) (simp_all add: well_formed16_units)

lemma usp_entry_well_formed: "well_formed16 (fst (usp_entry seg)) \<and> well_formed16 (snd (usp_entry seg))"
  unfolding usp_entry_def utf8_decode_def by (simp add: well_formed16_scalars utf8_go_scalar)

lemma usp_parse_well_formed: "list_all (\<lambda>(k, v). well_formed16 k \<and> well_formed16 v) (usp_parse s)"
  using usp_entry_well_formed by (auto simp: usp_parse_def list_all_iff split_beta)

lemma usp_set_new: "usp_get k ps = None \<Longrightarrow> usp_set k v ps = ps @ [(k, v)]"
  by (auto simp: usp_set_def usp_get_def map_of_eq_None_iff)

lemma toString_neq_Nil: "ps \<noteq> [] \<Longrightarrow> usp_toString ps \<noteq> []"
proof -
  assume "ps \<noteq> []"
  then obtain k v ps' where p: "ps = (k, v) # ps'" by (cases ps) auto
  show ?thesis unfolding p by (cases ps') (auto simp: usp_toString_def)
qed

lemma url_set_param_reads:
  assumes "usp_get k (url_params u) = None" "well_formed16 k" "well_formed16 v"
  shows "url_params (url_set_param k v u) = url_params u @ [(k, v)]"
proof -
  have "list_all (\<lambda>(k, v). well_formed16 k \<and> well_formed16 v) (url_params u @ [(k, v)])"
    using assms usp_parse_well_formed by (simp add: url_params_def)
  then have "usp_parse (L ''?'' @ usp_toString (url_params u @ [(k, v)])) = url_params u @ [(k, v)]"
    by (rule usp_read_back)
  then show ?thesis
    using toString_neq_Nil [of "url_params u @ [(k, v)]"] assms
    by (simp add: url_set_param_def Let_def usp_set_new url_params_def)
qed

section \<open>Properties\<close>

text \<open>
  C10: A range query of the page's own origin that does not ask for stats is sent to the same address with
  the same parameters and \<open>stats=true\<close> after them; every other string, and every input that is not a
  string, is passed on unchanged.
\<close>

theorem stats_requested:
  "(if \<exists>u. parse_url location input = Some u \<and> isRangeQuery PREFIX location u \<and> usp_get (L ''stats'') (url_params u) = None
    then let u = the (parse_url location input) in
      \<exists>u'. stats_fetch_input parse_url PREFIX location (SStr input :: 'o stats_input) = SStr (url_toString u') \<and>
        url_params u' = url_params u @ [(L ''stats'', L ''true'')] \<and> u'\<lparr>u_search := u_search u\<rparr> = u
    else stats_fetch_input parse_url PREFIX location (SStr input :: 'o stats_input) = SStr input) \<and>
   stats_fetch_input parse_url PREFIX location (SObj (x :: 'o)) = SObj x"
proof (cases "\<exists>u. parse_url location input = Some u \<and> isRangeQuery PREFIX location u \<and> usp_get (L ''stats'') (url_params u) = None")
  case True
  then obtain u where u: "parse_url location input = Some u" "isRangeQuery PREFIX location u"
    "usp_get (L ''stats'') (url_params u) = None" by blast
  let ?u' = "url_set_param (L ''stats'') (L ''true'') u"
  have "url_params ?u' = url_params u @ [(L ''stats'', L ''true'')]"
    by (rule url_set_param_reads [OF u(3) well_formed16_L well_formed16_L])
  moreover have "?u'\<lparr>u_search := u_search u\<rparr> = u" by (simp add: url_set_param_def Let_def)
  moreover have "stats_fetch_input parse_url PREFIX location (SStr input) = SStr (url_toString ?u')"
    using u by (simp del: L.simps)
  ultimately show ?thesis using True u(1) unfolding Let_def by auto
next
  case False
  then show ?thesis by (auto simp del: L.simps split: option.split)
qed

end
