(* ===== verification/StatsFind.thy ===== *)
theory StatsFind
  imports JsNumber
begin

text \<open>
  Finding a panel's own response (\<open>fiberOf\<close>, \<open>viewComponent\<close>, \<open>backendsOf\<close>, \<open>idOf\<close> of
  \<open>cmd/proxeus/ui/stats.js\<close>): a breadth-first search through React's fiber tree, cut off
  after 400 fibers, for the view component, and its only React Query observer. React's
  data structures are modelled as far as the search reads them.
\<close>

section \<open>The data\<close>

text \<open>The \<open>backends\<close> section of the query's stats; \<open>bs_ref\<close> is the identity of the object.\<close>

record gstat =
  s_name :: ustr
  s_ordinal :: int
  s_labels :: "(ustr \<times> ustr) list option"
  s_requests :: int
  s_errors :: int
  s_series :: int
  s_samples :: int
  s_duration :: rat

record rstat =
  q_group :: ustr
  q_op :: ustr
  q_path :: ustr
  q_query :: ustr
  q_start :: rat
  q_end :: rat
  q_step :: rat
  q_duration :: rat
  q_series :: int
  q_samples :: int
  q_status :: ustr
  q_error :: ustr

record backends =
  bs_ref :: nat
  bs_groups :: "gstat list option"
  bs_requests :: "rstat list option"
  bs_truncated :: int

text \<open>
  A query result: whether it is an error, and the chain \<open>data.data.stats.backends\<close>, any
  link of which may be missing. A hook's state is an observer (with its current result, if
  any) or something else; hooks are in the order of their linked list.
\<close>

record qresult =
  r_isError :: bool
  r_data :: "backends option option option option"

datatype hook = PlainHook | QueryObserver "qresult option"

text \<open>
  What the search asks about \<open>memoizedProps\<close> that are an object: the value of \<open>expr\<close> if it
  is a string, and which keys are present.
\<close>

record view_props =
  p_expr :: "ustr option"
  p_retriggerIdx :: bool
  p_panelIdx :: bool
  p_node :: bool

datatype fiber = Fiber (f_props: "view_props option") (f_hooks: "hook list") (f_children: "fiber list")

section \<open>The search\<close>

text \<open>The element's own enumerable keys, in order, with the fiber each would hold.\<close>

fun fiberOf :: "(ustr \<times> fiber) list \<Rightarrow> fiber option" where
  "fiberOf [] = None"
| "fiberOf ((k, v) # el) = (if has_prefix (L ''__reactFiber$'') k then Some v else fiberOf el)"

definition is_view :: "fiber \<Rightarrow> bool" where
  "is_view f =
     (case f_props f of None \<Rightarrow> False
      | Some p \<Rightarrow> p_expr p \<noteq> None \<and> p_retriggerIdx p \<and> (p_panelIdx p \<or> p_node p))"

function view_loop :: "nat \<Rightarrow> fiber list \<Rightarrow> fiber option" where
  "view_loop seen [] = None"
| "view_loop seen (f # queue) =
     (if seen < 400 then (if is_view f then Some f else view_loop (Suc seen) (queue @ f_children f))
      else None)"
  by pat_completeness auto
termination
  by (relation "measure (\<lambda>(seen, queue). 400 - seen)") auto

definition viewComponent :: "(ustr \<times> fiber) list \<Rightarrow> fiber option" where
  "viewComponent panelEl = (case fiberOf panelEl of None \<Rightarrow> None | Some r \<Rightarrow> view_loop 0 [r])"

text \<open>\<open>None\<close> both when no hook is an observer and, returning early, when two are.\<close>

fun find_observer :: "qresult option option \<Rightarrow> hook list \<Rightarrow> qresult option option" where
  "find_observer observer [] = observer"
| "find_observer observer (PlainHook # h) = find_observer observer h"
| "find_observer None (QueryObserver r # h) = find_observer (Some r) h"
| "find_observer (Some q) (QueryObserver r # h) = None"

definition backendsOf :: "fiber \<Rightarrow> backends option" where
  "backendsOf vc =
     (case find_observer None (f_hooks vc) of
        Some (Some r) \<Rightarrow>
          if r_isError r then None
          else (case r_data r of
                  Some (Some (Some (Some b))) \<Rightarrow> if bs_groups b \<noteq> None then Some b else None
                | _ \<Rightarrow> None)
      | _ \<Rightarrow> None)"

section \<open>Identities\<close>

record id_table =
  ids :: "nat \<Rightarrow> nat option"
  nextId :: nat

definition no_ids :: id_table where
  "no_ids = \<lparr>ids = (\<lambda>_. None), nextId = 0\<rparr>"

definition idOf :: "backends \<Rightarrow> id_table \<Rightarrow> nat \<times> id_table" where
  "idOf b t =
     (case ids t (bs_ref b) of
        Some i \<Rightarrow> (i, t)
      | None \<Rightarrow> (Suc (nextId t), t\<lparr>ids := (ids t)(bs_ref b \<mapsto> Suc (nextId t)), nextId := Suc (nextId t)\<rparr>))"

definition ids_ok :: "id_table \<Rightarrow> bool" where
  "ids_ok t \<longleftrightarrow> inj_on (ids t) (dom (ids t)) \<and> (\<forall>i \<in> ran (ids t). 0 < i \<and> i \<le> nextId t)"

lemma ids_ok_none: "ids_ok no_ids"
  by (simp add: ids_ok_def no_ids_def)

lemma ids_ok_idOf: "ids_ok t \<Longrightarrow> ids_ok (snd (idOf b t))"
proof (cases "ids t (bs_ref b)")
  case None
  assume ok: "ids_ok t"
  have f: "ids t r \<noteq> Some (Suc (nextId t))" for r
    using ok by (force simp: ids_ok_def ran_def)
  have "inj_on ((ids t)(bs_ref b \<mapsto> Suc (nextId t))) (insert (bs_ref b) (dom (ids t)))"
    using ok f None by (force simp: ids_ok_def inj_on_def dom_def)
  moreover have "\<forall>i \<in> ran ((ids t)(bs_ref b \<mapsto> Suc (nextId t))). 0 < i \<and> i \<le> Suc (nextId t)"
    using ok None by (auto simp: ids_ok_def intro: le_SucI)
  ultimately show ?thesis using None by (simp add: idOf_def ids_ok_def)
qed (simp add: idOf_def)

lemma idOf_known: "ids (snd (idOf b t)) (bs_ref b) = Some (fst (idOf b t))"
  by (simp add: idOf_def split: option.split)

lemma idOf_keeps: "ids t r = Some i \<Longrightarrow> ids (snd (idOf b t)) r = Some i"
  by (auto simp: idOf_def split: option.split)

lemma idOf_again: "idOf b (snd (idOf b t)) = (fst (idOf b t), snd (idOf b t))"
  by (simp add: idOf_def split: option.split)

section \<open>The search finds the first view component, level by level\<close>

text \<open>Level order: the given fibers, then all their children, and so on.\<close>

function levels :: "fiber list \<Rightarrow> fiber list" where
  "levels fs = (if fs = [] then [] else fs @ levels (concat (map f_children fs)))"
  by pat_completeness auto

lemma size_children: "size_list size (f_children f) < size f"
  by (cases f) simp

lemma size_next_level: "fs \<noteq> [] \<Longrightarrow> size_list size (concat (map f_children fs)) < size_list size fs"
proof (induction fs)
  case (Cons f fs)
  show ?case using Cons size_children [of f] by (cases fs) auto
qed simp

termination levels
  by (relation "measure (size_list size)") (simp_all add: size_next_level)

declare levels.simps [simp del]

text \<open>The order in which the queue of the search hands out the fibers.\<close>

function queue_order :: "fiber list \<Rightarrow> fiber list" where
  "queue_order [] = []"
| "queue_order (f # q) = f # queue_order (q @ f_children f)"
  by pat_completeness auto
termination
proof (relation "measure (size_list size)")
  fix f and q :: "fiber list"
  show "(q @ f_children f, f # q) \<in> measure (size_list size)"
    using size_children [of f] by simp
qed simp

lemma queue_order_append: "queue_order (fs @ gs) = fs @ queue_order (gs @ concat (map f_children fs))"
  by (induction fs arbitrary: gs) simp_all

lemma queue_order_levels: "queue_order fs = levels fs"
proof (induction fs rule: levels.induct)
  case (1 fs)
  show ?case
  proof (cases "fs = []")
    case True
    then show ?thesis by (simp add: levels.simps)
  next
    case False
    then have "queue_order (concat (map f_children fs)) = levels (concat (map f_children fs))" by (rule 1)
    with False queue_order_append [of fs "[]"] show ?thesis by (subst levels.simps) simp
  qed
qed

lemma view_loop_find: "view_loop seen q = find is_view (take (400 - seen) (queue_order q))"
proof (induction seen q rule: view_loop.induct)
  case (2 seen f queue)
  show ?case
  proof (cases "seen < 400")
    case True
    then have "400 - seen = Suc (400 - Suc seen)" by simp
    with True 2 show ?thesis by simp
  qed simp
qed simp

lemma find_observer_some: "find_observer (Some r) hs = (if set hs \<subseteq> {PlainHook} then Some r else None)"
proof (induction hs)
  case (Cons h hs)
  then show ?case by (cases h) auto
qed simp

lemma find_observer_only:
  "find_observer None hs = Some r \<longleftrightarrow> filter (\<lambda>h. h \<noteq> PlainHook) hs = [QueryObserver r]"
proof (induction hs)
  case (Cons h hs)
  have e: "filter (\<lambda>h. h \<noteq> PlainHook) hs = [] \<longleftrightarrow> set hs \<subseteq> {PlainHook}" by (auto simp: filter_empty_conv)
  show ?case
  proof (cases h)
    case PlainHook
    with Cons show ?thesis by simp
  next
    case (QueryObserver q)
    then show ?thesis by (simp add: find_observer_some e)
  qed
qed simp

section \<open>Properties\<close>

text \<open>
  C12: The search finds exactly the first view component among the first 400 fibers below the panel's own, in
  level order, and nothing if there is none among them.
\<close>

theorem viewComponent_first:
  "viewComponent keys =
     (case fiberOf keys of None \<Rightarrow> None | Some r \<Rightarrow> find is_view (take 400 (levels [r])))"
  by (simp add: viewComponent_def view_loop_find queue_order_levels split: option.split)

text \<open>
  A component's backends are taken exactly when one and only one of its hooks is a query observer and
  that observer's current result is a success that carries them.
\<close>

lemma backendsOf_only_observer:
  "backendsOf vc = Some b \<longleftrightarrow>
     (\<exists>r. filter (\<lambda>h. h \<noteq> PlainHook) (f_hooks vc) = [QueryObserver (Some r)] \<and> \<not> r_isError r \<and>
        r_data r = Some (Some (Some (Some b))) \<and> bs_groups b \<noteq> None)"
proof -
  have "backendsOf vc = Some b \<longleftrightarrow>
      (\<exists>r. find_observer None (f_hooks vc) = Some (Some r) \<and> \<not> r_isError r \<and>
         r_data r = Some (Some (Some (Some b))) \<and> bs_groups b \<noteq> None)"
    by (auto simp: backendsOf_def split: option.splits)
  then show ?thesis by (simp only: find_observer_only)
qed

end
