(* ===== verification/StatsSearch.thy ===== *)
theory StatsSearch
  imports StatsFind
begin

text \<open>
  The search of \<open>viewComponent\<close> (\<open>cmd/proxeus/ui/stats.js\<close>) over React's fibers as they are in memory: objects
  with \<open>child\<close> and \<open>sibling\<close> pointers, which may form any graph. Both loops are partial: \<open>None\<close> is a loop
  that does not end.
\<close>

section \<open>The fibers and the loops\<close>

record 'p fibers =
  fb_props :: "'p \<Rightarrow> view_props option"
  fb_hooks :: "'p \<Rightarrow> hook list"
  fb_child :: "'p \<Rightarrow> 'p option"
  fb_sibling :: "'p \<Rightarrow> 'p option"

definition is_view_at :: "'p fibers \<Rightarrow> 'p \<Rightarrow> bool" where
  "is_view_at h p = is_view (Fiber (fb_props h p) (fb_hooks h p) [])"

text \<open>The inner loop, which no counter bounds.\<close>

partial_function (option) push_siblings :: "'p fibers \<Rightarrow> 'p option \<Rightarrow> 'p list \<Rightarrow> 'p list option" where
  "push_siblings h c queue =
     (case c of None \<Rightarrow> Some queue | Some p \<Rightarrow> push_siblings h (fb_sibling h p) (queue @ [p]))"

text \<open>The outer loop, from \<open>seen\<close> and \<open>queue\<close>: the fiber it returns, if any, and how many it has looked at.\<close>

partial_function (option) view_search :: "'p fibers \<Rightarrow> nat \<Rightarrow> 'p list \<Rightarrow> ('p option \<times> nat) option" where
  "view_search h seen queue =
     (case queue of [] \<Rightarrow> Some (None, seen)
      | f # queue' \<Rightarrow>
          if seen < 400 then
            (if is_view_at h f then Some (Some f, Suc seen)
             else Option.bind (push_siblings h (fb_child h f) queue') (\<lambda>q. view_search h (Suc seen) q))
          else Some (None, seen))"

section \<open>Chains of siblings\<close>

text \<open>The pointers from \<open>c\<close> on, if they come to an end.\<close>

primrec chain :: "'p fibers \<Rightarrow> 'p option \<Rightarrow> 'p list \<Rightarrow> bool" where
  "chain h c [] \<longleftrightarrow> c = None"
| "chain h c (p # ps) \<longleftrightarrow> c = Some p \<and> chain h (fb_sibling h p) ps"

definition chain_ends :: "'p fibers \<Rightarrow> 'p option \<Rightarrow> bool" where
  "chain_ends h c \<longleftrightarrow> (\<exists>ps. chain h c ps)"

lemma push_chain: "chain h c ps \<Longrightarrow> push_siblings h c queue = Some (queue @ ps)"
  by (induction ps arbitrary: c queue) (simp_all add: push_siblings.simps)

lemma push_returns:
  assumes "push_siblings h c queue = Some queue'"
  shows "chain_ends h c"
proof (rule push_siblings.raw_induct [where P = "\<lambda>h c queue queue'. chain_ends h c", OF _ assms])
  fix f h c queue queue'
  assume IH: "\<And>h c queue queue'. f h c queue = Some queue' \<Longrightarrow> chain_ends h c"
    and eq: "(case c of None \<Rightarrow> Some queue | Some p \<Rightarrow> f h (fb_sibling h p) (queue @ [p])) = Some queue'"
  show "chain_ends h c"
  proof (cases c)
    case None
    then have "chain h c []" by simp
    then show ?thesis unfolding chain_ends_def by blast
  next
    case (Some p)
    with eq have "f h (fb_sibling h p) (queue @ [p]) = Some queue'" by simp
    then have "chain_ends h (fb_sibling h p)" by (rule IH)
    then obtain ps where "chain h (fb_sibling h p) ps" unfolding chain_ends_def by blast
    with Some have "chain h c (p # ps)" by simp
    then show ?thesis unfolding chain_ends_def by blast
  qed
qed

lemma push_None: "push_siblings h c queue = None \<longleftrightarrow> \<not> chain_ends h c"
  using push_chain [of h c _ queue] push_returns [of h c queue] by (cases "push_siblings h c queue") (auto simp: chain_ends_def)

lemma search_ends:
  assumes "\<forall>p. chain_ends h (fb_child h p)"
  shows "seen \<le> 400 \<Longrightarrow> \<exists>found n. view_search h seen queue = Some (found, n) \<and> n \<le> 400"
proof (induction "400 - seen" arbitrary: seen queue rule: less_induct)
  case less
  show ?case
  proof (cases "queue = [] \<or> seen = 400 \<or> is_view_at h (hd queue)")
    case True
    then show ?thesis using less.prems by (cases queue) (auto simp: view_search.simps [of h seen])
  next
    case False
    then obtain f q where q: "queue = f # q" "seen < 400" "\<not> is_view_at h f" using less.prems by (cases queue) auto
    obtain ps where "chain h (fb_child h f) ps" using assms by (auto simp: chain_ends_def)
    with less.hyps [of "Suc seen" "q @ ps"] q show ?thesis by (simp add: view_search.simps [of h seen] push_chain)
  qed
qed

section \<open>Trees of fibers\<close>

text \<open>The fiber at a pointer is a finite tree.\<close>

inductive tree_at :: "'p fibers \<Rightarrow> 'p \<Rightarrow> fiber \<Rightarrow> bool" for h where
  "chain h (fb_child h p) ps \<Longrightarrow> list_all2 (tree_at h) ps fs \<Longrightarrow> tree_at h p (Fiber (fb_props h p) (fb_hooks h p) fs)"

inductive_cases tree_atE: "tree_at h p f"

lemma tree_view: "tree_at h p f \<Longrightarrow> is_view_at h p = is_view f"
  by (erule tree_atE) (simp add: is_view_at_def is_view_def)

lemma tree_push: "tree_at h p f \<Longrightarrow> \<exists>ps. push_siblings h (fb_child h p) queue = Some (queue @ ps) \<and> list_all2 (tree_at h) ps (f_children f)"
  by (erule tree_atE) (use push_chain in fastforce)

text \<open>On a tree the search is the loop of \<open>StatsFind\<close>.\<close>

lemma search_tree:
  "list_all2 (tree_at h) queue fs \<Longrightarrow>
     \<exists>found n. view_search h seen queue = Some (found, n) \<and> rel_option (tree_at h) found (view_loop seen fs)"
proof (induction seen fs arbitrary: queue rule: view_loop.induct)
  case (1 seen)
  then show ?case by (simp add: view_search.simps [of h seen])
next
  case (2 seen f fs)
  then obtain p ps where q: "queue = p # ps" "tree_at h p f" "list_all2 (tree_at h) ps fs" by (auto simp: list_all2_Cons2)
  show ?case
  proof (cases "seen < 400 \<and> \<not> is_view f")
    case True
    obtain cs where cs: "push_siblings h (fb_child h p) ps = Some (ps @ cs)" "list_all2 (tree_at h) cs (f_children f)"
      using tree_push [OF q(2)] by blast
    then have "list_all2 (tree_at h) (ps @ cs) (fs @ f_children f)" using q(3) by (simp add: list_all2_appendI)
    with 2(1) True cs(1) q(1) tree_view [OF q(2)] show ?thesis by (simp add: view_search.simps [of h seen])
  next
    case False
    then show ?thesis using q tree_view [OF q(2)] by (auto simp: view_search.simps [of h seen])
  qed
qed

section \<open>Properties\<close>

text \<open>
  C13: Where every chain of siblings ends, as React keeps it, the search ends, whatever graph the \<open>child\<close>
  pointers form, cyclic and endless ones included, and has then looked at no more than 400 fibers; on a tree
  it returns the fiber that \<open>viewComponent\<close> does. The counter bounds the outer loop only: below a root that is
  not itself the view, a chain of siblings without an end keeps the search from returning at all.
\<close>

theorem view_search_ends:
  "((\<forall>p. chain_ends h (fb_child h p)) \<longrightarrow>
      (\<exists>found n. view_search h 0 [r] = Some (found, n) \<and> n \<le> 400)) \<and>
   (tree_at h r t \<longrightarrow>
      (\<exists>found n. view_search h 0 [r] = Some (found, n) \<and>
         rel_option (tree_at h) found (viewComponent [(L ''__reactFiber$'' @ k, t)]))) \<and>
   (\<not> chain_ends h (fb_child h r) \<longrightarrow> \<not> is_view_at h r \<longrightarrow> view_search h 0 [r] = None)"
proof (intro conjI impI)
  show "\<exists>found n. view_search h 0 [r] = Some (found, n) \<and> n \<le> 400" if "\<forall>p. chain_ends h (fb_child h p)"
    using search_ends [OF that] by simp
  have "viewComponent [(L ''__reactFiber$'' @ k, t)] = view_loop 0 [t]" by (simp add: viewComponent_def del: L.simps)
  then show "\<exists>found n. view_search h 0 [r] = Some (found, n) \<and>
      rel_option (tree_at h) found (viewComponent [(L ''__reactFiber$'' @ k, t)])" if "tree_at h r t"
    using search_tree [of h "[r]" "[t]" 0] that by simp
  show "view_search h 0 [r] = None" if "\<not> chain_ends h (fb_child h r)" "\<not> is_view_at h r"
    using that push_None [of h "fb_child h r" "[]"] by (simp add: view_search.simps [of h 0])
qed

text \<open>A root with one child, whose sibling is none, or itself.\<close>

definition sample_fibers :: "bool \<Rightarrow> nat fibers" where
  "sample_fibers cyclic =
     \<lparr>fb_props = (\<lambda>_. None), fb_hooks = (\<lambda>_. []), fb_child = (\<lambda>p. if p = 0 then Some 1 else None),
      fb_sibling = (\<lambda>p. if cyclic then Some p else None)\<rparr>"

theorem view_search_ends_witness:
  "(\<exists>found n. view_search (sample_fibers False) 0 [0] = Some (found, n) \<and> n \<le> 400) \<and>
   view_search (sample_fibers True) 0 [0] = None"
proof
  have "chain (sample_fibers False) (fb_child (sample_fibers False) p) (if p = 0 then [1] else [])" for p
    by (simp add: sample_fibers_def)
  then have "\<forall>p. chain_ends (sample_fibers False) (fb_child (sample_fibers False) p)" unfolding chain_ends_def by blast
  then show "\<exists>found n. view_search (sample_fibers False) 0 [0] = Some (found, n) \<and> n \<le> 400"
    using view_search_ends [of "sample_fibers False" 0, THEN conjunct1] by blast
  have "\<not> chain (sample_fibers True) (Some 1) ps" for ps
    by (induction ps) (auto simp: sample_fibers_def)
  moreover have "fb_child (sample_fibers True) 0 = Some 1" "\<not> is_view_at (sample_fibers True) 0"
    by (simp_all add: sample_fibers_def is_view_at_def is_view_def)
  ultimately show "view_search (sample_fibers True) 0 [0] = None"
    using view_search_ends [of "sample_fibers True" 0] by (simp add: chain_ends_def)
qed

end
