(* ===== verification/StatsFormat.thy ===== *)
theory StatsFormat
  imports StatsFind
begin

text \<open>
  The texts of the per-backend stats (\<open>fmtNum\<close>, \<open>fmtDur\<close>, \<open>fmtSpan\<close>, \<open>groupLabel\<close> of
  \<open>cmd/proxeus/ui/stats.js\<close>). Durations are binary64 values in seconds, given by the
  rational they denote; products are rounded as the machine rounds them.
\<close>

definition fmtNum :: "int \<Rightarrow> ustr" where
  "fmtNum n = locale_us n"

definition fmtDur :: "rat \<Rightarrow> ustr" where
  "fmtDur sec =
     (if sec < 1 then
        (let ms = rnd64 (sec * 1000)
         in (if ms < 10 then to_fixed 1 ms else show_int (math_round ms)) @ L '' ms'')
      else to_fixed 2 sec @ L '' s'')"

definition fmtSpan :: "rat \<Rightarrow> ustr" where
  "fmtSpan sec =
     (let s = math_round sec
      in if 3600 \<le> s \<and> s mod 3600 = 0 then show_int (s div 3600) @ L ''h''
         else if 60 \<le> s \<and> s mod 60 = 0 then show_int (s div 60) @ L ''m''
         else show_int s @ L ''s'')"

text \<open>\<open>/^sg-\d+$/.test(name)\<close>.\<close>

definition default_name :: "ustr \<Rightarrow> bool" where
  "default_name name \<longleftrightarrow>
     has_prefix (L ''sg-'') name \<and> drop 3 name \<noteq> [] \<and> list_all is_digit (drop 3 name)"

definition label_pair :: "(ustr \<times> ustr) list \<Rightarrow> ustr \<Rightarrow> ustr" where
  "label_pair labels k =
     k @ L ''=\"'' @ (case map_of labels k of Some v \<Rightarrow> v | None \<Rightarrow> L ''undefined'') @ L ''\"''"

definition groupLabel :: "gstat \<Rightarrow> ustr" where
  "groupLabel g =
     (if s_name g \<noteq> [] \<and> \<not> default_name (s_name g) then s_name g
      else
        (let labels = or_empty (s_labels g);
             parts = map (label_pair labels) (sort (map fst labels))
         in if parts \<noteq> [] then join (L '','') parts
            else or_else (s_name g) (L ''#'' @ show_int (s_ordinal g))))"

section \<open>Facts\<close>

lemma join_nonempty: "xs \<noteq> [] \<Longrightarrow> [] \<notin> set xs \<Longrightarrow> join sep xs \<noteq> []"
  by (induction sep xs rule: join.induct) auto

lemma label_pair_nonempty: "[] \<notin> label_pair labels ` A"
  by (auto simp: label_pair_def)

lemma groupLabel_nonempty: "groupLabel g \<noteq> []"
  using label_pair_nonempty by (auto simp: groupLabel_def Let_def or_else_def join_nonempty)

lemma sorted_keys: "distinct (map fst labels) \<Longrightarrow> sorted_wrt (<) (sort (map fst labels))"
  for labels :: "(ustr \<times> ustr) list"
  by (simp add: strict_sorted_iff)

section \<open>Properties\<close>

text \<open>
  A count reads back as itself once the digit group separators are dropped.
\<close>

lemma fmtNum_reads_back: "read_nat (filter (\<lambda>c. c \<noteq> ch (CHR '','')) (fmtNum (int n))) = n"
  using read_locale_us [of "int n"] by (simp add: fmtNum_def)

text \<open>
  A span within half a second of a whole number of seconds is shown as that number, exactly, in the largest
  of hours, minutes and seconds that divides it.
\<close>

lemma fmtSpan_whole:
  assumes "\<bar>x - of_nat s\<bar> < 1 / 2"
  shows "fmtSpan x =
    (if 3600 \<le> s \<and> 3600 dvd s then show_nat (s div 3600) @ L ''h''
     else if 60 \<le> s \<and> 60 dvd s then show_nat (s div 60) @ L ''m''
     else show_nat s @ L ''s'')"
proof -
  have "math_round x = int s" using assms unfolding math_round_def by linarith
  moreover have "int s mod 3600 = 0 \<longleftrightarrow> 3600 dvd s" "int s mod 60 = 0 \<longleftrightarrow> 60 dvd s" "3600 \<le> int s \<longleftrightarrow> 3600 \<le> s" "60 \<le> int s \<longleftrightarrow> 60 \<le> s"
    by presburger+
  moreover have "int s div 3600 = int (s div 3600)" "int s div 60 = int (s div 60)"
    by (simp_all add: zdiv_int)
  moreover have "show_int (int n) = show_nat n" for n by (simp add: show_int_def)
  ultimately show ?thesis unfolding fmtSpan_def Let_def by presburger
qed

text \<open>
  The label of a group without a name of its own does not depend on the order its labels come in.
\<close>

lemma groupLabel_order:
  assumes "distinct (map fst ls)" "distinct (map fst ls')" "set ls = set ls'"
  shows "groupLabel (g\<lparr>s_labels := Some ls\<rparr>) = groupLabel (g\<lparr>s_labels := Some ls'\<rparr>)"
proof -
  have "sort (map fst ls) = sort (map fst ls')"
    using assms by (intro sorted_distinct_set_unique) simp_all
  moreover have "map_of ls = map_of ls'" using assms by (intro map_of_inject_set [THEN iffD2]) simp_all
  ultimately show ?thesis by (simp add: groupLabel_def Let_def label_pair_def cong: map_cong)
qed

lemma ms_rounding:
  assumes "sec = 0 \<or> pow2 (- 1022) \<le> sec"
  shows "\<bar>rnd64 (sec * 1000) - sec * 1000\<bar> \<le> sec * 1000 / 2 ^ 53" "0 \<le> rnd64 (sec * 1000)"
proof -
  have pos: "0 \<le> sec" using assms less_imp_le [OF pow2_pos [of "- 1022"]] by (metis order.trans order.refl)
  show err: "\<bar>rnd64 (sec * 1000) - sec * 1000\<bar> \<le> sec * 1000 / 2 ^ 53"
  proof (cases "sec = 0")
    case True
    then show ?thesis by (simp add: rnd64_def)
  next
    case False
    with assms have "pow2 (- 1022) \<le> \<bar>sec * 1000\<bar>" using pos by simp
    from rnd64_err [OF this] pos show ?thesis by simp
  qed
  have "sec * 1000 / 2 ^ 53 \<le> sec * 1000 / 1" using pos by (intro divide_left_mono) simp_all
  with err show "0 \<le> rnd64 (sec * 1000)" by (simp only: abs_le_iff div_by_1) linarith
qed

text \<open>
  C38: A duration is shown to within half a unit of the last digit shown (hundredths of a second from one second
  on, tenths of a millisecond below ten, whole milliseconds between), up to the rounding of the one
  multiplication below a second.
\<close>

theorem fmtDur_error:
  assumes "sec = 0 \<or> pow2 (- 1022) \<le> sec"
  shows "\<exists>n. if 1 \<le> sec then fmtDur sec = show_nat (n div 100) @ L ''.'' @ frac_digits 2 (n mod 100) @ L '' s'' \<and>
        \<bar>of_nat n / 100 - sec\<bar> \<le> 1 / 200
      else if rnd64 (sec * 1000) < 10
      then fmtDur sec = show_nat (n div 10) @ L ''.'' @ frac_digits 1 (n mod 10) @ L '' ms'' \<and>
        \<bar>of_nat n / 10 - sec * 1000\<bar> \<le> 1 / 20 + sec * 1000 / 2 ^ 53
      else fmtDur sec = show_nat n @ L '' ms'' \<and> \<bar>of_nat n - sec * 1000\<bar> \<le> 1 / 2 + sec * 1000 / 2 ^ 53"
proof -
  let ?y = "sec * 1000" and ?m = "rnd64 (sec * 1000)"
  note err = ms_rounding(1) [OF assms] and m0 = ms_rounding(2) [OF assms]
  consider "1 \<le> sec" | "sec < 1" "?m < 10" | "sec < 1" "10 \<le> ?m" by linarith
  then show ?thesis
  proof cases
    case 1
    then have "fmtDur sec = show_nat (fixed_nat 2 sec div 100) @ L ''.'' @ frac_digits 2 (fixed_nat 2 sec mod 100) @ L '' s''"
      by (simp add: fmtDur_def to_fixed_def Let_def)
    with 1 fixed_nat_err [of 2 sec] show ?thesis by (intro exI [of _ "fixed_nat 2 sec"]) simp
  next
    case 2
    then have "fmtDur sec = show_nat (fixed_nat 1 ?m div 10) @ L ''.'' @ frac_digits 1 (fixed_nat 1 ?m mod 10) @ L '' ms''"
      using m0 by (simp add: fmtDur_def to_fixed_def Let_def)
    moreover have "\<bar>of_nat (fixed_nat 1 ?m) / 10 - ?m\<bar> \<le> 1 / 20" using fixed_nat_err [of 1 ?m] m0 by simp
    then have "\<bar>of_nat (fixed_nat 1 ?m) / 10 - ?y\<bar> \<le> 1 / 20 + ?y / 2 ^ 53" using err by linarith
    ultimately show ?thesis using 2 by (intro exI [of _ "fixed_nat 1 ?m"]) simp
  next
    case 3
    define k where "k = nat (math_round ?m)"
    have k: "math_round ?m = int k" using 3 by (simp add: k_def math_round_def)
    have "fmtDur sec = show_nat k @ L '' ms''" using 3 k by (simp add: fmtDur_def Let_def show_int_def)
    moreover have "\<bar>of_int (math_round ?m) - ?m\<bar> \<le> 1 / 2" unfolding math_round_def by linarith
    then have "\<bar>of_nat k - ?m\<bar> \<le> 1 / 2" by (simp add: k)
    then have "\<bar>of_nat k - ?y\<bar> \<le> 1 / 2 + ?y / 2 ^ 53" using err by linarith
    ultimately show ?thesis using 3 by (intro exI [of _ k]) simp
  qed
qed

theorem fmtDur_error_witness:
  "\<exists>n. fmtDur (3 / 2) = show_nat (n div 100) @ L ''.'' @ frac_digits 2 (n mod 100) @ L '' s'' \<and>
     \<bar>of_nat n / 100 - 3 / 2 :: rat\<bar> \<le> 1 / 200"
proof -
  have "pow2 (- 1022) \<le> 1" by (simp add: pow2_def)
  then show ?thesis using fmtDur_error [of "3 / 2"] by simp
qed

end
