(* ===== verification/StatsBlock.thy ===== *)
theory StatsBlock
  imports StatsFormat Html
begin

text \<open>
  The block of per-backend stats (\<open>isOpen\<close>, \<open>setOpen\<close>, \<open>el\<close>, \<open>buildBlock\<close> of
  \<open>cmd/proxeus/ui/stats.js\<close>) as the DOM tree the script creates, element by element, and
  the state it depends on: the identities handed out, whether the block is open as far as
  the browser's storage says, and the two flags of the render loop.
\<close>

section \<open>The script's state\<close>

text \<open>\<open>ls_read\<close>/\<open>ls_write\<close>: whether reading from and writing to the storage works at all.\<close>

record stats_state =
  t_ids :: id_table
  ls_read :: bool
  ls_write :: bool
  ls_open :: "ustr option"
  forceAll :: bool
  pending :: bool

definition isOpen :: "stats_state \<Rightarrow> bool" where
  "isOpen s \<longleftrightarrow> ls_read s \<and> ls_open s = Some (L ''1'')"

definition setOpen :: "bool \<Rightarrow> stats_state \<Rightarrow> stats_state" where
  "setOpen opened s = (if ls_write s then s\<lparr>ls_open := Some (if opened then L ''1'' else L ''0'')\<rparr> else s)"

section \<open>Elements\<close>

definition S_MUTED :: ustr where "S_MUTED = L ''color:var(--mantine-color-dimmed);''"
definition S_ERR :: ustr where "S_ERR = L ''color:var(--mantine-color-red-text, #fa5252);''"
definition S_CELL :: ustr where
  "S_CELL = L ''padding:3px 10px 3px 0;border-bottom:1px solid var(--mantine-color-default-border);vertical-align:top;white-space:nowrap;''"
definition S_NUM :: ustr where
  "S_NUM = S_CELL @ L ''text-align:right;font-variant-numeric:tabular-nums;''"

definition BLOCK_ATTR :: ustr where "BLOCK_ATTR = L ''data-proxeus-backend-stats''"

text \<open>\<open>el(tag, style, text)\<close>, then the attributes and children the caller adds.\<close>

definition mk :: "string \<Rightarrow> ustr \<Rightarrow> ustr option \<Rightarrow> attr list \<Rightarrow> html list \<Rightarrow> html" where
  "mk tag style txt as cs =
     Elem (L tag) ((if style \<noteq> [] then [Attr (L ''style'') style] else []) @ as)
       ((case txt of None \<Rightarrow> [] | Some t \<Rightarrow> if t = [] then [] else [Text t]) @ cs)"

text \<open>\<open>obj[k] = v\<close> on an object literal; assigning a string to \<open>__proto__\<close> does nothing.\<close>

definition obj_set :: "ustr \<Rightarrow> ustr \<Rightarrow> (ustr \<times> ustr) list \<Rightarrow> (ustr \<times> ustr) list" where
  "obj_set k v own = (if k = L ''__proto__'' then own else (k, v) # own)"

definition labels_by_name :: "gstat list \<Rightarrow> (ustr \<times> ustr) list" where
  "labels_by_name groups = fold (\<lambda>g. obj_set (s_name g) (groupLabel g)) groups []"

definition request_group :: "gstat list \<Rightarrow> rstat \<Rightarrow> ustr" where
  "request_group groups r =
     (case obj_get (labels_by_name groups) (q_group r) of None \<Rightarrow> q_group r | Some l \<Rightarrow> or_else l (q_group r))"

definition group_text :: "gstat \<Rightarrow> ustr" where
  "group_text g =
     groupLabel g @ L '': '' @ fmtNum (s_requests g) @ L '' req '' @ [0xB7] @ L '' '' @ fmtNum (s_series g) @
     L '' series '' @ [0xB7] @ L '' '' @ fmtNum (s_samples g) @ L '' samples '' @ [0xB7] @ L '' '' @ fmtDur (s_duration g)"

definition group_span :: "gstat \<Rightarrow> html" where
  "group_span g =
     mk ''span'' [] (Some (group_text g)) [Attr (L ''data-proxeus-group'') (s_name g)]
       (if s_errors g \<noteq> 0
        then [mk ''span'' S_ERR (Some (L '' '' @ [0xB7] @ L '' '' @ fmtNum (s_errors g) @ L '' failed'')) [] []]
        else [])"

definition summary_row :: "bool \<Rightarrow> gstat list \<Rightarrow> html" where
  "summary_row opened groups =
     mk ''div'' (L ''cursor:pointer;user-select:none;display:flex;flex-wrap:wrap;gap:4px 14px;align-items:baseline;'' @ S_MUTED)
       None
       [Attr (L ''role'') (L ''button''), Attr (L ''aria-expanded'') (if opened then L ''true'' else L ''false'')]
       (mk ''span'' (L ''font-weight:600;'') (Some ([if opened then 0x25BE else 0x25B8] @ L '' Backends'')) [] [] #
        map group_span groups)"

definition head_row :: html where
  "head_row =
     mk ''tr'' [] None []
       (map (\<lambda>(h, i). mk ''th''
           ((if 4 \<le> i \<and> i \<le> 6 then S_NUM else S_CELL) @ L ''font-weight:600;text-align:'' @
            (if 4 \<le> i \<and> i \<le> (6::nat) then L ''right'' else L ''left'') @ L '';'')
           (Some (L h)) [] [])
         (zip [''Group'', ''Path'', ''Query'', ''Range'', ''Time'', ''Series'', ''Samples'', ''Status''] [0..<8]))"

definition range_text :: "rstat \<Rightarrow> ustr" where
  "range_text r =
     (if q_start r = q_end r then L ''instant'' else fmtSpan (rnd64 (q_end r - q_start r))) @
     (if q_step r \<noteq> 0 then L '', step '' @ fmtSpan (q_step r) else [])"

definition status_text :: "rstat \<Rightarrow> ustr" where
  "status_text r = (if q_status r = L ''error'' then L ''error: '' @ or_else (q_error r) [] else L ''ok'')"

definition request_row :: "gstat list \<Rightarrow> rstat \<Rightarrow> html" where
  "request_row groups r =
     mk ''tr'' [] None []
       [mk ''td'' S_CELL (Some (request_group groups r)) [] [],
        mk ''td'' S_CELL (Some (or_else (q_path r) (L ''-'') @ L '' / '' @ q_op r)) [] [],
        mk ''td'' (S_CELL @ L ''font-family:var(--mantine-font-family-monospace);white-space:normal;word-break:break-all;'')
          (Some (q_query r)) [] [],
        mk ''td'' (S_CELL @ S_MUTED) (Some (range_text r)) [] [],
        mk ''td'' S_NUM (Some (fmtDur (q_duration r))) [] [],
        mk ''td'' S_NUM (Some (fmtNum (q_series r))) [] [],
        mk ''td'' S_NUM (Some (fmtNum (q_samples r))) [] [],
        mk ''td'' (S_CELL @ (if q_status r = L ''error'' then S_ERR @ L ''white-space:normal;'' else []))
          (Some (status_text r)) [] []]"

definition details :: "backends \<Rightarrow> html list" where
  "details b =
     [mk ''div'' (L ''overflow-x:auto;margin-top:4px;'') None []
        [mk ''table'' (L ''border-collapse:collapse;width:100%;'') None []
           [mk ''thead'' [] None [] [head_row],
            mk ''tbody'' [] None []
              (map (request_row (or_empty (bs_groups b))) (or_empty (bs_requests b)))]]] @
     (if bs_truncated b \<noteq> 0
      then [mk ''div'' (S_MUTED @ L ''margin-top:2px;'')
              (Some (fmtNum (bs_truncated b) @ L '' more requests not listed (counted in the totals).'')) [] []]
      else [])"

definition buildBlock :: "backends \<Rightarrow> stats_state \<Rightarrow> html \<times> stats_state" where
  "buildBlock b s =
     (let opened = isOpen s;
          (i, t) = idOf b (t_ids s)
      in (mk ''div'' (L ''font-size:var(--mantine-font-size-xs);margin:2px 0 6px;align-self:stretch;width:100%;'') None
            [Attr BLOCK_ATTR (show_nat i)]
            (summary_row opened (or_empty (bs_groups b)) # (if opened then details b else [])),
          s\<lparr>t_ids := t\<rparr>))"

section \<open>Blocks in a tree\<close>

definition has_attr :: "ustr \<Rightarrow> attr list \<Rightarrow> bool" where
  "has_attr n as \<longleftrightarrow> attr_get n as \<noteq> None"

fun html_attrs :: "html \<Rightarrow> attr list" where
  "html_attrs (Text s) = []"
| "html_attrs (Elem t as cs) = as"
| "html_attrs (Void t as) = as"

definition is_block :: "html \<Rightarrow> bool" where
  "is_block e \<longleftrightarrow> has_attr BLOCK_ATTR (html_attrs e)"

fun is_element :: "html \<Rightarrow> bool" where
  "is_element (Text s) = False"
| "is_element (Elem t as cs) = True"
| "is_element (Void t as) = True"

text \<open>\<open>querySelector\<close> for the block attribute, in document order, and removing what it finds.\<close>

function find_block :: "html list \<Rightarrow> html option" where
  "find_block [] = None"
| "find_block (Text s # r) = find_block r"
| "find_block (Void t as # r) = (if is_block (Void t as) then Some (Void t as) else find_block r)"
| "find_block (Elem t as cs # r) =
     (if is_block (Elem t as cs) then Some (Elem t as cs)
      else (case find_block cs of Some b \<Rightarrow> Some b | None \<Rightarrow> find_block r))"
  by pat_completeness auto
termination by (relation "measure (size_list size)") auto

function remove_block :: "html list \<Rightarrow> html list" where
  "remove_block [] = []"
| "remove_block (Text s # r) = Text s # remove_block r"
| "remove_block (Void t as # r) = (if is_block (Void t as) then r else Void t as # remove_block r)"
| "remove_block (Elem t as cs # r) =
     (if is_block (Elem t as cs) then r
      else if find_block cs \<noteq> None then Elem t as (remove_block cs) # r
      else Elem t as cs # remove_block r)"
  by pat_completeness auto
termination by (relation "measure (size_list size)") auto

function count_blocks :: "html list \<Rightarrow> nat" where
  "count_blocks [] = 0"
| "count_blocks (Text s # r) = count_blocks r"
| "count_blocks (Void t as # r) = (if is_block (Void t as) then 1 else 0) + count_blocks r"
| "count_blocks (Elem t as cs # r) = (if is_block (Elem t as cs) then 1 else 0) + count_blocks cs + count_blocks r"
  by pat_completeness auto
termination by (relation "measure (size_list size)") auto

lemma is_block_simps [simp]: "\<not> is_block (Text s)" "is_block (Elem t as cs) \<longleftrightarrow> has_attr BLOCK_ATTR as"
  "is_block (Void t as) \<longleftrightarrow> has_attr BLOCK_ATTR as"
  by (simp_all add: is_block_def has_attr_def)

lemma count_append [simp]: "count_blocks (xs @ ys) = count_blocks xs + count_blocks ys"
  by (induction xs rule: count_blocks.induct) simp_all

lemma find_none: "find_block f = None \<longleftrightarrow> count_blocks f = 0"
  by (induction f rule: find_block.induct) (auto split: option.split)

lemma find_is_block: "find_block f = Some b \<Longrightarrow> is_block b"
  by (induction f rule: find_block.induct) (auto split: if_splits option.splits)

lemma find_append:
  "find_block (xs @ ys) = (case find_block xs of Some b \<Rightarrow> Some b | None \<Rightarrow> find_block ys)"
  by (induction xs rule: find_block.induct) (auto split: option.split)

lemma remove_none: "count_blocks f = 0 \<Longrightarrow> remove_block f = f"
  by (induction f rule: remove_block.induct) (auto simp: find_none)

lemma count_remove: "count_blocks (remove_block f) \<le> count_blocks f - 1"
  by (induction f rule: remove_block.induct) (auto simp: find_none)

lemma remove_clears: "count_blocks f \<le> 1 \<Longrightarrow> count_blocks (remove_block f) = 0"
  using count_remove [of f] by simp

section \<open>The built block\<close>

definition blockless :: "html \<Rightarrow> bool" where
  "blockless x \<longleftrightarrow> count_blocks [x] = 0"

lemma count_zero: "count_blocks xs = 0 \<longleftrightarrow> (\<forall>x \<in> set xs. blockless x)"
proof (induction xs)
  case (Cons x xs)
  then show ?case using count_append [of "[x]" xs] by (simp add: blockless_def)
qed simp

lemma not_block_attr:
  "L ''style'' \<noteq> BLOCK_ATTR" "L ''data-proxeus-group'' \<noteq> BLOCK_ATTR"
  "L ''role'' \<noteq> BLOCK_ATTR" "L ''aria-expanded'' \<noteq> BLOCK_ATTR"
  by (simp_all add: BLOCK_ATTR_def)

lemma count_mk:
  "count_blocks [mk tag style txt as cs] = (if attr_get BLOCK_ATTR as \<noteq> None then 1 else 0) + count_blocks cs"
  by (cases "txt") (simp_all add: mk_def has_attr_def not_block_attr del: L.simps)

lemma blockless_mk:
  "blockless (mk tag style txt as cs) \<longleftrightarrow> attr_get BLOCK_ATTR as = None \<and> (\<forall>c \<in> set cs. blockless c)"
  unfolding blockless_def [of "mk tag style txt as cs"] count_mk by (simp add: count_zero)

lemma blockless_group_span: "blockless (group_span g)"
  by (simp add: group_span_def blockless_mk not_block_attr del: L.simps)

lemma blockless_summary: "blockless (summary_row opened groups)"
  by (auto simp: summary_row_def blockless_mk not_block_attr blockless_group_span simp del: L.simps)

lemma blockless_request_row: "blockless (request_row groups r)"
  by (simp add: request_row_def blockless_mk not_block_attr del: L.simps)

lemma blockless_head_row: "blockless head_row"
  unfolding head_row_def by (auto simp: blockless_mk not_block_attr simp del: L.simps)

lemma blockless_details: "x \<in> set (details b) \<Longrightarrow> blockless x"
  by (auto simp: details_def blockless_mk not_block_attr blockless_request_row blockless_head_row simp del: L.simps)

lemma count_built: "count_blocks [fst (buildBlock b s)] = 1"
proof -
  have "count_blocks (summary_row o1 gs # (if o2 then details b else [])) = 0" for o1 o2 gs
    using blockless_summary blockless_details by (auto simp: count_zero)
  then show ?thesis by (simp add: buildBlock_def Let_def split_beta count_mk not_block_attr)
qed

lemma built_attr: "attr_get BLOCK_ATTR (html_attrs (fst (buildBlock b s))) = Some (show_nat (fst (idOf b (t_ids s))))"
  by (simp add: buildBlock_def Let_def split_beta mk_def BLOCK_ATTR_def)

lemma built_state: "snd (buildBlock b s) = s\<lparr>t_ids := snd (idOf b (t_ids s))\<rparr>"
  by (simp add: buildBlock_def Let_def split_beta)

lemma built_again: "buildBlock b (snd (buildBlock b s)) = (fst (buildBlock b s), snd (buildBlock b s))"
  by (simp add: buildBlock_def Let_def split_beta isOpen_def idOf_again)

section \<open>Properties\<close>

lemma labels_by_name_get:
  "k \<noteq> L ''__proto__'' \<Longrightarrow> distinct (map s_name gs) \<Longrightarrow> g \<in> set gs \<Longrightarrow> s_name g = k \<Longrightarrow>
     map_of (fold (\<lambda>g. obj_set (s_name g) (groupLabel g)) gs own) k = Some (groupLabel g)"
proof (induction gs arbitrary: own)
  case (Cons x gs)
  have keep: "map_of (fold (\<lambda>g. obj_set (s_name g) (groupLabel g)) xs m) k = map_of m k" if "k \<notin> s_name ` set xs" for xs m
    using that by (induction xs arbitrary: m) (auto simp: obj_set_def)
  show ?case
  proof (cases "g = x")
    case True
    with Cons.prems have "k \<notin> s_name ` set gs" by auto
    from keep [OF this] have "map_of (fold (\<lambda>g. obj_set (s_name g) (groupLabel g)) (x # gs) own) k =
        map_of (obj_set (s_name x) (groupLabel x) own) k" by simp
    also have "\<dots> = Some (groupLabel g)" using True Cons.prems by (simp add: obj_set_def del: L.simps)
    finally show ?thesis .
  next
    case False
    with Cons show ?thesis by simp
  qed
qed simp

text \<open>
  In the table of requests, a request to one of the listed groups carries that group's label, the one its
  totals are shown under.
\<close>

lemma request_labelled_as_group:
  assumes "distinct (map s_name gs)" "g \<in> set gs" "q_group r = s_name g" "s_name g \<noteq> L ''__proto__''"
  shows "request_group gs r = groupLabel g"
proof -
  have "map_of (labels_by_name gs) (q_group r) = Some (groupLabel g)"
    unfolding labels_by_name_def using assms by (intro labels_by_name_get) simp_all
  then show ?thesis using groupLabel_nonempty [of g] by (simp add: request_group_def obj_get_own or_else_def)
qed

end
