(* ===== verification/StatsRender.thy ===== *)
theory StatsRender
  imports StatsBlock Async
begin

text \<open>
  Keeping one up-to-date block in every visible panel (\<open>anchorIn\<close>, \<open>renderPanels\<close>,
  \<open>rerenderAll\<close>, \<open>scheduleRender\<close>, \<open>start\<close> of \<open>cmd/proxeus/ui/stats.js\<close>): the panel's DOM is
  a tree the script and React both change, and every change schedules one more frame.
\<close>

section \<open>Panels\<close>

text \<open>A tab panel: whether it has a layout box, its own keys, and its children.\<close>

record panel =
  pn_visible :: bool
  pn_keys :: "(ustr \<times> fiber) list"
  pn_content :: "html list"

definition GROUP_ROOT :: ustr where "GROUP_ROOT = L ''mantine-Group-root''"

definition stack_children :: "html list \<Rightarrow> html list" where
  "stack_children content = (case find is_element content of Some (Elem t as cs) \<Rightarrow> cs | _ \<Rightarrow> [])"

text \<open>The position, among the stack's child nodes, of the last of its leading group rows.\<close>

fun anchor_from :: "nat \<Rightarrow> nat option \<Rightarrow> html list \<Rightarrow> nat option" where
  "anchor_from i anchor [] = anchor"
| "anchor_from i anchor (c # cs) =
     (if \<not> is_element c \<or> is_block c then anchor_from (Suc i) anchor cs
      else if \<not> has_class GROUP_ROOT (html_attrs c) then anchor
      else anchor_from (Suc i) (Some i) cs)"

definition anchorIn :: "html list \<Rightarrow> nat option" where
  "anchorIn content = anchor_from 0 None (stack_children content)"

text \<open>\<open>anchor.insertAdjacentElement('afterend', block)\<close>, in the stack's child nodes and in the panel's.\<close>

definition place_block :: "html \<Rightarrow> html list \<Rightarrow> html list" where
  "place_block blk cs =
     (case anchor_from 0 None cs of None \<Rightarrow> cs | Some i \<Rightarrow> take (Suc i) cs @ [blk] @ drop (Suc i) cs)"

fun in_stack :: "(html list \<Rightarrow> html list) \<Rightarrow> html list \<Rightarrow> html list" where
  "in_stack f [] = []"
| "in_stack f (Text s # r) = Text s # in_stack f r"
| "in_stack f (Void t as # r) = Void t as # r"
| "in_stack f (Elem t as cs # r) = Elem t as (f cs) # r"

definition panel_backends :: "panel \<Rightarrow> backends option" where
  "panel_backends p = (case viewComponent (pn_keys p) of None \<Rightarrow> None | Some vc \<Rightarrow> backendsOf vc)"

text \<open>
  One round of the loop. Should the stack itself be the block that is removed, the anchor
  goes with it and the new block is put into a detached tree.
\<close>

definition up_to_date :: "backends \<Rightarrow> stats_state \<Rightarrow> html option \<Rightarrow> bool \<times> stats_state" where
  "up_to_date b s existing =
     (case existing of
        None \<Rightarrow> (False, s)
      | Some e \<Rightarrow>
          if forceAll s then (False, s)
          else (let (i, t) = idOf b (t_ids s)
                in (attr_get BLOCK_ATTR (html_attrs e) = Some (show_nat i), s\<lparr>t_ids := t\<rparr>)))"

definition stack_is_block :: "html list \<Rightarrow> bool" where
  "stack_is_block content \<longleftrightarrow> (case find is_element content of None \<Rightarrow> False | Some e \<Rightarrow> is_block e)"

definition render_panel :: "stats_state \<Rightarrow> panel \<Rightarrow> stats_state \<times> panel" where
  "render_panel s p =
     (if \<not> pn_visible p then (s, p)
      else
        (let existing = find_block (pn_content p);
             removed = (if existing \<noteq> None then remove_block (pn_content p) else pn_content p)
         in case panel_backends p of
              None \<Rightarrow> (s, p\<lparr>pn_content := removed\<rparr>)
            | Some b \<Rightarrow>
                (if anchorIn (pn_content p) = None then (s, p\<lparr>pn_content := removed\<rparr>)
                 else
                   (let (keep, s1) = up_to_date b s existing
                    in if keep then (s1, p)
                       else (let (blk, s2) = buildBlock b s1
                             in (s2, p\<lparr>pn_content :=
                                   (if stack_is_block (pn_content p) then removed
                                    else in_stack (place_block blk) removed)\<rparr>))))))"

fun render_list :: "stats_state \<Rightarrow> panel list \<Rightarrow> stats_state \<times> panel list" where
  "render_list s [] = (s, [])"
| "render_list s (p # ps) =
     (let (s1, p1) = render_panel s p; (s2, ps2) = render_list s1 ps in (s2, p1 # ps2))"

text \<open>
  Whether a round changes the DOM at all, which is what a mutation observer reports: a
  block removed or inserted counts, even where an equal one takes its place.
\<close>

definition panel_touched :: "stats_state \<Rightarrow> panel \<Rightarrow> bool" where
  "panel_touched s p \<longleftrightarrow>
     pn_visible p \<and>
     (case panel_backends p of
        None \<Rightarrow> find_block (pn_content p) \<noteq> None
      | Some b \<Rightarrow>
          if anchorIn (pn_content p) = None then find_block (pn_content p) \<noteq> None
          else \<not> fst (up_to_date b s (find_block (pn_content p))))"

fun list_touched :: "stats_state \<Rightarrow> panel list \<Rightarrow> bool" where
  "list_touched s [] = False"
| "list_touched s (p # ps) = (panel_touched s p \<or> list_touched (fst (render_panel s p)) ps)"

definition renderPanels :: "stats_state \<times> panel list \<Rightarrow> stats_state \<times> panel list" where
  "renderPanels sp = (let (s, ps) = render_list (fst sp) (snd sp) in (s\<lparr>forceAll := False\<rparr>, ps))"

definition panels_touched :: "stats_state \<times> panel list \<Rightarrow> bool" where
  "panels_touched sp = list_touched (fst sp) (snd sp)"

definition rerenderAll :: "stats_state \<times> panel list \<Rightarrow> stats_state \<times> panel list" where
  "rerenderAll sp = renderPanels ((fst sp)\<lparr>forceAll := True\<rparr>, snd sp)"

text \<open>The click handler of a block's summary line.\<close>

definition click_summary :: "stats_state \<times> panel list \<Rightarrow> stats_state \<times> panel list" where
  "click_summary sp = rerenderAll (setOpen (\<not> isOpen (fst sp)) (fst sp), snd sp)"

definition click_touched :: "stats_state \<times> panel list \<Rightarrow> bool" where
  "click_touched sp =
     panels_touched ((setOpen (\<not> isOpen (fst sp)) (fst sp))\<lparr>forceAll := True\<rparr>, snd sp)"

section \<open>Well-formed panels\<close>

definition panel_ok :: "panel \<Rightarrow> bool" where
  "panel_ok p \<longleftrightarrow> count_blocks (pn_content p) \<le> 1 \<and> \<not> stack_is_block (pn_content p)"

abbreviation row_like :: "html \<Rightarrow> bool" where
  "row_like c \<equiv> is_element c \<and> \<not> is_block c"

lemma anchor_from_some: "anchor_from i (Some a) cs \<noteq> None"
  by (induction cs arbitrary: i a) auto

lemma has_anchor:
  "anchor_from i None cs \<noteq> None \<longleftrightarrow>
     (case find row_like cs of None \<Rightarrow> False | Some c \<Rightarrow> has_class GROUP_ROOT (html_attrs c))"
  by (induction cs arbitrary: i) (auto simp: anchor_from_some [simplified])

lemma anchor_from_bound: "anchor_from i anchor cs = Some k \<Longrightarrow> anchor = Some k \<or> i \<le> k \<and> k < i + length cs"
  by (induction i anchor cs rule: anchor_from.induct) (auto split: if_splits)

lemma anchor_is_row:
  "anchor_from i anchor cs = Some k \<Longrightarrow> anchor \<noteq> Some k \<Longrightarrow>
     i \<le> k \<and> row_like (cs ! (k - i)) \<and> has_class GROUP_ROOT (html_attrs (cs ! (k - i)))"
proof (induction i anchor cs rule: anchor_from.induct)
  case (2 i anchor c cs)
  have step: "(c # cs) ! (k - i) = cs ! (k - Suc i)" if "Suc i \<le> k" using that by (simp add: nth_Cons')
  show ?case
  proof (cases "k = i")
    case True
    with 2 show ?thesis using anchor_from_bound [of "Suc i" anchor cs k] by (auto split: if_splits)
  next
    case False
    with 2 step show ?thesis by (auto split: if_splits)
  qed
qed simp

lemma row_like_attrs: "row_like (Elem t as cs) \<longleftrightarrow> row_like (Elem t as cs')"
  by simp

lemma find_row_remove:
  "map_option html_attrs (find row_like (remove_block cs)) = map_option html_attrs (find row_like cs)"
  by (induction cs rule: remove_block.induct) (auto simp del: not_None_eq)

lemma anchor_remove: "anchor_from i None (remove_block cs) \<noteq> None \<longleftrightarrow> anchor_from i None cs \<noteq> None"
  using find_row_remove [of cs] unfolding has_anchor by (auto split: option.splits)

lemma anchor_place: "is_block blk \<Longrightarrow> is_element blk \<Longrightarrow> anchor_from i None (take k cs @ blk # drop k cs) \<noteq> None \<longleftrightarrow> anchor_from i None cs \<noteq> None"
proof -
  assume b: "is_block blk" "is_element blk"
  have f: "find P (xs @ ys) = (case find P xs of None \<Rightarrow> find P ys | Some x \<Rightarrow> Some x)" for P :: "html \<Rightarrow> bool" and xs ys
    by (induction xs) auto
  have "find row_like (take k cs @ blk # drop k cs) = find row_like (take k cs @ drop k cs)"
    unfolding f using b by (simp split: option.split)
  then show ?thesis unfolding has_anchor by simp
qed

lemma stack_remove:
  "\<not> stack_is_block content \<Longrightarrow> anchorIn content \<noteq> None \<Longrightarrow>
     stack_children (remove_block content) = remove_block (stack_children content) \<and>
     \<not> stack_is_block (remove_block content)"
proof (induction content rule: remove_block.induct)
  case (4 t as cs r)
  then show ?case
    by (auto simp: stack_children_def stack_is_block_def find_none remove_none)
qed (auto simp: stack_children_def stack_is_block_def anchorIn_def)

lemma stack_in_stack:
  "anchorIn content \<noteq> None \<Longrightarrow> stack_children (in_stack f content) = f (stack_children content)"
  by (induction f content rule: in_stack.induct) (auto simp: stack_children_def anchorIn_def)

lemma stack_block_in_stack: "stack_is_block (in_stack f content) = stack_is_block content"
  by (induction f content rule: in_stack.induct) (auto simp: stack_is_block_def)

lemma count_place:
  "anchor_from 0 None cs \<noteq> None \<Longrightarrow> count_blocks (place_block blk cs) = count_blocks cs + count_blocks [blk]"
proof -
  assume "anchor_from 0 None cs \<noteq> None"
  then obtain i where i: "anchor_from 0 None cs = Some i" by auto
  have "count_blocks (take (Suc i) cs @ drop (Suc i) cs) = count_blocks cs" by simp
  then show ?thesis unfolding place_block_def i option.case count_append by linarith
qed

lemma find_place:
  "anchor_from 0 None cs \<noteq> None \<Longrightarrow> count_blocks cs = 0 \<Longrightarrow> is_block blk \<Longrightarrow> find_block (place_block blk cs) = Some blk"
proof -
  assume a: "anchor_from 0 None cs \<noteq> None" "count_blocks cs = 0" "is_block blk"
  then obtain i where i: "anchor_from 0 None cs = Some i" by auto
  have "count_blocks (take (Suc i) cs @ drop (Suc i) cs) = 0" using a(2) by simp
  then have "find_block (take (Suc i) cs) = None" unfolding find_none count_append by simp
  moreover have "find_block (blk # drop (Suc i) cs) = Some blk" using a(3) by (cases blk) simp_all
  ultimately show ?thesis by (simp add: place_block_def i find_append)
qed

lemma find_in_stack:
  "anchorIn content \<noteq> None \<Longrightarrow> count_blocks content = 0 \<Longrightarrow> is_block blk \<Longrightarrow>
     find_block (in_stack (place_block blk) content) = Some blk"
  by (induction "place_block blk" content rule: in_stack.induct)
    (auto simp: anchorIn_def stack_children_def find_place)

lemma count_in_stack:
  "anchorIn content \<noteq> None \<Longrightarrow>
     count_blocks (in_stack (place_block blk) content) = count_blocks content + count_blocks [blk]"
  by (induction "place_block blk" content rule: in_stack.induct)
    (auto simp: anchorIn_def stack_children_def count_place)

lemma built_block: "is_block (fst (buildBlock b s))" "is_element (fst (buildBlock b s))"
  by (simp_all add: buildBlock_def Let_def split_beta mk_def has_attr_def not_block_attr del: L.simps)

text \<open>Taking out the block that was put in leaves what was there before.\<close>

lemma remove_append:
  "count_blocks xs = 0 \<Longrightarrow> remove_block (xs @ ys) = xs @ remove_block ys"
  by (induction xs rule: remove_block.induct) (auto simp: find_none)

lemma remove_place:
  assumes "anchor_from 0 None cs \<noteq> None" "count_blocks cs = 0" "is_block blk" "is_element blk"
  shows "remove_block (place_block blk cs) = cs"
proof -
  obtain i where i: "anchor_from 0 None cs = Some i" using assms(1) by auto
  have "count_blocks (take (Suc i) cs @ drop (Suc i) cs) = 0" using assms(2) by simp
  then have "count_blocks (take (Suc i) cs) = 0" unfolding count_append by simp
  moreover have "remove_block (blk # drop (Suc i) cs) = drop (Suc i) cs" using assms(3) by (cases blk) simp_all
  ultimately show ?thesis by (simp add: place_block_def i remove_append)
qed

lemma remove_in_stack:
  "anchorIn c \<noteq> None \<Longrightarrow> count_blocks c = 0 \<Longrightarrow> is_block blk \<Longrightarrow> is_element blk \<Longrightarrow>
     remove_block (in_stack (place_block blk) c) = c"
proof (induction "place_block blk" c rule: in_stack.induct)
  case (4 t as cs r)
  then have a: "anchor_from 0 None cs \<noteq> None" "count_blocks cs = 0" "\<not> has_attr BLOCK_ATTR as"
    by (simp_all add: anchorIn_def stack_children_def split: if_splits)
  then have "find_block (place_block blk cs) \<noteq> None" using find_place [OF a(1,2) 4(3)] by simp
  with a remove_place [OF a(1,2) 4(3,4)] show ?case by simp
qed (auto simp: anchorIn_def stack_children_def)

end
