(* ===== verification/StatsLoop.thy ===== *)
theory StatsLoop
  imports StatsRender
begin

text \<open>
  The render loop of \<open>cmd/proxeus/ui/stats.js\<close> comes to rest: every round leaves each
  visible panel with at most one block, showing the panel's current response, and running
  it again changes nothing; so the observer it wakes by its own changes stops after one
  further frame.
\<close>

section \<open>One panel\<close>

lemma stack_is_block_anchor: "anchorIn c \<noteq> None \<Longrightarrow> \<exists>e. find is_element c = Some e"
  by (auto simp: anchorIn_def stack_children_def split: option.splits)

lemma anchorIn_remove:
  "\<not> stack_is_block c \<Longrightarrow> anchorIn c \<noteq> None \<Longrightarrow> anchorIn (remove_block c) \<noteq> None"
  using stack_remove [of c] anchor_remove [of 0 "stack_children c"] by (simp add: anchorIn_def)

lemma anchorIn_place:
  "anchorIn c \<noteq> None \<Longrightarrow> is_block blk \<Longrightarrow> is_element blk \<Longrightarrow> anchorIn (in_stack (place_block blk) c) \<noteq> None"
proof -
  assume a: "anchorIn c \<noteq> None" and b: "is_block blk" "is_element blk"
  from a obtain i where i: "anchor_from 0 None (stack_children c) = Some i" by (auto simp: anchorIn_def)
  have "stack_children (in_stack (place_block blk) c) =
      take (Suc i) (stack_children c) @ blk # drop (Suc i) (stack_children c)"
    using stack_in_stack [OF a] by (simp add: place_block_def i)
  then show ?thesis
    using anchor_place [OF b, of 0 "Suc i" "stack_children c"] i unfolding anchorIn_def by simp
qed

text \<open>\<open>settled t p\<close>: with the identities \<open>t\<close>, the panel shows what it should.\<close>

definition panel_settled :: "id_table \<Rightarrow> panel \<Rightarrow> bool" where
  "panel_settled t p \<longleftrightarrow>
     pn_visible p \<longrightarrow>
     (case panel_backends p of
        None \<Rightarrow> find_block (pn_content p) = None
      | Some b \<Rightarrow>
          if anchorIn (pn_content p) = None then find_block (pn_content p) = None
          else (case find_block (pn_content p) of
                  None \<Rightarrow> False
                | Some e \<Rightarrow> (case ids t (bs_ref b) of
                                None \<Rightarrow> False
                              | Some i \<Rightarrow> attr_get BLOCK_ATTR (html_attrs e) = Some (show_nat i))))"

definition ids_le :: "id_table \<Rightarrow> id_table \<Rightarrow> bool" where
  "ids_le t t' \<longleftrightarrow> (\<forall>r i. ids t r = Some i \<longrightarrow> ids t' r = Some i)"

lemma ids_le_refl [simp]: "ids_le t t"
  by (simp add: ids_le_def)

lemma ids_le_trans: "ids_le t u \<Longrightarrow> ids_le u v \<Longrightarrow> ids_le t v"
  by (simp add: ids_le_def)

lemma ids_le_idOf: "ids_le t (snd (idOf b t))"
  by (simp add: ids_le_def idOf_keeps)

lemma settled_mono: "panel_settled t p \<Longrightarrow> ids_le t t' \<Longrightarrow> panel_settled t' p"
  by (auto simp: panel_settled_def ids_le_def split: option.splits if_splits)

text \<open>What one round does to one visible panel, case by case.\<close>

definition cleared :: "panel \<Rightarrow> html list" where
  "cleared p = remove_block (pn_content p)"

lemma removed_cleared:
  "(if find_block (pn_content p) \<noteq> None then remove_block (pn_content p) else pn_content p) = cleared p"
  by (auto simp: cleared_def find_none remove_none)

lemma render_hidden: "\<not> pn_visible p \<Longrightarrow> render_panel s p = (s, p)"
  by (simp add: render_panel_def)

lemma render_nothing:
  "pn_visible p \<Longrightarrow> panel_backends p = None \<or> anchorIn (pn_content p) = None \<Longrightarrow>
     render_panel s p = (s, p\<lparr>pn_content := cleared p\<rparr>)"
  unfolding render_panel_def Let_def removed_cleared by (auto split: option.split)

lemma up_to_date_state:
  "up_to_date b s e = (k, s1) \<Longrightarrow> s1 = s \<or> s1 = s\<lparr>t_ids := snd (idOf b (t_ids s))\<rparr>"
  by (auto simp: up_to_date_def Let_def split: option.splits if_splits prod.splits)

lemma up_to_date_kept:
  "up_to_date b s e = (True, s1) \<Longrightarrow>
     \<exists>x. e = Some x \<and> \<not> forceAll s \<and> s1 = s\<lparr>t_ids := snd (idOf b (t_ids s))\<rparr> \<and>
       attr_get BLOCK_ATTR (html_attrs x) = Some (show_nat (fst (idOf b (t_ids s))))"
  by (auto simp: up_to_date_def Let_def split: option.splits if_splits prod.splits)

lemma render_kept:
  assumes "pn_visible p" "panel_backends p = Some b" "anchorIn (pn_content p) \<noteq> None"
    "up_to_date b s (find_block (pn_content p)) = (True, s1)"
  shows "render_panel s p = (s1, p)"
  using assms unfolding render_panel_def Let_def removed_cleared by (simp del: not_None_eq)

lemma render_built:
  assumes "pn_visible p" "panel_backends p = Some b" "anchorIn (pn_content p) \<noteq> None"
    "up_to_date b s (find_block (pn_content p)) = (False, s1)" "panel_ok p"
  shows "render_panel s p =
    (snd (buildBlock b s1), p\<lparr>pn_content := in_stack (place_block (fst (buildBlock b s1))) (cleared p)\<rparr>)"
  using assms unfolding render_panel_def Let_def removed_cleared
  by (simp add: split_beta panel_ok_def del: not_None_eq)

text \<open>The four ways a round can end, as a rule.\<close>

lemma render_cases [consumes 1, case_names hidden absent kept built]:
  assumes "panel_ok p"
  obtains "\<not> pn_visible p" "render_panel s p = (s, p)"
  | "pn_visible p" "panel_backends p = None \<or> anchorIn (pn_content p) = None"
    "render_panel s p = (s, p\<lparr>pn_content := cleared p\<rparr>)"
  | b s1 where "pn_visible p" "panel_backends p = Some b" "anchorIn (pn_content p) \<noteq> None"
    "up_to_date b s (find_block (pn_content p)) = (True, s1)" "render_panel s p = (s1, p)"
  | b s1 where "pn_visible p" "panel_backends p = Some b" "anchorIn (pn_content p) \<noteq> None"
    "up_to_date b s (find_block (pn_content p)) = (False, s1)"
    "render_panel s p =
      (snd (buildBlock b s1), p\<lparr>pn_content := in_stack (place_block (fst (buildBlock b s1))) (cleared p)\<rparr>)"
proof (cases "pn_visible p \<and> panel_backends p \<noteq> None \<and> anchorIn (pn_content p) \<noteq> None")
  case False
  show ?thesis
  proof (cases "pn_visible p")
    case True
    with False have n: "panel_backends p = None \<or> anchorIn (pn_content p) = None" by blast
    show ?thesis using that(2) [OF True n] render_nothing [OF True n] by blast
  next
    case hidden: False
    show ?thesis using that(1) [OF hidden] render_hidden [OF hidden] by blast
  qed
next
  case True
  then obtain b where b: "panel_backends p = Some b" by auto
  obtain k s1 where u: "up_to_date b s (find_block (pn_content p)) = (k, s1)" by (cases "up_to_date b s (find_block (pn_content p))")
  show ?thesis
  proof (cases k)
    case True
    with u b \<open>pn_visible p \<and> _\<close> show ?thesis using that(3) [of b s1] render_kept [of p b s s1] by simp
  next
    case False
    with u b \<open>pn_visible p \<and> _\<close> assms show ?thesis using that(4) [of b s1] render_built [of p b s s1] by simp
  qed
qed

lemma cleared_ok:
  assumes "panel_ok p"
  shows "count_blocks (cleared p) = 0" "anchorIn (pn_content p) \<noteq> None \<Longrightarrow> anchorIn (cleared p) \<noteq> None"
    "anchorIn (pn_content p) \<noteq> None \<Longrightarrow> \<not> stack_is_block (cleared p)"
  using assms remove_clears [of "pn_content p"] anchorIn_remove [of "pn_content p"] stack_remove [of "pn_content p"]
  by (simp_all add: panel_ok_def cleared_def)

lemma stack_is_block_count: "count_blocks c = 0 \<Longrightarrow> \<not> stack_is_block c"
proof (induction c rule: count_blocks.induct)
  case (3 t as r)
  then show ?case by (auto simp: stack_is_block_def split: if_splits)
next
  case (4 t as cs r)
  then show ?case by (auto simp: stack_is_block_def split: if_splits)
qed (auto simp: stack_is_block_def)

lemma anchorIn_blockless:
  "panel_ok p \<Longrightarrow> anchorIn (pn_content p) = None \<Longrightarrow> anchorIn (cleared p) = None"
proof -
  assume p: "panel_ok p" and a: "anchorIn (pn_content p) = None"
  have "\<not> stack_is_block c \<Longrightarrow> anchorIn c = None \<Longrightarrow> anchorIn (remove_block c) = None" for c
  proof (induction c rule: remove_block.induct)
    case (3 t as r)
    then show ?case by (simp add: anchorIn_def stack_children_def stack_is_block_def)
  next
    case (4 t as cs r)
    then show ?case using anchor_remove [of 0 cs]
      by (simp add: anchorIn_def stack_children_def stack_is_block_def)
  qed (simp_all add: anchorIn_def stack_children_def stack_is_block_def)
  with p a show ?thesis by (simp add: panel_ok_def cleared_def)
qed

lemma render_panel_ok:
  assumes "panel_ok p" "render_panel s p = (s', p')"
  shows "panel_ok p'"
  using assms(1)
proof (cases rule: render_cases [where s = s])
  case absent
  with assms cleared_ok(1) [of p] stack_is_block_count [of "cleared p"] show ?thesis by (auto simp: panel_ok_def)
next
  case (built b s1)
  have "count_blocks (in_stack (place_block (fst (buildBlock b s1))) (cleared p)) = 1"
    using built cleared_ok [OF assms(1)] by (simp add: count_in_stack count_built del: not_None_eq)
  with built assms cleared_ok [OF assms(1)] show ?thesis by (auto simp: panel_ok_def stack_block_in_stack)
qed (use assms in auto)

lemma render_panel_frame:
  assumes "panel_ok p" "render_panel s p = (s', p')"
  shows "forceAll s' = forceAll s" "isOpen s' = isOpen s" "pending s' = pending s" "ids_le (t_ids s) (t_ids s')"
    "pn_visible p' = pn_visible p" "pn_keys p' = pn_keys p"
proof -
  have "s' = s \<or> (\<exists>b s1. (s1 = s \<or> s1 = s\<lparr>t_ids := snd (idOf b (t_ids s))\<rparr>) \<and> (s' = s1 \<or> s' = snd (buildBlock b s1))) \<and> True"
    using assms by (cases rule: render_cases [where s = s]) (auto dest: up_to_date_state)
  then show "forceAll s' = forceAll s" "isOpen s' = isOpen s" "pending s' = pending s" "ids_le (t_ids s) (t_ids s')"
    by (auto simp: built_state isOpen_def idOf_again intro: ids_le_idOf)
  show "pn_visible p' = pn_visible p" "pn_keys p' = pn_keys p"
    using assms by (cases rule: render_cases [where s = s]; auto)+
qed

lemma panel_backends_content [simp]: "panel_backends (p\<lparr>pn_content := c\<rparr>) = panel_backends p"
  by (simp add: panel_backends_def)

lemma render_panel_settled:
  assumes "panel_ok p" "render_panel s p = (s', p')"
  shows "panel_settled (t_ids s') p'"
  using assms(1)
proof (cases rule: render_cases [where s = s])
  case absent
  then show ?thesis using assms cleared_ok(1) [of p] anchorIn_blockless [of p]
    by (auto simp: panel_settled_def find_none split: option.split)
next
  case (kept b s1)
  obtain x where x: "find_block (pn_content p) = Some x" "s1 = s\<lparr>t_ids := snd (idOf b (t_ids s))\<rparr>"
    "attr_get BLOCK_ATTR (html_attrs x) = Some (show_nat (fst (idOf b (t_ids s))))"
    using up_to_date_kept [OF kept(4)] by blast
  have "s' = s1" "p' = p" using kept(5) assms(2) by simp_all
  with kept x show ?thesis by (simp add: panel_settled_def idOf_known del: not_None_eq)
next
  case (built b s1)
  define blk where "blk = fst (buildBlock b s1)"
  have r: "s' = snd (buildBlock b s1)" "p' = p\<lparr>pn_content := in_stack (place_block blk) (cleared p)\<rparr>"
    using built(5) assms(2) by (simp_all add: blk_def)
  have a: "anchorIn (cleared p) \<noteq> None" using cleared_ok [OF assms(1)] built(3) by simp
  have "find_block (pn_content p') = Some blk"
    using find_in_stack [OF a] cleared_ok(1) [OF assms(1)] built_block(1) [of b s1] by (simp add: r blk_def)
  moreover have "anchorIn (pn_content p') \<noteq> None"
    using anchorIn_place [OF a built_block [of b s1]] by (simp add: r blk_def)
  moreover have "ids (t_ids s') (bs_ref b) = Some (fst (idOf b (t_ids s1)))"
    by (simp add: r built_state idOf_known)
  ultimately show ?thesis using built(2) built_attr [of b s1] r
    by (simp add: panel_settled_def blk_def del: not_None_eq)
qed (use assms in \<open>auto simp: panel_settled_def\<close>)

lemma render_settled_id:
  assumes "panel_ok p" "panel_settled (t_ids s) p" "\<not> forceAll s"
  shows "render_panel s p = (s, p)"
  using assms(1)
proof (cases rule: render_cases [where s = s])
  case absent
  then have "find_block (pn_content p) = None" using assms(2)
    by (auto simp: panel_settled_def split: option.splits)
  then have "cleared p = pn_content p" by (simp add: cleared_def find_none remove_none)
  then have "p\<lparr>pn_content := cleared p\<rparr> = p" by simp
  with absent(3) show ?thesis by (simp only:)
next
  case (kept b s1)
  then obtain i where "ids (t_ids s) (bs_ref b) = Some i" using assms(2)
    by (auto simp: panel_settled_def split: option.splits)
  then have "s1 = s" using up_to_date_kept [OF kept(4)] by (auto simp: idOf_def)
  with kept show ?thesis by simp
next
  case (built b s1)
  then show ?thesis using assms(2,3)
    by (auto simp: panel_settled_def up_to_date_def idOf_def split: option.splits)
qed

lemma settled_untouched:
  assumes "panel_settled (t_ids s) p" "\<not> forceAll s"
  shows "\<not> panel_touched s p"
  using assms by (auto simp: panel_touched_def panel_settled_def up_to_date_def idOf_def split: option.splits if_splits)

section \<open>All panels\<close>

lemma render_list_props:
  assumes "list_all panel_ok ps" "render_list s ps = (s', ps')"
  shows "list_all panel_ok ps' \<and> forceAll s' = forceAll s \<and> isOpen s' = isOpen s \<and> pending s' = pending s \<and>
    ids_le (t_ids s) (t_ids s') \<and> list_all (panel_settled (t_ids s')) ps' \<and> length ps' = length ps"
  using assms
proof (induction s ps arbitrary: s' ps' rule: render_list.induct)
  case (2 s p ps)
  obtain s1 p1 where p: "render_panel s p = (s1, p1)" by (cases "render_panel s p")
  obtain s2 ps2 where q: "render_list s1 ps = (s2, ps2)" by (cases "render_list s1 ps")
  have r: "s' = s2" "ps' = p1 # ps2" using 2(3) p q by simp_all
  have ok: "panel_ok p" using 2(2) by simp
  note IH = 2(1) [OF p [symmetric] refl _ q] and P = render_panel_frame [OF ok p] render_panel_ok [OF ok p] render_panel_settled [OF ok p]
  have "list_all panel_ok ps2 \<and> forceAll s2 = forceAll s1 \<and> isOpen s2 = isOpen s1 \<and> pending s2 = pending s1 \<and>
    ids_le (t_ids s1) (t_ids s2) \<and> list_all (panel_settled (t_ids s2)) ps2 \<and> length ps2 = length ps"
    using IH 2(2) by simp
  with P show ?case unfolding r by (auto intro: ids_le_trans settled_mono)
qed simp

lemma render_list_id:
  "list_all panel_ok ps \<Longrightarrow> list_all (panel_settled (t_ids s)) ps \<Longrightarrow> \<not> forceAll s \<Longrightarrow> render_list s ps = (s, ps)"
  by (induction s ps rule: render_list.induct) (simp_all add: render_settled_id)

lemma list_untouched:
  "list_all panel_ok ps \<Longrightarrow> list_all (panel_settled (t_ids s)) ps \<Longrightarrow> \<not> forceAll s \<Longrightarrow> \<not> list_touched s ps"
  by (induction s ps rule: list_touched.induct) (simp_all add: render_settled_id settled_untouched)

lemma renderPanels_props:
  assumes "list_all panel_ok (snd sp)"
  shows "list_all panel_ok (snd (renderPanels sp))" "\<not> forceAll (fst (renderPanels sp))"
    "list_all (panel_settled (t_ids (fst (renderPanels sp)))) (snd (renderPanels sp))"
    "isOpen (fst (renderPanels sp)) = isOpen (fst sp)" "pending (fst (renderPanels sp)) = pending (fst sp)"
    "length (snd (renderPanels sp)) = length (snd sp)"
proof -
  obtain s' ps' where r: "render_list (fst sp) (snd sp) = (s', ps')" by (cases "render_list (fst sp) (snd sp)")
  have "isOpen (s'\<lparr>forceAll := False\<rparr>) = isOpen s'" by (simp add: isOpen_def)
  then show "list_all panel_ok (snd (renderPanels sp))" "\<not> forceAll (fst (renderPanels sp))"
    "list_all (panel_settled (t_ids (fst (renderPanels sp)))) (snd (renderPanels sp))"
    "isOpen (fst (renderPanels sp)) = isOpen (fst sp)" "pending (fst (renderPanels sp)) = pending (fst sp)"
    "length (snd (renderPanels sp)) = length (snd sp)"
    using render_list_props [OF assms r] by (simp_all add: renderPanels_def r)
qed

lemma renderPanels_untouched: "list_all panel_ok (snd sp) \<Longrightarrow> \<not> panels_touched (renderPanels sp)"
  unfolding panels_touched_def by (rule list_untouched) (simp_all add: renderPanels_props)

interpretation panels_once: observer_callback renderPanels "\<lambda>sp. list_all panel_ok (snd sp)"
proof unfold_locales
  fix sp :: "stats_state \<times> panel list"
  assume ok: "list_all panel_ok (snd sp)"
  show "list_all panel_ok (snd (renderPanels sp))" by (rule renderPanels_props [OF ok])
  obtain s ps where sp: "renderPanels sp = (s, ps)" by (cases "renderPanels sp")
  have "list_all panel_ok ps" "\<not> forceAll s" "list_all (panel_settled (t_ids s)) ps"
    using renderPanels_props [OF ok] by (simp_all add: sp)
  then have "render_list s ps = (s, ps)" by (intro render_list_id)
  with \<open>\<not> forceAll s\<close> show "renderPanels (renderPanels sp) = renderPanels sp"
    unfolding sp by (simp add: renderPanels_def)
qed

end
