(* ===== verification/StatsPage.thy ===== *)
theory StatsPage
  imports StatsLoop
begin

text \<open>
  The query page as \<open>cmd/proxeus/ui/stats.js\<close> drives it (\<open>scheduleRender\<close>, \<open>start\<close>, the click
  handler): DOM changes by React, animation frames and clicks in any order, with the
  frames the mutation observer requests.
\<close>

record stats_page =
  g_state :: stats_state
  g_panels :: "panel list"
  g_frames :: nat

definition scheduleRender :: "stats_page \<Rightarrow> stats_page" where
  "scheduleRender g =
     (if pending (g_state g) then g
      else g\<lparr>g_state := (g_state g)\<lparr>pending := True\<rparr>, g_frames := Suc (g_frames g)\<rparr>)"

text \<open>New panel contents, by the script itself; the observer is told if the DOM was touched.\<close>

definition show_panels :: "bool \<Rightarrow> stats_state \<times> panel list \<Rightarrow> stats_page \<Rightarrow> stats_page" where
  "show_panels touched sp g =
     (let g' = g\<lparr>g_state := fst sp, g_panels := snd sp\<rparr> in if touched then scheduleRender g' else g')"

definition animation_frame :: "stats_page \<Rightarrow> stats_page" where
  "animation_frame g =
     (if g_frames g = 0 then g
      else (let sp = ((g_state g)\<lparr>pending := False\<rparr>, g_panels g)
            in show_panels (panels_touched sp) (renderPanels sp) (g\<lparr>g_frames := g_frames g - 1\<rparr>)))"

text \<open>
  \<open>Mutated\<close> is a change by React that the observer is told of: nodes added or removed below the body, or text changed.
  A change of attributes alone, or of React's own data before it touches the page, is none; it is seen with the next.
\<close>

datatype stats_event = Mutated "panel list" | Frame | ClickSummary

fun stats_step :: "stats_event \<Rightarrow> stats_page \<Rightarrow> stats_page" where
  "stats_step (Mutated ps) g = scheduleRender (g\<lparr>g_panels := ps\<rparr>)"
| "stats_step Frame g = animation_frame g"
| "stats_step ClickSummary g =
     show_panels (click_touched (g_state g, g_panels g)) (click_summary (g_state g, g_panels g)) g"

text \<open>\<open>start\<close>, on a page with the given panels and storage.\<close>

definition stats_start :: "bool \<Rightarrow> bool \<Rightarrow> ustr option \<Rightarrow> panel list \<Rightarrow> stats_page" where
  "stats_start can_read can_write stored ps =
     scheduleRender
       \<lparr>g_state = \<lparr>t_ids = no_ids, ls_read = can_read, ls_write = can_write, ls_open = stored,
                  forceAll = False, pending = False\<rparr>,
        g_panels = ps, g_frames = 0\<rparr>"

section \<open>Identities are never shared\<close>

lemma render_panel_ids: "ids_ok (t_ids s) \<Longrightarrow> panel_ok p \<Longrightarrow> ids_ok (t_ids (fst (render_panel s p)))"
proof -
  assume i: "ids_ok (t_ids s)" and p: "panel_ok p"
  have u: "ids_ok (t_ids s1)" if "up_to_date b s e = (k, s1)" for b e k s1
    using up_to_date_state [OF that] i by (auto intro: ids_ok_idOf)
  from p show ?thesis
    by (cases rule: render_cases [where s = s]) (auto simp: i built_state dest: u intro: ids_ok_idOf)
qed

lemma render_list_ids: "ids_ok (t_ids s) \<Longrightarrow> list_all panel_ok ps \<Longrightarrow> ids_ok (t_ids (fst (render_list s ps)))"
proof (induction s ps rule: render_list.induct)
  case (2 s p ps)
  obtain s1 p1 where p: "render_panel s p = (s1, p1)" by (cases "render_panel s p")
  have "ids_ok (t_ids s1)" using render_panel_ids [of s p] 2(2,3) by (simp add: p)
  then have "ids_ok (t_ids (fst (render_list s1 ps)))" using 2(1) [OF p [symmetric] refl] 2(3) by simp
  then show ?case by (simp add: p split_beta)
qed simp

lemma renderPanels_ids:
  "ids_ok (t_ids (fst sp)) \<Longrightarrow> list_all panel_ok (snd sp) \<Longrightarrow> ids_ok (t_ids (fst (renderPanels sp)))"
  using render_list_ids [of "fst sp" "snd sp"] by (simp add: renderPanels_def split_beta)

section \<open>The invariant of the page\<close>

text \<open>
  One frame is requested exactly while \<open>pending\<close> is set, and whenever none is, every
  visible panel shows the block of its own current response.
\<close>

definition stats_inv :: "stats_page \<Rightarrow> bool" where
  "stats_inv g \<longleftrightarrow>
     g_frames g = (if pending (g_state g) then 1 else 0) \<and> \<not> forceAll (g_state g) \<and> ids_ok (t_ids (g_state g)) \<and>
     list_all panel_ok (g_panels g) \<and>
     (\<not> pending (g_state g) \<longrightarrow> list_all (panel_settled (t_ids (g_state g))) (g_panels g))"

fun event_ok :: "stats_event \<Rightarrow> bool" where
  "event_ok (Mutated ps) = list_all panel_ok ps"
| "event_ok Frame = True"
| "event_ok ClickSummary = True"

definition rendered_ok :: "stats_state \<times> panel list \<Rightarrow> bool" where
  "rendered_ok sp \<longleftrightarrow> \<not> forceAll (fst sp) \<and> ids_ok (t_ids (fst sp)) \<and> list_all panel_ok (snd sp) \<and>
     list_all (panel_settled (t_ids (fst sp))) (snd sp)"

lemma rendered_ok_render:
  "ids_ok (t_ids (fst sp)) \<Longrightarrow> list_all panel_ok (snd sp) \<Longrightarrow> rendered_ok (renderPanels sp)"
  using renderPanels_props [of sp] renderPanels_ids [of sp] by (simp add: rendered_ok_def)

lemma stats_inv_schedule:
  "\<not> forceAll (g_state g) \<Longrightarrow> ids_ok (t_ids (g_state g)) \<Longrightarrow> list_all panel_ok (g_panels g) \<Longrightarrow>
     g_frames g = (if pending (g_state g) then 1 else 0) \<Longrightarrow> stats_inv (scheduleRender g)"
  by (simp add: stats_inv_def scheduleRender_def)

lemma stats_inv_show:
  "rendered_ok sp \<Longrightarrow> g_frames g = (if pending (fst sp) then 1 else 0) \<Longrightarrow> stats_inv (show_panels t sp g)"
  by (auto simp: show_panels_def rendered_ok_def Let_def stats_inv_schedule) (simp add: stats_inv_def)

lemma setOpen_frame [simp]:
  "t_ids (setOpen o1 s) = t_ids s" "pending (setOpen o1 s) = pending s" "forceAll (setOpen o1 s) = forceAll s"
  by (simp_all add: setOpen_def)

lemma stats_inv_step: "stats_inv g \<Longrightarrow> event_ok e \<Longrightarrow> stats_inv (stats_step e g)"
proof (cases e)
  case (Mutated ps)
  assume "stats_inv g" "event_ok e"
  then have "stats_inv (scheduleRender (g\<lparr>g_panels := ps\<rparr>))"
    using Mutated by (intro stats_inv_schedule) (simp_all add: stats_inv_def)
  with Mutated show ?thesis by simp
next
  case Frame
  assume g: "stats_inv g"
  show ?thesis
  proof (cases "g_frames g = 0")
    case True
    with Frame g show ?thesis by (simp add: animation_frame_def)
  next
    case False
    let ?sp = "((g_state g)\<lparr>pending := False\<rparr>, g_panels g)"
    have "rendered_ok (renderPanels ?sp)" using g by (intro rendered_ok_render) (simp_all add: stats_inv_def)
    moreover have "\<not> pending (fst (renderPanels ?sp))"
      using renderPanels_props(5) [of ?sp] g by (simp add: stats_inv_def)
    moreover have "g_frames g = 1" using False g by (simp add: stats_inv_def split: if_splits)
    ultimately show ?thesis using Frame by (simp add: animation_frame_def Let_def stats_inv_show)
  qed
next
  case ClickSummary
  assume g: "stats_inv g"
  let ?sp = "((setOpen (\<not> isOpen (g_state g)) (g_state g))\<lparr>forceAll := True\<rparr>, g_panels g)"
  have c: "click_summary (g_state g, g_panels g) = renderPanels ?sp"
    by (simp add: click_summary_def rerenderAll_def)
  have "rendered_ok (renderPanels ?sp)" using g by (intro rendered_ok_render) (simp_all add: stats_inv_def)
  moreover have "pending (fst (renderPanels ?sp)) = pending (g_state g)"
    using renderPanels_props(5) [of ?sp] g by (simp add: stats_inv_def)
  ultimately show ?thesis using ClickSummary g c by (simp add: stats_inv_show stats_inv_def [of g])
qed

lemma stats_inv_start: "list_all panel_ok ps \<Longrightarrow> stats_inv (stats_start r w st ps)"
  unfolding stats_start_def by (rule stats_inv_schedule) (simp_all add: ids_ok_none)

lemma stats_inv_run: "stats_inv g \<Longrightarrow> list_all event_ok es \<Longrightarrow> stats_inv (fold stats_step es g)"
  by (induction es arbitrary: g) (simp_all add: stats_inv_step)

text \<open>Left alone, the page comes to rest within two frames.\<close>

lemma animation_rest:
  assumes "stats_inv g"
  shows "g_frames ((animation_frame ^^ 2) g) = 0"
proof -
  define g1 where "g1 = animation_frame g"
  have i1: "stats_inv g1" using stats_inv_step [OF assms, of Frame] by (simp add: g1_def)
  have "g_frames (animation_frame g1) = 0"
  proof (cases "g_frames g1 = 0")
    case True
    then show ?thesis by (simp add: animation_frame_def)
  next
    case False
    have g0: "g_frames g \<noteq> 0"
    proof
      assume "g_frames g = 0"
      then have "g1 = g" by (simp add: g1_def animation_frame_def)
      with \<open>g_frames g = 0\<close> False show False by simp
    qed
    let ?sp = "((g_state g)\<lparr>pending := False\<rparr>, g_panels g)"
    have ok: "list_all panel_ok (snd ?sp)" using assms by (simp add: stats_inv_def)
    obtain s ps where r: "renderPanels ?sp = (s, ps)" by (cases "renderPanels ?sp")
    have again: "renderPanels (s, ps) = (s, ps)" using panels_once.settled [OF ok] by (simp add: r)
    have still: "\<not> panels_touched (s, ps)" using renderPanels_untouched [OF ok] by (simp add: r)
    have np: "\<not> pending s" using renderPanels_props(5) [OF ok] by (simp add: r)
    have st: "g_panels g1 = ps" "(g_state g1)\<lparr>pending := False\<rparr> = s" "g_frames g1 = 1"
      using False g0 np assms i1
      by (auto simp: g1_def animation_frame_def r show_panels_def Let_def scheduleRender_def stats_inv_def
          split: if_splits)
    then show ?thesis by (simp add: animation_frame_def again still show_panels_def Let_def)
  qed
  then show ?thesis by (simp add: g1_def numeral_2_eq_2)
qed

section \<open>A click shows the other state everywhere\<close>

definition panel_current :: "stats_state \<Rightarrow> panel \<Rightarrow> bool" where
  "panel_current s p \<longleftrightarrow>
     pn_visible p \<longrightarrow>
     (case panel_backends p of
        None \<Rightarrow> find_block (pn_content p) = None
      | Some b \<Rightarrow>
          if anchorIn (pn_content p) = None then find_block (pn_content p) = None
          else find_block (pn_content p) = Some (fst (buildBlock b s)))"

lemma built_later:
  "ids_le (snd (idOf b (t_ids s))) (t_ids s') \<Longrightarrow> isOpen s' = isOpen s \<Longrightarrow>
     fst (buildBlock b s') = fst (buildBlock b s)"
proof -
  assume i: "ids_le (snd (idOf b (t_ids s))) (t_ids s')" and o: "isOpen s' = isOpen s"
  have "ids (t_ids s') (bs_ref b) = Some (fst (idOf b (t_ids s)))"
    using i idOf_known [of b "t_ids s"] by (simp add: ids_le_def)
  then have "fst (idOf b (t_ids s')) = fst (idOf b (t_ids s))" by (simp add: idOf_def)
  with o show ?thesis by (simp add: buildBlock_def Let_def split_beta)
qed

lemma forced_not_kept: "forceAll s \<Longrightarrow> up_to_date b s e = (False, s)"
  by (simp add: up_to_date_def split: option.split)

lemma render_forced:
  assumes ok: "panel_ok p" and f: "forceAll s" and r: "render_panel s p = (s', p')"
    and le: "ids_le (t_ids s') (t_ids s'')" and o: "isOpen s'' = isOpen s"
  shows "panel_current s'' p'"
  using ok
proof (cases rule: render_cases [where s = s])
  case hidden
  with r show ?thesis by (simp add: panel_current_def)
next
  case absent
  with r cleared_ok(1) [OF ok] anchorIn_blockless [OF ok] show ?thesis
    by (auto simp: panel_current_def find_none split: option.split)
next
  case (kept b s1)
  with forced_not_kept [OF f] show ?thesis by simp
next
  case (built b s1)
  have s1: "s1 = s" using built(4) forced_not_kept [OF f] by simp
  define blk where "blk = fst (buildBlock b s)"
  have e: "s' = snd (buildBlock b s)" "p' = p\<lparr>pn_content := in_stack (place_block blk) (cleared p)\<rparr>"
    using built(5) r by (simp_all add: blk_def s1)
  have a: "anchorIn (cleared p) \<noteq> None" using cleared_ok [OF ok] built(3) by simp
  have "find_block (pn_content p') = Some blk"
    using find_in_stack [OF a] cleared_ok(1) [OF ok] built_block(1) [of b s] by (simp add: e blk_def)
  moreover have "anchorIn (pn_content p') \<noteq> None"
    using anchorIn_place [OF a built_block [of b s]] by (simp add: e blk_def)
  moreover have "fst (buildBlock b s'') = blk"
    unfolding blk_def using le o by (intro built_later) (simp_all add: e built_state)
  ultimately show ?thesis using built(2) by (simp add: panel_current_def e del: not_None_eq)
qed

lemma render_list_forced:
  assumes "list_all panel_ok ps" "forceAll s" "render_list s ps = (s', ps')"
    "ids_le (t_ids s') (t_ids s'')" "isOpen s'' = isOpen s"
  shows "list_all (panel_current s'') ps'"
  using assms
proof (induction s ps arbitrary: s' ps' rule: render_list.induct)
  case (2 s p ps)
  obtain s1 p1 where p: "render_panel s p = (s1, p1)" by (cases "render_panel s p")
  obtain s2 ps2 where q: "render_list s1 ps = (s2, ps2)" by (cases "render_list s1 ps")
  have r: "s' = s2" "ps' = p1 # ps2" using 2(4) p q by simp_all
  have ok: "panel_ok p" "list_all panel_ok ps" using 2(2) by simp_all
  note F = render_panel_frame [OF ok(1) p]
  have "ids_le (t_ids s1) (t_ids s'')"
    using render_list_props [OF ok(2) q] 2(5) r by (auto intro: ids_le_trans)
  then have "panel_current s'' p1" using render_forced [OF ok(1) 2(3) p] 2(6) by simp
  moreover have "list_all (panel_current s'') ps2"
    by (rule 2(1) [OF p [symmetric] refl ok(2) _ q]) (use F 2(3,5,6) r in simp_all)
  ultimately show ?case by (simp add: r)
qed simp

lemma rerender_current:
  assumes "list_all panel_ok ps" "rerenderAll (s, ps) = (s', ps')"
  shows "list_all (panel_current s') ps' \<and> isOpen s' = isOpen s"
proof -
  let ?s = "s\<lparr>forceAll := True\<rparr>"
  obtain s1 ps1 where r: "render_list ?s ps = (s1, ps1)" by (cases "render_list ?s ps")
  have e: "s' = s1\<lparr>forceAll := False\<rparr>" "ps' = ps1"
    using assms(2) by (simp_all add: rerenderAll_def renderPanels_def r)
  have o: "isOpen s' = isOpen ?s" using render_list_props [OF assms(1) r] by (simp add: e isOpen_def)
  have "list_all (panel_current s') ps1"
    by (rule render_list_forced [OF assms(1) _ r]) (use o in \<open>simp_all add: e\<close>)
  with e(2) o show ?thesis by (simp add: isOpen_def)
qed

lemma isOpen_setOpen: "ls_read s \<Longrightarrow> ls_write s \<Longrightarrow> isOpen (setOpen o1 s) = o1"
  by (simp add: isOpen_def setOpen_def)

section \<open>Properties\<close>

text \<open>
  C3: Whatever React does to the panels, however often the user clicks and whenever frames run: a frame is
  requested exactly while the flag is set and never a second one, no panel ever has more than one block,
  and whenever no frame is pending every visible panel shows the block of its own current response, or
  none if it has no response or no place for it.
\<close>

theorem stats_page_invariant:
  assumes "list_all panel_ok ps" "list_all event_ok es"
  shows "let g = fold stats_step es (stats_start rd wr st ps) in
    g_frames g = (if pending (g_state g) then 1 else 0) \<and>
    (\<forall>p \<in> set (g_panels g). count_blocks (pn_content p) \<le> 1) \<and>
    (\<not> pending (g_state g) \<longrightarrow> (\<forall>p \<in> set (g_panels g). panel_settled (t_ids (g_state g)) p))"
  using stats_inv_run [OF stats_inv_start [OF assms(1)] assms(2), of rd wr st]
  unfolding Let_def stats_inv_def list_all_iff panel_ok_def by blast

definition sample_backends :: backends where
  "sample_backends = \<lparr>bs_ref = 7, bs_groups = Some [], bs_requests = None, bs_truncated = 0\<rparr>"

definition sample_panel :: panel where
  "sample_panel =
     \<lparr>pn_visible = True,
      pn_keys = [(L ''__reactFiber$1'',
        Fiber (Some \<lparr>p_expr = Some (L ''up''), p_retriggerIdx = True, p_panelIdx = True, p_node = False\<rparr>)
          [PlainHook, QueryObserver (Some \<lparr>r_isError = False, r_data = Some (Some (Some (Some sample_backends)))\<rparr>)] [])],
      pn_content = [el ''div'' [] [el ''div'' [att ''class'' GROUP_ROOT] []]]\<rparr>"

lemma sample_panel_ok: "panel_ok sample_panel"
  by (simp add: sample_panel_def panel_ok_def stack_is_block_def has_attr_def BLOCK_ATTR_def)

theorem stats_page_invariant_witness:
  "g_frames (fold stats_step [Frame, ClickSummary] (stats_start True True None [sample_panel])) =
     (if pending (g_state (fold stats_step [Frame, ClickSummary] (stats_start True True None [sample_panel]))) then 1 else 0)"
  using stats_page_invariant [of "[sample_panel]" "[Frame, ClickSummary]" True True None] sample_panel_ok
  unfolding Let_def by simp

text \<open>
  C14: The script's own changes wake its observer, but left alone the page comes to rest within two frames,
  with every visible panel showing its current response.
\<close>

theorem stats_page_rests:
  assumes "stats_inv g"
  shows "g_frames ((animation_frame ^^ 2) g) = 0 \<and>
    list_all (panel_settled (t_ids (g_state ((animation_frame ^^ 2) g)))) (g_panels ((animation_frame ^^ 2) g))"
proof -
  have i: "stats_inv ((animation_frame ^^ 2) g)"
    using stats_inv_step [OF stats_inv_step [OF assms, of Frame], of Frame] by (simp add: numeral_2_eq_2)
  with animation_rest [OF assms] show ?thesis by (auto simp: stats_inv_def split: if_splits)
qed

theorem stats_page_rests_witness:
  "g_frames ((animation_frame ^^ 2) (stats_start True True None [sample_panel])) = 0"
  using stats_page_rests [OF stats_inv_start, of "[sample_panel]"] sample_panel_ok by simp

lemma show_panels_state:
  "isOpen (g_state (show_panels t sp g)) = isOpen (fst sp)" "g_panels (show_panels t sp g) = snd sp"
  "fst (buildBlock b (g_state (show_panels t sp g))) = fst (buildBlock b (fst sp))"
  by (auto simp: show_panels_def Let_def scheduleRender_def isOpen_def buildBlock_def split_beta)

text \<open>
  A click on any block's summary opens the blocks of all visible panels if they were closed and closes them
  if they were open, where the browser's storage works: every visible panel then shows the block as it
  is built in the other state.
\<close>

lemma click_switches_all:
  assumes "list_all panel_ok (g_panels g)" "ls_read (g_state g)" "ls_write (g_state g)"
  shows "isOpen (g_state (stats_step ClickSummary g)) = (\<not> isOpen (g_state g)) \<and>
    list_all (panel_current (g_state (stats_step ClickSummary g))) (g_panels (stats_step ClickSummary g))"
proof -
  let ?s = "setOpen (\<not> isOpen (g_state g)) (g_state g)"
  obtain s' ps' where r: "rerenderAll (?s, g_panels g) = (s', ps')" by (cases "rerenderAll (?s, g_panels g)")
  have c: "click_summary (g_state g, g_panels g) = (s', ps')" by (simp add: click_summary_def r)
  have e: "panel_current (g_state (show_panels t (s', ps') g)) = panel_current s'" for t
    by (intro ext) (simp only: panel_current_def show_panels_state fst_conv)
  from rerender_current [OF assms(1) r] isOpen_setOpen [OF assms(2,3)] show ?thesis
    by (simp add: c e show_panels_state)
qed

end
