(* ===== verification/StatsSpec.thy ===== *)
theory StatsSpec
  imports StatsPage
begin

text \<open>
  What the render loop of \<open>cmd/proxeus/ui/stats.js\<close> promises, without the tree surgery: a
  panel is its visibility, React's fiber, the nodes React put there and the identity of
  the response whose block is shown, and a round of the loop is a map over the panels.
  \<open>renderPanels\<close> refines that map.
\<close>

record apanel =
  ap_visible :: bool
  ap_keys :: "(ustr \<times> fiber) list"
  ap_own :: "html list"
  ap_shows :: "ustr option option"

text \<open>The abstraction: the panel without its block, and the identity the block carries.\<close>

definition panel_abs :: "panel \<Rightarrow> apanel" where
  "panel_abs p =
     \<lparr>ap_visible = pn_visible p, ap_keys = pn_keys p, ap_own = cleared p,
      ap_shows = map_option (\<lambda>e. attr_get BLOCK_ATTR (html_attrs e)) (find_block (pn_content p))\<rparr>"

definition wanted :: "id_table \<Rightarrow> apanel \<Rightarrow> ustr option option" where
  "wanted t a =
     (case viewComponent (ap_keys a) of None \<Rightarrow> None
      | Some vc \<Rightarrow> (case backendsOf vc of None \<Rightarrow> None
                    | Some b \<Rightarrow> if anchorIn (ap_own a) = None then None
                                else Some (map_option show_nat (ids t (bs_ref b)))))"

definition refreshed :: "id_table \<Rightarrow> apanel \<Rightarrow> apanel" where
  "refreshed t a = (if ap_visible a then a\<lparr>ap_shows := wanted t a\<rparr> else a)"

lemma wanted_abs:
  "panel_ok p \<Longrightarrow> wanted t (panel_abs p) =
     (case panel_backends p of None \<Rightarrow> None
      | Some b \<Rightarrow> if anchorIn (pn_content p) = None then None else Some (map_option show_nat (ids t (bs_ref b))))"
  using cleared_ok(2) [of p] anchorIn_blockless [of p]
  by (auto simp: wanted_def panel_abs_def panel_backends_def split: option.split)

lemma cleared_twice: "panel_ok p \<Longrightarrow> remove_block (cleared p) = cleared p"
  by (rule remove_none [OF cleared_ok(1)])

lemma render_panel_refines:
  assumes ok: "panel_ok p" and r: "render_panel s p = (s', p')" and le: "ids_le (t_ids s') t"
  shows "panel_abs p' = refreshed t (panel_abs p)"
  using ok
proof (cases rule: render_cases [where s = s])
  case hidden
  with r show ?thesis by (simp add: refreshed_def panel_abs_def)
next
  case absent
  then have "wanted t (panel_abs p) = None" using ok by (auto simp: wanted_abs split: option.split)
  moreover have "find_block (cleared p) = None" using cleared_ok(1) [OF ok] by (simp add: find_none)
  ultimately show ?thesis using absent r cleared_twice [OF ok]
    by (auto simp: refreshed_def panel_abs_def cleared_def)
next
  case (kept b s1)
  obtain x where x: "find_block (pn_content p) = Some x" "s1 = s\<lparr>t_ids := snd (idOf b (t_ids s))\<rparr>"
    "attr_get BLOCK_ATTR (html_attrs x) = Some (show_nat (fst (idOf b (t_ids s))))"
    using up_to_date_kept [OF kept(4)] by blast
  have e: "s' = s1" "p' = p" using kept(5) r by simp_all
  have "ids t (bs_ref b) = Some (fst (idOf b (t_ids s)))"
    using le idOf_known [of b "t_ids s"] by (simp add: e x(2) ids_le_def)
  then have "wanted t (panel_abs p) = ap_shows (panel_abs p)"
    using kept x ok by (simp add: wanted_abs del: not_None_eq) (simp add: panel_abs_def)
  then show ?thesis by (simp add: e refreshed_def)
next
  case (built b s1)
  define blk where "blk = fst (buildBlock b s1)"
  have e: "s' = snd (buildBlock b s1)" "p' = p\<lparr>pn_content := in_stack (place_block blk) (cleared p)\<rparr>"
    using built(5) r by (simp_all add: blk_def)
  have a: "anchorIn (cleared p) \<noteq> None" using cleared_ok [OF ok] built(3) by simp
  note c = cleared_ok(1) [OF ok] and b = built_block [of b s1, folded blk_def]
  have "ids t (bs_ref b) = Some (fst (idOf b (t_ids s1)))"
    using le idOf_known [of b "t_ids s1"] by (simp add: e built_state ids_le_def)
  moreover have "find_block (pn_content p') = Some blk" using find_in_stack [OF a c b(1)] by (simp add: e)
  moreover have "cleared p' = cleared p" using remove_in_stack [OF a c b] by (simp add: e cleared_def)
  ultimately show ?thesis
    using built(1-3) built_attr [of b s1] wanted_abs [OF ok, of t]
    by (simp add: refreshed_def del: not_None_eq) (simp add: panel_abs_def e blk_def)
qed

lemma render_list_refines:
  assumes "list_all panel_ok ps" "render_list s ps = (s', ps')" "ids_le (t_ids s') t"
  shows "map panel_abs ps' = map (refreshed t) (map panel_abs ps)"
  using assms
proof (induction s ps arbitrary: s' ps' rule: render_list.induct)
  case (2 s p ps)
  obtain s1 p1 where p: "render_panel s p = (s1, p1)" by (cases "render_panel s p")
  obtain s2 ps2 where q: "render_list s1 ps = (s2, ps2)" by (cases "render_list s1 ps")
  have e: "s' = s2" "ps' = p1 # ps2" using 2(3) p q by simp_all
  have ok: "panel_ok p" "list_all panel_ok ps" using 2(2) by simp_all
  have "ids_le (t_ids s1) t" using render_list_props [OF ok(2) q] 2(4) e by (auto intro: ids_le_trans)
  from render_panel_refines [OF ok(1) p this] 2(1) [OF p [symmetric] refl ok(2) q] 2(4) show ?case by (simp add: e)
qed simp

section \<open>Properties\<close>

text \<open>
  C2: A round of the loop refines its specification: in every visible panel it replaces the response shown by
  the panel's current one, or by none if there is none or no row to put it under, and nothing
  else changes: hidden panels, and every node that is not the script's own block, are as
  they were, in the same order.
\<close>

theorem renderPanels_refines:
  assumes "list_all panel_ok (snd sp)"
  shows "map panel_abs (snd (renderPanels sp)) =
    map (refreshed (t_ids (fst (renderPanels sp)))) (map panel_abs (snd sp))"
proof -
  obtain s ps where r: "render_list (fst sp) (snd sp) = (s, ps)" by (cases "render_list (fst sp) (snd sp)")
  have "map panel_abs ps = map (refreshed (t_ids s)) (map panel_abs (snd sp))"
    by (rule render_list_refines [OF assms r]) simp
  then show ?thesis by (simp add: renderPanels_def r)
qed

theorem renderPanels_refines_witness:
  "map ap_own (map panel_abs (snd (renderPanels (g_state (stats_start True True None []), [sample_panel])))) =
     [cleared sample_panel]"
  using renderPanels_refines [of "(g_state (stats_start True True None []), [sample_panel])"] sample_panel_ok
  by (simp add: refreshed_def) (simp add: panel_abs_def)

end
