(* ===== verification/StatsErrors.thy ===== *)
theory StatsErrors
  imports StatsPage
begin

text \<open>
  Exceptions in the render loop of \<open>cmd/proxeus/ui/stats.js\<close>. A response of another shape than the recorder's
  makes \<open>buildBlock\<close> throw: the block that was there is gone by then, its identity given out, the panels
  after it are not reached and \<open>forceAll\<close> keeps its value. In a frame the exception is caught, in a
  click it ends the handler. Which responses do so is a parameter, \<open>broken\<close>; the model without it
  (\<open>StatsRender\<close>, \<open>StatsPage\<close>) is the one in which none does.
\<close>

section \<open>A round that may throw\<close>

text \<open>Whether a panel's turn calls \<open>buildBlock\<close>, and with which response.\<close>

definition to_build :: "stats_state \<Rightarrow> panel \<Rightarrow> (backends \<times> stats_state) option" where
  "to_build s p =
     (if pn_visible p \<and> anchorIn (pn_content p) \<noteq> None
      then (case panel_backends p of
              None \<Rightarrow> None
            | Some b \<Rightarrow> (let (keep, s1) = up_to_date b s (find_block (pn_content p)) in if keep then None else Some (b, s1)))
      else None)"

text \<open>The state, the panel and whether its turn threw.\<close>

definition panel_turn :: "(backends \<Rightarrow> bool) \<Rightarrow> stats_state \<Rightarrow> panel \<Rightarrow> stats_state \<times> panel \<times> bool" where
  "panel_turn broken s p =
     (case to_build s p of
        Some (b, s1) \<Rightarrow>
          if broken b
          then (s1\<lparr>t_ids := snd (idOf b (t_ids s1))\<rparr>, p\<lparr>pn_content := remove_block (pn_content p)\<rparr>, True)
          else (let (s', p') = render_panel s p in (s', p', False))
      | None \<Rightarrow> (let (s', p') = render_panel s p in (s', p', False)))"

fun list_turn :: "(backends \<Rightarrow> bool) \<Rightarrow> stats_state \<Rightarrow> panel list \<Rightarrow> stats_state \<times> panel list \<times> bool" where
  "list_turn broken s [] = (s, [], False)"
| "list_turn broken s (p # ps) =
     (let (s1, p1, threw) = panel_turn broken s p
      in if threw then (s1, p1 # ps, True)
         else (let (s2, ps2, threw2) = list_turn broken s1 ps in (s2, p1 # ps2, threw2)))"

definition round_turn :: "(backends \<Rightarrow> bool) \<Rightarrow> stats_state \<times> panel list \<Rightarrow> stats_state \<times> panel list" where
  "round_turn broken sp =
     (let (s, ps, threw) = list_turn broken (fst sp) (snd sp) in (if threw then s else s\<lparr>forceAll := False\<rparr>, ps))"

text \<open>Whether the round changed the DOM: a turn that throws only where it removed a block.\<close>

definition turn_touched :: "(backends \<Rightarrow> bool) \<Rightarrow> stats_state \<Rightarrow> panel \<Rightarrow> bool" where
  "turn_touched broken s p =
     (if snd (snd (panel_turn broken s p)) then find_block (pn_content p) \<noteq> None else panel_touched s p)"

fun turns_touched :: "(backends \<Rightarrow> bool) \<Rightarrow> stats_state \<Rightarrow> panel list \<Rightarrow> bool" where
  "turns_touched broken s [] = False"
| "turns_touched broken s (p # ps) =
     (turn_touched broken s p \<or>
      (let (s1, p1, threw) = panel_turn broken s p in \<not> threw \<and> turns_touched broken s1 ps))"

section \<open>The page\<close>

definition try_frame :: "(backends \<Rightarrow> bool) \<Rightarrow> stats_page \<Rightarrow> stats_page" where
  "try_frame broken g =
     (if g_frames g = 0 then g
      else (let sp = ((g_state g)\<lparr>pending := False\<rparr>, g_panels g)
            in show_panels (turns_touched broken (fst sp) (snd sp)) (round_turn broken sp)
                 (g\<lparr>g_frames := g_frames g - 1\<rparr>)))"

definition try_click :: "(backends \<Rightarrow> bool) \<Rightarrow> stats_page \<Rightarrow> stats_page" where
  "try_click broken g =
     (let s = (setOpen (\<not> isOpen (g_state g)) (g_state g))\<lparr>forceAll := True\<rparr>; ps = g_panels g
      in show_panels (turns_touched broken s ps) (round_turn broken (s, ps)) g)"

fun try_step :: "(backends \<Rightarrow> bool) \<Rightarrow> stats_event \<Rightarrow> stats_page \<Rightarrow> stats_page" where
  "try_step broken (Mutated ps) g = scheduleRender (g\<lparr>g_panels := ps\<rparr>)"
| "try_step broken Frame g = try_frame broken g"
| "try_step broken ClickSummary g = try_click broken g"

section \<open>Where nothing throws\<close>

lemma turn_sound: "panel_turn (\<lambda>b. False) s p = (fst (render_panel s p), snd (render_panel s p), False)"
  by (simp add: panel_turn_def split_beta split: option.split)

lemma list_sound: "list_turn (\<lambda>b. False) s ps = (fst (render_list s ps), snd (render_list s ps), False)"
  by (induction ps arbitrary: s) (simp_all add: turn_sound split_beta Let_def)

lemma round_sound: "round_turn (\<lambda>b. False) sp = renderPanels sp"
  by (simp add: round_turn_def renderPanels_def list_sound split_beta)

lemma touched_sound: "turns_touched (\<lambda>b. False) s ps = list_touched s ps"
  by (induction ps arbitrary: s) (simp_all add: turn_touched_def turn_sound)

text \<open>The model without exceptions is the instance in which no response is broken.\<close>

lemma try_step_sound: "try_step (\<lambda>b. False) e g = stats_step e g"
  by (cases e) (simp_all add: try_frame_def animation_frame_def try_click_def click_summary_def rerenderAll_def
      click_touched_def panels_touched_def round_sound touched_sound Let_def)

section \<open>One turn\<close>

text \<open>A panel with a place and a response for a block; one whose response cannot be drawn; and such a one left without.\<close>

definition draws :: "panel \<Rightarrow> bool" where
  "draws p \<longleftrightarrow> pn_visible p \<and> panel_backends p \<noteq> None \<and> anchorIn (pn_content p) \<noteq> None"

definition breaks :: "(backends \<Rightarrow> bool) \<Rightarrow> panel \<Rightarrow> bool" where
  "breaks broken p \<longleftrightarrow> draws p \<and> (case panel_backends p of None \<Rightarrow> False | Some b \<Rightarrow> broken b)"

definition undrawn :: "(backends \<Rightarrow> bool) \<Rightarrow> panel \<Rightarrow> bool" where
  "undrawn broken p \<longleftrightarrow> breaks broken p \<and> find_block (pn_content p) = None"

lemma to_build_Some:
  "to_build s p = Some (b, s1) \<Longrightarrow>
     draws p \<and> panel_backends p = Some b \<and> (s1 = s \<or> s1 = s\<lparr>t_ids := snd (idOf b (t_ids s))\<rparr>)"
  by (auto simp: to_build_def draws_def split: if_splits option.splits prod.splits dest: up_to_date_state)

text \<open>The two ways a turn can end, as a rule.\<close>

lemma turn_cases [case_names threw ended]:
  obtains b s1 where "to_build s p = Some (b, s1)" "broken b"
      "panel_turn broken s p = (s1\<lparr>t_ids := snd (idOf b (t_ids s1))\<rparr>, p\<lparr>pn_content := cleared p\<rparr>, True)"
  | s' p' where "render_panel s p = (s', p')" "panel_turn broken s p = (s', p', False)"
proof (cases "\<exists>b s1. to_build s p = Some (b, s1) \<and> broken b")
  case True
  then obtain b s1 where b: "to_build s p = Some (b, s1)" "broken b" by blast
  then show ?thesis by (intro that(1) [OF b]) (simp add: panel_turn_def cleared_def)
next
  case False
  obtain s' p' where r: "render_panel s p = (s', p')" by (cases "render_panel s p")
  show ?thesis by (rule that(2) [OF r]) (use False r in \<open>auto simp: panel_turn_def split: option.split\<close>)
qed

lemma turn_frame:
  assumes "panel_ok p" "panel_turn broken s p = (s', p', threw)"
  shows "panel_ok p' \<and> forceAll s' = forceAll s \<and> pending s' = pending s \<and> ids_le (t_ids s) (t_ids s') \<and>
    pn_visible p' = pn_visible p \<and> panel_backends p' = panel_backends p \<and>
    (ids_ok (t_ids s) \<longrightarrow> ids_ok (t_ids s'))"
proof (cases rule: turn_cases [of s p broken])
  case (threw b s1)
  have "s1 = s \<or> s1 = s\<lparr>t_ids := snd (idOf b (t_ids s))\<rparr>" using to_build_Some [OF threw(1)] by blast
  moreover have "panel_ok (p\<lparr>pn_content := cleared p\<rparr>)"
    using cleared_ok(1) [OF assms(1)] stack_is_block_count [of "cleared p"] by (simp add: panel_ok_def)
  ultimately show ?thesis using threw(3) assms(2)
    by (auto simp: idOf_again intro: ids_le_idOf ids_ok_idOf)
next
  case (ended s1 p1)
  then have e: "render_panel s p = (s', p')" using assms(2) by simp
  have "ids_ok (t_ids s) \<longrightarrow> ids_ok (t_ids s')" using render_panel_ids [OF _ assms(1), of s] e by auto
  then show ?thesis
    using render_panel_frame [OF assms(1) e] render_panel_ok [OF assms(1) e] by (simp add: panel_backends_def)
qed

text \<open>A turn ends with the panel showing its response, or throws and leaves it without a block.\<close>

lemma turn_result:
  assumes "panel_ok p" "panel_turn broken s p = (s', p', threw)"
  shows "(\<not> threw \<longrightarrow> panel_settled (t_ids s') p') \<and> (threw \<longrightarrow> undrawn broken p') \<and> (draws p' \<longleftrightarrow> draws p)"
proof (cases rule: turn_cases [of s p broken])
  case (threw b s1)
  then have d: "draws p" "panel_backends p = Some b" using to_build_Some [OF threw(1)] by blast+
  then have "anchorIn (cleared p) \<noteq> None" using cleared_ok(2) [OF assms(1)] by (simp add: draws_def)
  moreover have "find_block (cleared p) = None" using cleared_ok(1) [OF assms(1)] by (simp add: find_none)
  ultimately show ?thesis using threw d assms(2) by (auto simp: undrawn_def breaks_def draws_def)
next
  case (ended s1 p1)
  then have e: "render_panel s p = (s', p')" "\<not> threw" using assms(2) by simp_all
  have "anchorIn (pn_content p') \<noteq> None \<longleftrightarrow> anchorIn (pn_content p) \<noteq> None" if v: "pn_visible p" "panel_backends p \<noteq> None"
    using assms(1)
  proof (cases rule: render_cases [where s = s])
    case absent
    then show ?thesis using e v anchorIn_blockless [OF assms(1)] by auto
  next
    case (built b s1)
    then show ?thesis using e cleared_ok [OF assms(1)] anchorIn_place [OF _ built_block [of b s1], of "cleared p"] by auto
  qed (use e v in auto)
  then have "draws p' \<longleftrightarrow> draws p"
    using render_panel_frame [OF assms(1) e(1)] by (auto simp: draws_def panel_backends_def)
  then show ?thesis using e(2) render_panel_settled [OF assms(1) e(1)] by simp
qed

section \<open>One round\<close>

text \<open>Every panel before the first that cannot be drawn shows its response.\<close>

fun shown_upto :: "(backends \<Rightarrow> bool) \<Rightarrow> id_table \<Rightarrow> panel list \<Rightarrow> bool" where
  "shown_upto broken t [] = True"
| "shown_upto broken t (p # ps) = (undrawn broken p \<or> panel_settled t p \<and> shown_upto broken t ps)"

text \<open>A panel that cannot be drawn comes after one that can.\<close>

fun stuck_after :: "(backends \<Rightarrow> bool) \<Rightarrow> bool \<Rightarrow> panel list \<Rightarrow> bool" where
  "stuck_after broken drawn [] = False"
| "stuck_after broken drawn (p # ps) = (if breaks broken p then drawn else stuck_after broken (drawn \<or> draws p) ps)"

lemma list_turn_result:
  assumes "list_all panel_ok ps" "list_turn broken s ps = (s', ps', threw)"
  shows "list_all panel_ok ps' \<and> forceAll s' = forceAll s \<and> pending s' = pending s \<and> ids_le (t_ids s) (t_ids s') \<and>
    (ids_ok (t_ids s) \<longrightarrow> ids_ok (t_ids s')) \<and> shown_upto broken (t_ids s') ps' \<and>
    stuck_after broken d ps' = stuck_after broken d ps"
  using assms
proof (induction ps arbitrary: s s' ps' threw d)
  case (Cons p ps)
  obtain s1 p1 t1 where p: "panel_turn broken s p = (s1, p1, t1)" by (cases "panel_turn broken s p")
  obtain s2 ps2 t2 where q: "list_turn broken s1 ps = (s2, ps2, t2)" by (cases "list_turn broken s1 ps")
  have ok: "panel_ok p" "list_all panel_ok ps" using Cons.prems(1) by simp_all
  note F = turn_frame [OF ok(1) p] turn_result [OF ok(1) p]
  have b: "breaks broken p1 = breaks broken p" using F by (simp add: breaks_def)
  show ?case
  proof (cases t1)
    case True
    with Cons.prems(2) p have "s' = s1" "ps' = p1 # ps" by simp_all
    with True F b ok show ?thesis by simp
  next
    case False
    with Cons.prems(2) p q have r: "s' = s2" "ps' = p1 # ps2" by simp_all
    have "stuck_after broken d' ps2 = stuck_after broken d' ps" for d' using Cons.IH [OF ok(2) q] by blast
    moreover note Cons.IH [OF ok(2) q, of d]
    ultimately show ?thesis using False F b unfolding r by (auto intro: ids_le_trans settled_mono)
  qed
qed simp

text \<open>A forced round draws every panel it reaches again.\<close>

lemma forced_to_build: "forceAll s \<Longrightarrow> to_build s p = (if draws p then Some (the (panel_backends p), s) else None)"
  by (auto simp: to_build_def draws_def forced_not_kept split: option.split)

lemma forced_touch: "forceAll s \<Longrightarrow> draws p \<Longrightarrow> panel_touched s p"
  by (auto simp: panel_touched_def draws_def forced_not_kept)

lemma forced_turn:
  assumes "forceAll s"
  shows "snd (snd (panel_turn broken s p)) = breaks broken p"
  by (auto simp: panel_turn_def forced_to_build [OF assms] breaks_def draws_def split_beta)

lemma forced_round:
  assumes "list_all panel_ok ps" "forceAll s" "stuck_after broken d ps"
  shows "snd (snd (list_turn broken s ps)) \<and> (d \<or> turns_touched broken s ps)"
  using assms
proof (induction ps arbitrary: s d)
  case (Cons p ps)
  obtain s1 p1 t1 where p: "panel_turn broken s p = (s1, p1, t1)" by (cases "panel_turn broken s p")
  have t: "t1 = breaks broken p" using forced_turn [OF Cons.prems(2), of broken p] p by simp
  have "panel_ok p" "list_all panel_ok ps" using Cons.prems(1) by simp_all
  then have f: "forceAll s1" using turn_frame [OF _ p] Cons.prems(2) by simp
  show ?case
  proof (cases "breaks broken p")
    case True
    with Cons.prems(3) t p show ?thesis by simp
  next
    case False
    with Cons.prems(3) have "stuck_after broken (d \<or> draws p) ps" by simp
    from Cons.IH [OF \<open>list_all panel_ok ps\<close> f this] show ?thesis
      using False t p forced_touch [OF Cons.prems(2), of p] by (auto simp: turn_touched_def split_beta)
  qed
qed simp

lemma round_turn_result:
  assumes "list_all panel_ok (snd sp)"
  shows "list_all panel_ok (snd (round_turn broken sp)) \<and> pending (fst (round_turn broken sp)) = pending (fst sp) \<and>
    (ids_ok (t_ids (fst sp)) \<longrightarrow> ids_ok (t_ids (fst (round_turn broken sp)))) \<and>
    shown_upto broken (t_ids (fst (round_turn broken sp))) (snd (round_turn broken sp)) \<and>
    stuck_after broken d (snd (round_turn broken sp)) = stuck_after broken d (snd sp)"
proof -
  obtain s ps t where r: "list_turn broken (fst sp) (snd sp) = (s, ps, t)" by (cases "list_turn broken (fst sp) (snd sp)")
  show ?thesis using list_turn_result [OF assms r, of d] by (auto simp: round_turn_def r)
qed

section \<open>The invariant\<close>

definition try_inv :: "(backends \<Rightarrow> bool) \<Rightarrow> stats_page \<Rightarrow> bool" where
  "try_inv broken g \<longleftrightarrow>
     g_frames g = (if pending (g_state g) then 1 else 0) \<and> ids_ok (t_ids (g_state g)) \<and> list_all panel_ok (g_panels g) \<and>
     (\<not> pending (g_state g) \<longrightarrow> shown_upto broken (t_ids (g_state g)) (g_panels g))"

lemma try_inv_show:
  assumes "list_all panel_ok (snd sp)" "ids_ok (t_ids (fst sp))" "g_frames g = (if pending (fst sp) then 1 else 0)"
  shows "try_inv broken (show_panels t (round_turn broken sp) g)"
  using round_turn_result [OF assms(1), of broken False] assms(2,3)
  by (auto simp: try_inv_def show_panels_def scheduleRender_def Let_def)

lemma try_inv_step: "try_inv broken g \<Longrightarrow> event_ok e \<Longrightarrow> try_inv broken (try_step broken e g)"
proof (cases e)
  case (Mutated ps)
  assume "try_inv broken g" "event_ok e"
  with Mutated show ?thesis by (auto simp: try_inv_def scheduleRender_def)
next
  case Frame
  assume g: "try_inv broken g"
  show ?thesis
  proof (cases "g_frames g = 0")
    case True
    with Frame g show ?thesis by (simp add: try_frame_def)
  next
    case False
    with g have "g_frames g = 1" by (simp add: try_inv_def split: if_splits)
    with Frame g show ?thesis by (simp add: try_frame_def Let_def try_inv_show try_inv_def [of _ g])
  qed
next
  case ClickSummary
  assume "try_inv broken g"
  with ClickSummary show ?thesis by (simp add: try_click_def Let_def try_inv_show try_inv_def [of _ g])
qed

lemma try_inv_run: "try_inv broken g \<Longrightarrow> list_all event_ok es \<Longrightarrow> try_inv broken (fold (try_step broken) es g)"
  by (induction es arbitrary: g) (simp_all add: try_inv_step)

lemma try_inv_start: "list_all panel_ok ps \<Longrightarrow> try_inv broken (stats_start r w st ps)"
  by (simp add: try_inv_def stats_start_def scheduleRender_def ids_ok_none)

section \<open>The loop that a click starts\<close>

definition stuck :: "(backends \<Rightarrow> bool) \<Rightarrow> stats_page \<Rightarrow> bool" where
  "stuck broken g \<longleftrightarrow>
     g_frames g = 1 \<and> pending (g_state g) \<and> forceAll (g_state g) \<and> list_all panel_ok (g_panels g) \<and>
     stuck_after broken False (g_panels g)"

lemma forced_round_turn:
  assumes "list_all panel_ok ps" "forceAll s" "stuck_after broken False ps"
  shows "turns_touched broken s ps" "forceAll (fst (round_turn broken (s, ps)))"
    "list_all panel_ok (snd (round_turn broken (s, ps)))" "stuck_after broken False (snd (round_turn broken (s, ps)))"
    "pending (fst (round_turn broken (s, ps))) = pending s"
proof -
  obtain s' ps' t where r: "list_turn broken s ps = (s', ps', t)" by (cases "list_turn broken s ps")
  have t: t "turns_touched broken s ps" using forced_round [OF assms] r by simp_all
  show "turns_touched broken s ps" "forceAll (fst (round_turn broken (s, ps)))"
    "list_all panel_ok (snd (round_turn broken (s, ps)))" "stuck_after broken False (snd (round_turn broken (s, ps)))"
    "pending (fst (round_turn broken (s, ps))) = pending s"
    using list_turn_result [OF assms(1) r, of False] assms(2,3) t by (simp_all add: round_turn_def r)
qed

lemma stuck_frame: "stuck broken g \<Longrightarrow> stuck broken (try_frame broken g)"
proof -
  assume g: "stuck broken g"
  let ?s = "(g_state g)\<lparr>pending := False\<rparr>"
  have "list_all panel_ok (g_panels g)" "forceAll ?s" "stuck_after broken False (g_panels g)"
    using g by (simp_all add: stuck_def)
  note r = forced_round_turn [OF this]
  show ?thesis using g r by (simp add: stuck_def try_frame_def show_panels_def scheduleRender_def Let_def)
qed

lemma stuck_click:
  assumes "try_inv broken g" "stuck_after broken False (g_panels g)"
  shows "stuck broken (try_click broken g)"
proof -
  let ?s = "(setOpen (\<not> isOpen (g_state g)) (g_state g))\<lparr>forceAll := True\<rparr>"
  have "list_all panel_ok (g_panels g)" "forceAll ?s" using assms(1) by (simp_all add: try_inv_def)
  note r = forced_round_turn [OF this assms(2)]
  show ?thesis using assms(1) r by (auto simp: stuck_def try_inv_def try_click_def show_panels_def scheduleRender_def Let_def)
qed

section \<open>Properties\<close>

text \<open>
  C15: Exceptions do not break the page, as the comment in the code promises: whichever responses cannot be
  drawn, over every sequence of DOM changes, frames and clicks a frame is requested exactly while the flag is
  set, no panel has two blocks, and when none is pending every visible panel before the first one that
  cannot be drawn shows the block of its current response, and that one shows none.
\<close>

theorem stats_page_survives:
  assumes "list_all panel_ok ps" "list_all event_ok es"
  shows "let g = fold (try_step broken) es (stats_start rd wr st ps) in
    g_frames g = (if pending (g_state g) then 1 else 0) \<and>
    (\<forall>p \<in> set (g_panels g). count_blocks (pn_content p) \<le> 1) \<and>
    (\<not> pending (g_state g) \<longrightarrow> shown_upto broken (t_ids (g_state g)) (g_panels g))"
  using try_inv_run [OF try_inv_start [OF assms(1)] assms(2), of broken rd wr st]
  unfolding Let_def try_inv_def list_all_iff panel_ok_def by blast

definition odd_backends :: backends where
  "odd_backends = sample_backends\<lparr>bs_ref := 8\<rparr>"

definition odd_panel :: panel where
  "odd_panel = sample_panel\<lparr>pn_keys := [(L ''__reactFiber$1'',
        Fiber (Some \<lparr>p_expr = Some (L ''up''), p_retriggerIdx = True, p_panelIdx = True, p_node = False\<rparr>)
          [PlainHook, QueryObserver (Some \<lparr>r_isError = False, r_data = Some (Some (Some (Some odd_backends)))\<rparr>)] [])]\<rparr>"

lemma odd_panel_ok: "panel_ok odd_panel"
  using sample_panel_ok by (simp add: odd_panel_def panel_ok_def)

theorem stats_page_survives_witness:
  "let g = fold (try_step (\<lambda>b. bs_ref b = 8)) [Frame, ClickSummary, Frame] (stats_start True True None [odd_panel, sample_panel])
   in \<forall>p \<in> set (g_panels g). count_blocks (pn_content p) \<le> 1"
  using stats_page_survives [of "[odd_panel, sample_panel]" "[Frame, ClickSummary, Frame]" "\<lambda>b. bs_ref b = 8" True True None]
    sample_panel_ok odd_panel_ok
  unfolding Let_def by simp

text \<open>
  C39: One click can keep the page busy for good. With a panel that can be drawn before one that cannot, in any
  reachable state, the click's round throws before it clears \<open>forceAll\<close>; so every later frame draws the
  first panel's block anew, wakes the observer by it and throws again: left alone, there is always
  one more frame, and \<open>forceAll\<close> stays set.
\<close>

theorem forced_rounds_never_rest:
  assumes "try_inv broken g" "stuck_after broken False (g_panels g)"
  shows "let g' = (try_frame broken ^^ n) (try_step broken ClickSummary g) in
    g_frames g' = 1 \<and> forceAll (g_state g') \<and>
    turns_touched broken ((g_state g')\<lparr>pending := False\<rparr>) (g_panels g')"
proof -
  have "stuck broken ((try_frame broken ^^ n) (try_step broken ClickSummary g))"
    using stuck_click [OF assms] by (induction n) (simp_all add: stuck_frame)
  then show ?thesis
    using forced_round_turn(1) [of _ "(g_state ((try_frame broken ^^ n) (try_step broken ClickSummary g)))\<lparr>pending := False\<rparr>"]
    by (simp add: Let_def stuck_def)
qed

theorem forced_rounds_never_rest_witness:
  "g_frames ((try_frame (\<lambda>b. bs_ref b = 8) ^^ 1000)
     (try_step (\<lambda>b. bs_ref b = 8) ClickSummary (stats_start True True None [sample_panel, odd_panel]))) = 1"
proof -
  let ?b = "\<lambda>b. bs_ref b = 8" and ?g = "stats_start True True None [sample_panel, odd_panel]"
  have i: "try_inv ?b ?g" using try_inv_start [of "[sample_panel, odd_panel]"] sample_panel_ok odd_panel_ok by simp
  have b: "panel_backends sample_panel = Some sample_backends" "panel_backends odd_panel = Some odd_backends"
    by (simp_all add: panel_backends_def viewComponent_def is_view_def backendsOf_def odd_panel_def sample_panel_def
        sample_backends_def odd_backends_def)
  have c: "has_class GROUP_ROOT [att ''class'' GROUP_ROOT]"
    by (simp add: has_class_def GROUP_ROOT_def html_space_def ch_def)
  then have "anchorIn (pn_content sample_panel) \<noteq> None"
    by (simp add: sample_panel_def anchorIn_def stack_children_def has_attr_def BLOCK_ATTR_def)
  then have "draws sample_panel" "draws odd_panel"
    using b by (simp_all add: draws_def odd_panel_def) (simp_all add: sample_panel_def)
  have "stuck_after ?b False (g_panels ?g)"
    using b \<open>draws sample_panel\<close> \<open>draws odd_panel\<close> by (simp add: stats_start_def scheduleRender_def breaks_def sample_backends_def odd_backends_def)
  from forced_rounds_never_rest [OF i this, of 1000] show ?thesis unfolding Let_def by blast
qed

end
