(* ===== verification/PageTypes.thy ===== *)
theory PageTypes
  imports AppView NavView CardTree StatsBlock
begin

text \<open>
  What the pages' markup obeys beyond its nesting: the part of HTML's content model a
  browser's parser enforces by rearranging what violates it (table parts only inside their
  parents and without text between them, no block inside a paragraph, heading or inline
  element, no link inside a link), and tables whose rows have one width. A string that is
  the serialisation of such trees is read as those trees by a browser too, not only by
  the strict reader of \<open>Html\<close>.
\<close>

section \<open>The content model\<close>

fun tag_in :: "string list \<Rightarrow> html \<Rightarrow> bool" where
  "tag_in ts (Text s) = False"
| "tag_in ts (Elem t as cs) = (t \<in> L ` set ts)"
| "tag_in ts (Void t as) = (t \<in> L ` set ts)"

fun kids :: "html \<Rightarrow> html list" where
  "kids (Elem t as cs) = cs"
| "kids _ = []"

definition table_parts :: "string list" where
  "table_parts = [''table'', ''caption'', ''colgroup'', ''col'', ''thead'', ''tbody'', ''tr'', ''td'', ''th'']"

definition blocks :: "string list" where
  "blocks = [''div'', ''p'', ''h2'', ''table'', ''form'']"

text \<open>The number of cells of each row, and of columns each column group declares.\<close>

definition row_widths :: "html list \<Rightarrow> nat list" where
  "row_widths cs = map (length \<circ> kids) (concat (map kids (filter (tag_in [''thead'', ''tbody'']) cs)))"

definition col_counts :: "html list \<Rightarrow> nat list" where
  "col_counts cs = map (length \<circ> kids) (filter (tag_in [''colgroup'']) cs)"

definition fits :: "ustr \<Rightarrow> html list \<Rightarrow> bool" where
  "fits t cs =
     (if t = L ''table'' then
        list_all (tag_in [''colgroup'', ''caption'', ''thead'', ''tbody'']) cs \<and>
        list_all (\<lambda>w. w = hd (row_widths cs)) (row_widths cs @ col_counts cs)
      else if t \<in> L ` {''thead'', ''tbody''} then list_all (tag_in [''tr'']) cs
      else if t = L ''tr'' then list_all (tag_in [''td'', ''th'']) cs
      else if t = L ''colgroup'' then list_all (tag_in [''col'']) cs
      else list_all (\<lambda>c. \<not> tag_in (tl table_parts) c) cs \<and>
        (t \<in> L ` {''p'', ''h2'', ''span'', ''strong'', ''a'', ''label'', ''button''} \<longrightarrow>
           list_all (\<lambda>c. \<not> tag_in blocks c) cs) \<and>
        (t \<in> L ` {''a'', ''button''} \<longrightarrow> list_all (\<lambda>c. \<not> tag_in [''a'', ''button'', ''input''] c) cs))"

fun typed :: "html \<Rightarrow> bool" where
  "typed (Text s) = True"
| "typed (Elem t as cs) = (fits t cs \<and> list_all typed cs)"
| "typed (Void t as) = True"

text \<open>The addresses the links of a tree lead to, in document order.\<close>

fun hrefs :: "html \<Rightarrow> ustr list" where
  "hrefs (Text s) = []"
| "hrefs (Elem t as cs) =
     (if t = L ''a'' then (case attr_get (L ''href'') as of None \<Rightarrow> [] | Some u \<Rightarrow> [u]) else []) @ concat (map hrefs cs)"
| "hrefs (Void t as) = []"

lemma L_in_image: "L s \<in> L ` S \<longleftrightarrow> s \<in> S"
  by auto

lemmas content_simps = fits_def table_parts_def blocks_def row_widths_def col_counts_def L_in_image

lemma map_widths: "(\<And>x. x \<in> set xs \<Longrightarrow> f x = n) \<Longrightarrow> list_all (\<lambda>w. w = n) (map f xs)"
  by (simp add: list_all_iff)

lemma list_all_map_intro: "(\<And>x. x \<in> set xs \<Longrightarrow> P (f x)) \<Longrightarrow> list_all P (map f xs)"
  by (simp add: list_all_iff)

section \<open>The inventory page\<close>

lemma typed_target: "typed (target_tree h t) \<and> tag_in [''tr''] (target_tree h t) \<and> length (kids (target_tree h t)) = 5"
  by (simp add: target_tree_def health_tree_def url_tree_def backend_trees_def badge_tree_def probe_tree_def
      error_tree_def Let_def content_simps del: L.simps split: option.split)

lemma typed_targets: "typed (targets_tree h ts) \<and> \<not> tag_in (tl table_parts) (targets_tree h ts)"
  using typed_target [of h]
  by (simp add: targets_tree_def content_simps list_all_iff del: L.simps)

lemma typed_chips: "list_all typed (chip_trees ls) \<and> list_all (\<lambda>c. tag_in [''span''] c) (chip_trees ls)"
  by (auto simp: chip_trees_def chip_tree_def content_simps list_all_iff simp del: L.simps split: option.split)

lemma span_only: "tag_in [''span''] c \<Longrightarrow> ''span'' \<notin> set ts \<Longrightarrow> \<not> tag_in ts c"
  by (cases c) (auto simp del: L.simps)

lemma typed_group: "typed (group_tree h g) \<and> \<not> tag_in (tl table_parts) (group_tree h g)"
proof -
  have "list_all (\<lambda>c. \<not> tag_in ts c) (chip_trees (g_labels g))" if "''span'' \<notin> set ts" for ts
    using typed_chips [of "g_labels g"] span_only that by (auto simp: list_all_iff)
  then show ?thesis
    using typed_chips [of "g_labels g"] typed_targets [of h "or_empty (g_targets g)"]
    by (simp add: group_tree_def content_simps del: L.simps)
qed

lemma typed_inventory: "list_all typed (inventory_trees h data)"
  using typed_group [of h] by (simp add: inventory_trees_def Let_def content_simps list_all_iff del: L.simps)

section \<open>The Backends page\<close>

lemma typed_nav_row: "typed (nav_row_tree h t) \<and> tag_in [''tr''] (nav_row_tree h t) \<and> length (kids (nav_row_tree h t)) = 4"
  by (simp add: nav_row_tree_def content_simps del: L.simps)

lemma typed_nav_targets: "typed (nav_targets_tree h ts) \<and> \<not> tag_in (tl table_parts) (nav_targets_tree h ts)"
  using typed_nav_row [of h]
  by (simp add: nav_targets_tree_def nav_colgroup_tree_def nav_th_tree_def content_simps list_all_iff del: L.simps)

lemma typed_nav_card: "typed (nav_card_tree h g)"
  using typed_nav_targets [of h "or_empty (g_targets g)"] by (simp add: nav_card_tree_def Let_def content_simps del: L.simps)

lemma typed_nav: "list_all typed (nav_trees h data)"
  using typed_nav_card [of h] by (simp add: nav_trees_def content_simps list_all_iff del: L.simps)

text \<open>The text of a failed load, where there is nothing in it to escape.\<close>

lemma nav_error_plain:
  assumes "nav_escHtml e = e"
  shows "\<exists>f. nav_error_html e = ser nav_escHtml f \<and> list_all tree_ok f \<and> list_all typed f"
proof -
  let ?f = "[el ''p'' [att ''style'' NAV_ERR] [Text (L ''Failed to load backends: ''), Text e]]"
  have "nav_error_html e = ser nav_escHtml ?f"
    using ser_Cons [of nav_escHtml "Text (L ''Failed to load backends: '')" "[Text e]"] assms
    by (simp add: nav_error_html_def emit_simps esc_simps)
  moreover have "list_all tree_ok ?f" by (simp add: name_ok_L void_tags_def del: L.simps)
  moreover have "list_all typed ?f" by (simp add: content_simps del: L.simps)
  ultimately show ?thesis by blast
qed

section \<open>The Cardinality page\<close>

lemma typed_list_row: "typed (list_row_tree h f r) \<and> tag_in [''tr''] (list_row_tree h f r) \<and> length (kids (list_row_tree h f r)) = 2"
  by (simp add: list_row_tree_def content_simps del: L.simps)

lemma typed_list: "typed (list_tree h l rows) \<and> \<not> tag_in (tl table_parts) (list_tree h l rows)"
  using typed_list_row [of h "fst l"]
  by (cases l) (simp add: list_tree_def content_simps list_all_iff del: L.simps)

lemma typed_summary: "list_all typed (summary_trees h g) \<and> list_all (\<lambda>c. \<not> tag_in (tl table_parts) c) (summary_trees h g)"
  by (simp add: summary_trees_def content_simps del: L.simps)

lemma typed_tables: "list_all typed (tables_trees h g) \<and> list_all (\<lambda>c. \<not> tag_in (tl table_parts) c) (tables_trees h g)"
  using typed_list [of h] by (auto simp: tables_trees_def content_simps list_all_iff simp del: L.simps)

lemma typed_card: "typed (card_tree h g)"
  using typed_summary [of h g] typed_tables [of h g]
  by (simp add: card_tree_def header_tree_def notApplied_trees_def content_simps del: L.simps)

lemma typed_cards: "list_all typed (card_groups_trees h groups)"
  using typed_card [of h] by (simp add: card_groups_trees_def content_simps list_all_iff del: L.simps)

lemma typed_card_error: "list_all typed (card_error_trees err)"
  by (simp add: card_error_trees_def content_simps del: L.simps)

lemma typed_skeleton: "list_all typed (skeleton_trees f)"
  by (simp add: skeleton_trees_def field_tree_def content_simps del: L.simps)

section \<open>The block of the query page\<close>

lemma typed_group_span: "typed (group_span g) \<and> tag_in [''span''] (group_span g)"
  by (simp add: group_span_def mk_def content_simps del: L.simps split: option.split)

lemma typed_request: "typed (request_row gs r) \<and> tag_in [''tr''] (request_row gs r) \<and> length (kids (request_row gs r)) = 8"
  by (simp add: request_row_def mk_def content_simps del: L.simps)

lemma typed_head: "typed head_row \<and> tag_in [''tr''] head_row \<and> length (kids head_row) = 8"
  by (simp add: head_row_def mk_def content_simps upt_rec del: L.simps)

lemma typed_details: "list_all typed (details b) \<and> list_all (\<lambda>c. \<not> tag_in (tl table_parts) c) (details b)"
  using typed_request [of "or_empty (bs_groups b)"] typed_head
  by (simp add: details_def mk_def content_simps list_all_iff del: L.simps)

lemma typed_block: "typed (fst (buildBlock b s))"
proof -
  have "list_all (\<lambda>c. typed c \<and> \<not> tag_in (tl table_parts) c) (map group_span gs)" for gs
    using typed_group_span span_only by (auto simp: list_all_iff table_parts_def)
  then have "typed (summary_row o1 gs) \<and> \<not> tag_in (tl table_parts) (summary_row o1 gs)" for o1 gs
    by (simp add: summary_row_def mk_def content_simps list_all_iff del: L.simps)
  then show ?thesis using typed_details [of b]
    by (simp add: buildBlock_def mk_def Let_def split_beta content_simps del: L.simps)
qed

section \<open>Links\<close>

text \<open>Joining the texts of a tree leaves its links.\<close>

lemma hrefs_add_text: "concat (map hrefs (rev (add_text s cur))) = concat (map hrefs (rev cur))"
  by (cases "(s, cur)" rule: add_text.cases) auto

lemma hrefs_absorb: "concat (map hrefs (rev (absorb1 x cur))) = concat (map hrefs (rev cur)) @ hrefs x"
proof (induction x arbitrary: cur)
  case (Elem t as cs)
  have "concat (map hrefs (rev (fold absorb1 f cur))) = concat (map hrefs (rev cur)) @ concat (map hrefs f)"
    if "set f \<subseteq> set cs" for f cur
    using that Elem.IH by (induction f arbitrary: cur) auto
  from this [of cs "[]"] show ?case by simp
qed (simp_all add: hrefs_add_text del: add_text.simps)

lemma hrefs_tidy: "concat (map hrefs (tidy f)) = concat (map hrefs f)"
proof -
  have "concat (map hrefs (rev (fold absorb1 f cur))) = concat (map hrefs (rev cur)) @ concat (map hrefs f)" for cur
    by (induction f arbitrary: cur) (simp_all add: hrefs_absorb)
  from this [of "[]"] show ?thesis by (simp add: tidy_def)
qed

lemma hrefs_target: "hrefs (target_tree h t) = [t_url t]"
  by (cases "t_version t = []") (simp_all add: target_tree_def health_tree_def url_tree_def backend_trees_def badge_tree_def probe_tree_def
      error_tree_def Let_def del: L.simps split: option.split)

lemma hrefs_none: "list_all (\<lambda>c. hrefs c = []) cs \<Longrightarrow> concat (map hrefs cs) = []"
  by (simp add: list_all_iff)

lemma hrefs_chips: "concat (map hrefs (chip_trees ls)) = []"
  by (rule hrefs_none) (auto simp: chip_trees_def chip_tree_def list_all_iff simp del: L.simps split: option.split)

lemma hrefs_rows: "(\<And>t. hrefs (row t) = [t_url t]) \<Longrightarrow> concat (map hrefs (map row ts)) = map t_url ts"
  by (induction ts) simp_all

lemma hrefs_group: "hrefs (group_tree h g) = map t_url (or_empty (g_targets g))"
  using hrefs_rows [of "target_tree h", OF hrefs_target] hrefs_chips
  by (simp add: group_tree_def targets_tree_def del: L.simps)

lemma hrefs_nav_row: "hrefs (nav_row_tree h t) = [t_url t]"
  by (simp add: nav_row_tree_def del: L.simps)

lemma hrefs_nav_card: "hrefs (nav_card_tree h g) = map t_url (or_empty (g_targets g))"
  using hrefs_rows [of "nav_row_tree h", OF hrefs_nav_row]
  by (simp add: nav_card_tree_def nav_targets_tree_def nav_colgroup_tree_def nav_th_tree_def Let_def del: L.simps)

section \<open>Properties\<close>

text \<open>
  C8: All the markup the scripts assign, but one piece, is the serialisation of trees that obey the content model: the
  inventory, the Backends page, the cards, the form and the failure of the Cardinality page have table parts only in
  their places, all rows of a table as wide as its header and its declared columns, no block inside inline
  markup and no link inside a link; and so has the block the query page builds. The one piece is the text of a failed
  load in nav.js, which is not escaped: it obeys the model where it has no markup characters, and may be
  anything where it has (lemma \<open>nav_error_markup\<close>). The locale is one that writes the time of day without any.
\<close>

theorem markup_typed:
  assumes "esc_html (locale_time h (clock h)) = locale_time h (clock h)"
  shows "(\<exists>f. buildInventory h data = ser (\<lambda>s. app_esc (Some s)) f \<and> list_all tree_ok f \<and> list_all typed f) \<and>
    (\<exists>f. renderBackendsData h data = ser nav_escHtml f \<and> list_all tree_ok f \<and> list_all typed f) \<and>
    (\<exists>f. card_groups_html h groups = ser card_escHtml f \<and> list_all tree_ok f \<and> list_all typed f) \<and>
    (\<exists>f. card_error_html err = ser card_escHtml f \<and> list_all tree_ok f \<and> list_all typed f) \<and>
    (nav_escHtml e = e \<longrightarrow> (\<exists>f. nav_error_html e = ser nav_escHtml f \<and> list_all tree_ok f \<and> list_all typed f)) \<and>
    (\<exists>f. card_skeleton fs = ser card_escHtml f \<and> list_all tree_ok f \<and> list_all typed f) \<and>
    typed (fst (buildBlock b s))"
  using emit_inventory inventory_trees_ok typed_inventory emit_nav [OF assms] nav_trees_ok typed_nav
    emit_card_groups card_groups_ok typed_cards emit_card_error card_error_ok typed_card_error
    emit_skeleton skeleton_ok typed_skeleton typed_block nav_error_plain
  by metis

theorem markup_typed_witness:
  "\<exists>f. renderBackendsData (plain_host 12) \<lparr>i_generatedAt = [], i_groups = None\<rparr> = ser nav_escHtml f \<and> list_all typed f"
  using markup_typed [of "plain_host 12" "\<lparr>i_generatedAt = [], i_groups = None\<rparr>"] by fastforce

text \<open>
  C30: The inventory page and the Backends page, drawn from the same snapshot, agree on the targets: the elements each
  one's markup is read as link every target of every group exactly once, in the snapshot's order, and link
  nothing else, provided only that the locale writes the time of day without markup characters.
\<close>

theorem pages_link_same_targets:
  assumes "esc_html (locale_time h (clock h)) = locale_time h (clock h)"
  shows "\<exists>f g. parse (buildInventory h0 data) = Some f \<and> parse (renderBackendsData h data) = Some g \<and>
    concat (map hrefs f) = concat (map hrefs g) \<and>
    concat (map hrefs f) = concat (map (\<lambda>gr. map t_url (or_empty (g_targets gr))) (or_empty (i_groups data)))"
proof -
  have m: "concat (map hrefs (map tree gs)) = concat (map (\<lambda>gr. map t_url (or_empty (g_targets gr))) gs)"
    if "\<And>gr. hrefs (tree gr) = map t_url (or_empty (g_targets gr))" for tree gs
    using that by (induction gs) simp_all
  have "concat (map hrefs (inventory_trees h0 data)) = concat (map (\<lambda>gr. map t_url (or_empty (g_targets gr))) (or_empty (i_groups data)))"
    using m [of "group_tree h0", OF hrefs_group] by (simp add: inventory_trees_def Let_def del: L.simps)
  moreover have "concat (map hrefs (nav_trees h data)) = concat (map (\<lambda>gr. map t_url (or_empty (g_targets gr))) (or_empty (i_groups data)))"
    using m [of "nav_card_tree h", OF hrefs_nav_card] by (simp add: nav_trees_def del: L.simps)
  moreover have "parse (buildInventory h0 data) = Some (tidy (inventory_trees h0 data))"
    "parse (renderBackendsData h data) = Some (tidy (nav_trees h data))"
    by (simp_all only: emit_inventory emit_nav [OF assms] app.parse_ser [OF inventory_trees_ok] nav.parse_ser [OF nav_trees_ok])
  ultimately show ?thesis
    by (intro exI [of _ "tidy (inventory_trees h0 data)"] exI [of _ "tidy (nav_trees h data)"]) (simp only: hrefs_tidy simp_thms)
qed

definition sample_snapshot :: inventory where
  "sample_snapshot =
     \<lparr>i_generatedAt = [], i_groups = Some [\<lparr>g_name = L ''g'', g_ordinal = 0, g_labels = None,
       g_targets = Some [\<lparr>t_url = L ''http://a'', t_healthy = True, t_lastError = [], t_lastProbeAt = go_zero_time,
         t_version = [], t_backendType = []\<rparr>]\<rparr>]\<rparr>"

theorem pages_link_same_targets_witness:
  "\<exists>f g. parse (buildInventory (plain_host 1) sample_snapshot) = Some f \<and>
     parse (renderBackendsData (plain_host 12) sample_snapshot) = Some g \<and>
     concat (map hrefs f) = [L ''http://a''] \<and> concat (map hrefs g) = [L ''http://a'']"
proof -
  have "esc_html (locale_time (plain_host 12) (clock (plain_host 12))) = locale_time (plain_host 12) (clock (plain_host 12))"
    by simp
  moreover have "concat (map (\<lambda>gr. map t_url (or_empty (g_targets gr))) (or_empty (i_groups sample_snapshot))) = [L ''http://a'']"
    by (simp add: sample_snapshot_def del: L.simps)
  ultimately show ?thesis using pages_link_same_targets [of "plain_host 12" "plain_host 1" sample_snapshot] by metis
qed

end
