(* ===== verification/CardServer.thy ===== *)
theory CardServer
  imports CardQuery CardTree Async
begin

text \<open>
  The server side of the Cardinality page (\<open>pkg/proxeusui/cardinality.go\<close>): reading the page's
  query, choosing what each kind of backend is asked, trying a group's targets in turn and
  filling the group's entry of \<open>cardinality.json\<close>. A Go string that comes from a URL is its
  bytes (\<open>gstr\<close>); one that goes into the JSON is the text the page receives. The HTTP
  exchange with a target is a parameter, and so is the current day.
\<close>

section \<open>Query strings in Go\<close>

type_synonym gstr = "nat list"

definition go_str :: "ustr \<Rightarrow> gstr" where
  "go_str s = utf8 (code_points s)"

definition go_lit :: "string \<Rightarrow> gstr" where
  "go_lit s = map of_char s"

text \<open>\<open>url.QueryUnescape\<close>: a \<open>%\<close> without two hexadecimal digits is an error.\<close>

fun go_unescape :: "gstr \<Rightarrow> gstr option" where
  "go_unescape [] = Some []"
| "go_unescape (b # x # y # bs) =
     (if b = 37 then
        (case (hex_val x, hex_val y) of
           (Some h, Some l) \<Rightarrow> map_option ((#) (16 * h + l)) (go_unescape bs)
         | _ \<Rightarrow> None)
      else map_option ((#) (if b = 43 then 32 else b)) (go_unescape (x # y # bs)))"
| "go_unescape (b # bs) = (if b = 37 then None else map_option ((#) (if b = 43 then 32 else b)) (go_unescape bs))"

text \<open>\<open>URL.Query\<close>: parts that are empty, hold a semicolon or do not unescape are dropped.\<close>

definition go_pair :: "gstr \<Rightarrow> (gstr \<times> gstr) option" where
  "go_pair seg =
     (case (go_unescape (takeWhile (\<lambda>b. b \<noteq> 61) seg), go_unescape (drop 1 (dropWhile (\<lambda>b. b \<noteq> 61) seg))) of
        (Some k, Some v) \<Rightarrow> Some (k, v)
      | _ \<Rightarrow> None)"

definition go_query :: "gstr \<Rightarrow> (gstr \<times> gstr) list" where
  "go_query raw = List.map_filter go_pair (filter (\<lambda>seg. seg \<noteq> [] \<and> 59 \<notin> set seg) (split_on 38 raw))"

definition go_get :: "gstr \<Rightarrow> (gstr \<times> gstr) list \<Rightarrow> gstr" where
  "go_get k ps = (case map_of ps k of None \<Rightarrow> [] | Some v \<Rightarrow> v)"

definition go_all :: "gstr \<Rightarrow> (gstr \<times> gstr) list \<Rightarrow> gstr list" where
  "go_all k ps = map snd (filter (\<lambda>e. fst e = k) ps)"

text \<open>\<open>strconv.Atoi\<close> on a 64-bit machine.\<close>

definition go_digit :: "nat \<Rightarrow> bool" where
  "go_digit b \<longleftrightarrow> 48 \<le> b \<and> b \<le> 57"

definition go_digits :: "gstr \<Rightarrow> nat" where
  "go_digits ds = foldl (\<lambda>a b. 10 * a + (b - 48)) 0 ds"

definition go_atoi :: "gstr \<Rightarrow> int option" where
  "go_atoi s =
     (let neg = (s \<noteq> [] \<and> hd s = 45);
          ds = (if s \<noteq> [] \<and> hd s \<in> {43, 45} then tl s else s);
          v = (if neg then - int (go_digits ds) else int (go_digits ds))
      in if ds = [] \<or> \<not> list_all go_digit ds then None
         else if - (2 ^ 63) \<le> v \<and> v < 2 ^ 63 then Some v else None)"

text \<open>\<open>time.Parse(time.DateOnly, s)\<close> succeeds.\<close>

definition date_only :: "gstr \<Rightarrow> bool" where
  "date_only s \<longleftrightarrow>
     length s = 10 \<and> s ! 4 = 45 \<and> s ! 7 = 45 \<and>
     list_all go_digit (take 4 s @ take 2 (drop 5 s) @ drop 8 s) \<and>
     (let y = go_digits (take 4 s); m = go_digits (take 2 (drop 5 s)); d = go_digits (drop 8 s)
      in 1 \<le> m \<and> m \<le> 12 \<and> 1 \<le> d \<and> int d \<le> days_in_month (int y) (m - 1))"

section \<open>The page's query\<close>

record cquery =
  cq_TopN :: int
  cq_Match :: "gstr list"
  cq_FocusLabel :: gstr
  cq_Date :: gstr

definition go_topN :: "gstr \<Rightarrow> int option" where
  "go_topN s =
     (if s = [] then Some 10
      else (case go_atoi s of None \<Rightarrow> None | Some n \<Rightarrow> if n < 1 \<or> 1000 < n then None else Some n))"

definition parseCardinalityQuery :: "gstr \<Rightarrow> ustr + cquery" where
  "parseCardinalityQuery raw =
     (let ps = go_query raw; date = go_get (go_lit ''date'') ps in
      case go_topN (go_get (go_lit ''topN'') ps) of
        None \<Rightarrow> Inl (L ''topN must be an integer from 1 to 1000'')
      | Some n \<Rightarrow>
          if date \<noteq> [] \<and> \<not> date_only date then Inl (L ''date must be YYYY-MM-DD'')
          else Inr \<lparr>cq_TopN = n, cq_Match = go_all (go_lit ''match[]'') ps,
                    cq_FocusLabel = go_get (go_lit ''focusLabel'') ps, cq_Date = date\<rparr>)"

section \<open>Asking one group\<close>

text \<open>The values of \<open>url.Values\<close> by name, and the names of the filters that are not sent.\<close>

type_synonym tsdb_params = "(ustr \<times> gstr list) list"

definition set_filters :: "cquery \<Rightarrow> tsdb_params" where
  "set_filters q =
     (if cq_Match q \<noteq> [] then [(L ''match[]'', cq_Match q)] else []) @
     (if cq_FocusLabel q \<noteq> [] then [(L ''focusLabel'', [cq_FocusLabel q])] else []) @
     (if cq_Date q \<noteq> [] then [(L ''date'', [cq_Date q])] else [])"

definition tsdbStatusParams :: "ustr \<Rightarrow> cquery \<Rightarrow> tsdb_params \<times> ustr list" where
  "tsdbStatusParams bt q =
     (let n = go_str (show_int (cq_TopN q));
          vm = (bt = L ''victoriametrics'');
          v = (if vm then [(L ''topN'', [n])]
               else if bt \<in> {[], L ''unknown''} then [(L ''limit'', [n]), (L ''topN'', [n])]
               else [(L ''limit'', [n])])
      in if vm then (v @ set_filters q, []) else (v, map fst (set_filters q)))"

record tsdb_data =
  td_head :: "(int \<times> int \<times> int \<times> int) option"
  td_totalSeries :: "int option"
  td_totalPairs :: int
  td_lists :: "ustr \<Rightarrow> stat list"

record tsdb_response =
  tr_status :: ustr
  tr_error :: ustr
  tr_isPartial :: bool
  tr_data :: "tsdb_data option"

text \<open>What a target answers: a failed exchange, or a status and a body that decodes or not.\<close>

datatype exchange = TFailed ustr | TAnswer nat "ustr + tsdb_response"

fun fetchTSDBStatus :: "exchange \<Rightarrow> ustr + bool \<times> tsdb_data" where
  "fetchTSDBStatus (TFailed e) = Inl e"
| "fetchTSDBStatus (TAnswer status body) =
     (if status \<noteq> 200 then Inl (L ''HTTP '' @ show_nat status)
      else case body of Inl e \<Rightarrow> Inl (L ''decoding response: '' @ e)
      | Inr r \<Rightarrow>
          if tr_status r \<noteq> L ''success'' then Inl (L ''backend error: '' @ tr_error r)
          else (case tr_data r of
                  None \<Rightarrow> Inl (L ''unrecognized response: neither headStats nor totalSeries'')
                | Some d \<Rightarrow>
                    if td_head d = None \<and> td_totalSeries d = None
                    then Inl (L ''unrecognized response: neither headStats nor totalSeries'')
                    else Inr (tr_isPartial r, d)))"

text \<open>\<open>omitempty\<close> on a number and a string.\<close>

definition omit_zero :: "int \<Rightarrow> int option" where
  "omit_zero n = (if n = 0 then None else Some n)"

definition stat_lists :: "ustr list" where
  "stat_lists =
     map L [''seriesCountByMetricName'', ''labelValueCountByLabelName'', ''seriesCountByLabelValuePair'',
       ''memoryInBytesByLabelName'', ''seriesCountByLabelName'', ''seriesCountByFocusLabelValue'']"

definition fillCardinality :: "gstr \<Rightarrow> cgroup \<Rightarrow> bool \<times> tsdb_data \<Rightarrow> cquery \<Rightarrow> cgroup" where
  "fillCardinality today g r q =
     (let d = snd r;
          g = g\<lparr>c_partial := fst r\<rparr>;
          g = (case td_head d of
                 Some (series, pairs, lo, hi) \<Rightarrow>
                   g\<lparr>c_totalSeries := series, c_totalLabelValuePairs := pairs,
                     c_coverage := Some \<lparr>cv_kind = L ''head'', cv_minTime = omit_zero lo, cv_maxTime = omit_zero hi,
                                         cv_date = None\<rparr>\<rparr>
               | None \<Rightarrow>
                   g\<lparr>c_totalSeries := (case td_totalSeries d of None \<Rightarrow> 0 | Some n \<Rightarrow> n),
                     c_totalLabelValuePairs := td_totalPairs d,
                     c_coverage := Some \<lparr>cv_kind = L ''day'', cv_minTime = None, cv_maxTime = None,
                                         cv_date = Some (to_utf16 (utf8_decode (if cq_Date q = [] then today else cq_Date q)))\<rparr>\<rparr>)
      in g\<lparr>c_lists := filter (\<lambda>(n, rows). rows \<noteq> []) (map (\<lambda>n. (n, td_lists d n)) stat_lists)\<rparr>)"

record cbackend =
  cb_name :: ustr
  cb_type :: ustr
  cb_bases :: "ustr list"

text \<open>The targets in turn: the first that answers, or the errors of all.\<close>

fun try_bases :: "(ustr \<Rightarrow> exchange) \<Rightarrow> ustr list \<Rightarrow> ustr list + (ustr \<times> bool \<times> tsdb_data)" where
  "try_bases ask [] = Inl []"
| "try_bases ask (base # bases) =
     (case fetchTSDBStatus (ask base) of
        Inr r \<Rightarrow> Inr (base, r)
      | Inl e \<Rightarrow> (case try_bases ask bases of Inl es \<Rightarrow> Inl ((base @ L '': '' @ e) # es) | Inr r \<Rightarrow> Inr r))"

definition groupCardinality :: "(ustr \<Rightarrow> tsdb_params \<Rightarrow> exchange) \<Rightarrow> gstr \<Rightarrow> cquery \<Rightarrow> cbackend \<Rightarrow> cgroup" where
  "groupCardinality net today q b =
     (let (params, notApplied) = tsdbStatusParams (cb_type b) q;
          g = \<lparr>c_name = cb_name b, c_backendType = or_else (cb_type b) (L ''unknown''), c_target = [], c_error = [],
               c_notApplied = (if notApplied = [] then None else Some notApplied), c_partial = False, c_coverage = None,
               c_totalSeries = 0, c_totalLabelValuePairs = 0, c_lists = []\<rparr>
      in if cb_bases b = [] then g\<lparr>c_error := L ''no targets''\<rparr>
         else (case try_bases (\<lambda>base. net base params) (cb_bases b) of
                 Inr (base, r) \<Rightarrow> fillCardinality today (g\<lparr>c_target := base\<rparr>) r q
               | Inl es \<Rightarrow> g\<lparr>c_error := join (L ''; '') es\<rparr>))"

definition zero_cgroup :: cgroup where
  "zero_cgroup =
     \<lparr>c_name = [], c_backendType = [], c_target = [], c_error = [], c_notApplied = None, c_partial = False, c_coverage = None,
      c_totalSeries = 0, c_totalLabelValuePairs = 0, c_lists = []\<rparr>"

text \<open>
  The slice starts with zero values. The groups are asked in parallel; each task writes its own place of the slice when it is
  done. \<open>finished\<close> is the order in which they finish. Each is asked through its own client, which is looked up by
  the group's name: \<open>net n\<close> is what that client gets.
\<close>

definition collectCardinality :: "(ustr \<Rightarrow> ustr \<Rightarrow> tsdb_params \<Rightarrow> exchange) \<Rightarrow> gstr \<Rightarrow> cquery \<Rightarrow> nat list \<Rightarrow> cbackend list \<Rightarrow> cgroup list" where
  "collectCardinality net today q finished bs =
     fold (\<lambda>i gs. gs[i := groupCardinality (net (cb_name (bs ! i))) today q (bs ! i)]) finished (replicate (length bs) zero_cgroup)"

section \<open>Reading back what the page sent\<close>

lemma go_unescape_plain:
  "b \<noteq> 37 \<Longrightarrow> go_unescape (b # bs) = map_option ((#) (if b = 43 then 32 else b)) (go_unescape bs)"
  by (cases bs; cases "tl bs") auto

lemma go_unescape_byte: "b < 256 \<Longrightarrow> go_unescape (form_byte b @ bs) = map_option ((#) b) (go_unescape bs)"
  by (auto simp: form_byte_def go_unescape_plain unreserved_def hex_val_digit)

lemma go_unescape_bytes: "\<forall>b \<in> set s. b < 256 \<Longrightarrow> go_unescape (concat (map form_byte s)) = Some s"
  by (induction s) (simp_all add: go_unescape_byte)

lemma go_unescape_escape: "go_unescape (form_escape s) = Some (go_str s)"
  unfolding form_escape_def go_str_def
  by (rule go_unescape_bytes)
     (use code_points_scalar [of s] in \<open>auto simp: utf8_def list_all_iff dest: utf8_lt\<close>)

lemma form_byte_semicolon: "b < 256 \<Longrightarrow> 59 \<notin> set (form_byte b)"
proof -
  assume "b < 256"
  then have "b div 16 < 16" by (simp add: less_mult_imp_div_less)
  moreover have "n < 16 \<Longrightarrow> hex_digit n \<noteq> 59" for n by (simp add: hex_digit_def)
  ultimately show ?thesis using mod_less_divisor [of 16 b] by (auto simp: form_byte_def unreserved_def)
qed

lemma form_escape_semicolon: "59 \<notin> set (form_escape s)"
  using code_points_scalar [of s] form_byte_semicolon
  by (auto simp: form_escape_def utf8_def list_all_iff dest!: utf8_lt)

lemma go_pair_escape: "go_pair (form_escape k @ [61] @ form_escape v) = Some (go_str k, go_str v)"
proof -
  have n: "\<forall>b \<in> set (form_escape k). b \<noteq> 61" using form_escape_range by blast
  then show ?thesis by (simp add: go_pair_def takeWhile_append2 dropWhile_append2 go_unescape_escape)
qed

lemma go_query_toString: "go_query (go_str (usp_toString ps)) = map (\<lambda>(k, v). (go_str k, go_str v)) ps"
proof (cases "ps = []")
  case True
  then show ?thesis by (simp add: go_query_def go_str_def usp_toString_def utf8_def)
next
  case False
  let ?seg = "\<lambda>(k, v). form_escape k @ [61] @ form_escape v"
  let ?bs = "join [38] (map ?seg ps)"
  have "x < 128" if "x \<in> set ?bs" for x using join_set [OF that] form_escape_range by fastforce
  then have "go_str (usp_toString ps) = ?bs" unfolding go_str_def usp_toString_def by (intro ascii_units) blast
  moreover have "split_on 38 ?bs = map ?seg ps"
    using False form_escape_range by (intro split_on_join) fastforce+
  moreover have "filter (\<lambda>seg. seg \<noteq> [] \<and> 59 \<notin> set seg) (map ?seg ps) = map ?seg ps"
    using form_escape_semicolon by (auto simp: filter_id_conv)
  moreover have "List.map_filter go_pair (map ?seg ps) = map (\<lambda>(k, v). (go_str k, go_str v)) ps"
    by (induction ps) (auto simp: map_filter_simps go_pair_escape [simplified])
  ultimately show ?thesis by (simp only: go_query_def)
qed

lemma go_str_Nil [simp]: "go_str [] = []"
  by (simp add: go_str_def utf8_def)

lemma go_str_Nil_iff [simp]: "go_str s = [] \<longleftrightarrow> s = []"
proof -
  have "utf8_bytes cp \<noteq> []" for cp by (simp add: utf8_bytes_def)
  moreover have "code_points s = [] \<longleftrightarrow> s = []" by (cases s rule: code_points.cases) auto
  ultimately show ?thesis by (auto simp: go_str_def utf8_def)
qed

lemma go_str_L: "\<forall>c \<in> set s. of_char c < (128 :: nat) \<Longrightarrow> go_str (L s) = go_lit s"
proof -
  assume a: "\<forall>c \<in> set s. of_char c < (128 :: nat)"
  have u: "map word_of_nat (go_lit s) = L s"
    by (induction s) (simp_all add: go_lit_def ch_def of_nat_of_char)
  have "\<forall>b \<in> set (go_lit s). b < 128" using a by (auto simp: go_lit_def)
  from ascii_units [OF this] show ?thesis by (simp only: u go_str_def)
qed

lemma go_keys:
  "go_str (L ''topN'') = go_lit ''topN''" "go_str (L ''match[]'') = go_lit ''match[]''"
  "go_str (L ''focusLabel'') = go_lit ''focusLabel''" "go_str (L ''date'') = go_lit ''date''"
  "go_str (L ''10'') = go_lit ''10''"
  by (rule go_str_L; simp)+

lemma go_default: "go_topN (go_lit ''10'') = Some 10"
  by (simp add: go_topN_def go_atoi_def go_lit_def go_digit_def go_digits_def)

lemma go_read_page:
  defines "ps f \<equiv> go_query (go_str (usp_toString (card_query f)))"
  shows "go_topN (go_get (go_lit ''topN'') (ps f)) = go_topN (go_str (f_topN f))"
    and "go_all (go_lit ''match[]'') (ps f) = (if f_match f = [] then [] else [go_str (f_match f)])"
    and "go_get (go_lit ''focusLabel'') (ps f) = go_str (f_focusLabel f)"
    and "go_get (go_lit ''date'') (ps f) = go_str (f_date f)"
proof -
  have e: "ps f = (go_lit ''topN'', go_str (or_else (f_topN f) (L ''10''))) #
      (if f_match f \<noteq> [] then [(go_lit ''match[]'', go_str (f_match f))] else []) @
      (if f_focusLabel f \<noteq> [] then [(go_lit ''focusLabel'', go_str (f_focusLabel f))] else []) @
      (if f_date f \<noteq> [] then [(go_lit ''date'', go_str (f_date f))] else [])"
    unfolding ps_def go_query_toString card_query_entries by (simp add: go_keys del: L.simps)
  have d: "go_lit ''topN'' \<noteq> go_lit ''match[]''" "go_lit ''topN'' \<noteq> go_lit ''focusLabel''" "go_lit ''topN'' \<noteq> go_lit ''date''"
    "go_lit ''match[]'' \<noteq> go_lit ''focusLabel''" "go_lit ''match[]'' \<noteq> go_lit ''date''" "go_lit ''focusLabel'' \<noteq> go_lit ''date''"
    by (simp_all add: go_lit_def)
  have t: "go_topN [] = Some 10" by (simp add: go_topN_def)
  show "go_topN (go_get (go_lit ''topN'') (ps f)) = go_topN (go_str (f_topN f))"
    by (cases "f_topN f = []") (simp_all add: e go_get_def go_keys go_default t or_else_def del: L.simps)
  show "go_all (go_lit ''match[]'') (ps f) = (if f_match f = [] then [] else [go_str (f_match f)])"
    using d by (simp add: e go_all_def)
  show "go_get (go_lit ''focusLabel'') (ps f) = go_str (f_focusLabel f)"
    using d by (simp add: e go_get_def)
  show "go_get (go_lit ''date'') (ps f) = go_str (f_date f)"
    using d by (simp add: e go_get_def)
qed

section \<open>Facts about one group\<close>

lemma try_bases_first:
  "list_all (\<lambda>b. \<exists>e. fetchTSDBStatus (ask b) = Inl e) earlier \<Longrightarrow> fetchTSDBStatus (ask base) = Inr r \<Longrightarrow>
     try_bases ask (earlier @ base # later) = Inr (base, r)"
  by (induction earlier) auto

lemma try_bases_none:
  "list_all (\<lambda>b. fetchTSDBStatus (ask b) = Inl (err b)) bases \<Longrightarrow>
     try_bases ask bases = Inl (map (\<lambda>b. b @ L '': '' @ err b) bases)"
  by (induction bases) auto

lemma fillCardinality_frame [simp]:
  "c_name (fillCardinality today g r q) = c_name g" "c_error (fillCardinality today g r q) = c_error g"
  "c_target (fillCardinality today g r q) = c_target g" "c_notApplied (fillCardinality today g r q) = c_notApplied g"
  "c_backendType (fillCardinality today g r q) = c_backendType g" "c_partial (fillCardinality today g r q) = fst r"
  by (auto simp: fillCardinality_def Let_def split: option.split)

lemma fill_lists_nonempty: "(n, rows) \<in> set (c_lists (fillCardinality today g r q)) \<Longrightarrow> rows \<noteq> []"
  by (auto simp: fillCardinality_def Let_def)

lemma groupCardinality_frame [simp]:
  "c_name (groupCardinality net today q b) = cb_name b"
  "c_backendType (groupCardinality net today q b) = or_else (cb_type b) (L ''unknown'')"
  "c_notApplied (groupCardinality net today q b) =
     (if cb_type b = L ''victoriametrics'' \<or> set_filters q = [] then None else Some (map fst (set_filters q)))"
  by (auto simp: groupCardinality_def tsdbStatusParams_def Let_def split_beta split: sum.split)

text \<open>
  What an entry must show of the answer it was made from, field by field: the head block's numbers and times, or the day's
  numbers and the day, and of each list the rows the target sent under its name, in the order of the names.
\<close>

definition carries :: "gstr \<Rightarrow> cquery \<Rightarrow> bool \<times> tsdb_data \<Rightarrow> cgroup \<Rightarrow> bool" where
  "carries today q r g \<longleftrightarrow>
     c_partial g = fst r \<and>
     (case td_head (snd r) of
        Some (series, pairs, lo, hi) \<Rightarrow>
          c_totalSeries g = series \<and> c_totalLabelValuePairs g = pairs \<and>
          c_coverage g = Some \<lparr>cv_kind = L ''head'', cv_minTime = omit_zero lo, cv_maxTime = omit_zero hi, cv_date = None\<rparr>
      | None \<Rightarrow>
          td_totalSeries (snd r) = Some (c_totalSeries g) \<and> c_totalLabelValuePairs g = td_totalPairs (snd r) \<and>
          c_coverage g = Some \<lparr>cv_kind = L ''day'', cv_minTime = None, cv_maxTime = None,
            cv_date = Some (to_utf16 (utf8_decode (if cq_Date q = [] then today else cq_Date q)))\<rparr>) \<and>
     map fst (c_lists g) = filter (\<lambda>n. td_lists (snd r) n \<noteq> []) stat_lists \<and>
     (\<forall>(n, rows) \<in> set (c_lists g). rows = td_lists (snd r) n)"

lemma fetch_recognised: "fetchTSDBStatus x = Inr r \<Longrightarrow> td_head (snd r) \<noteq> None \<or> td_totalSeries (snd r) \<noteq> None"
  by (cases x) (auto split: if_splits sum.splits option.splits)

lemma filter_rows:
  "map fst (filter (\<lambda>(n, rows). rows \<noteq> []) (map (\<lambda>n. (n, f n)) ns)) = filter (\<lambda>n. f n \<noteq> []) ns"
  by (induction ns) auto

lemma fill_lists:
  "c_lists (fillCardinality today g r q) = filter (\<lambda>(n, rows). rows \<noteq> []) (map (\<lambda>n. (n, td_lists (snd r) n)) stat_lists)"
  by (simp add: fillCardinality_def Let_def)

lemma fill_carries:
  assumes "fetchTSDBStatus x = Inr r"
  shows "carries today q r (fillCardinality today g r q)"
proof -
  have lists: "map fst (c_lists (fillCardinality today g r q)) = filter (\<lambda>n. td_lists (snd r) n \<noteq> []) stat_lists"
    unfolding fill_lists by (rule filter_rows)
  have rows: "\<forall>(n, rows) \<in> set (c_lists (fillCardinality today g r q)). rows = td_lists (snd r) n"
    unfolding fill_lists by auto
  show ?thesis
  proof (cases "td_head (snd r)")
    case None
    then obtain n where "td_totalSeries (snd r) = Some n" using fetch_recognised [OF assms] by auto
    with None show ?thesis
      unfolding carries_def by (intro conjI lists rows) (simp_all add: fillCardinality_def Let_def del: L.simps)
  next
    case (Some h)
    obtain series pairs lo hi where "h = (series, pairs, lo, hi)" by (cases h) auto
    with Some show ?thesis
      unfolding carries_def by (intro conjI lists rows) (simp_all add: fillCardinality_def Let_def del: L.simps)
  qed
qed

interpretation slice: task_slots "\<lambda>i v gs. gs[i := v]" "\<lambda>gs i. if i < length gs then Some (gs ! i) else None" "\<lambda>gs i. i < length gs"
  by unfold_locales (auto simp: nth_list_update)

lemma length_collect: "length (fold (\<lambda>i gs. gs[i := f i]) finished gs) = length gs"
  by (induction finished arbitrary: gs) simp_all

section \<open>Properties\<close>

text \<open>
  What the page asks for is what the server reads: for any filters, the query string the page builds is parsed
  by the handler into exactly those filters, the empty ones absent, or rejected with the handler's
  message when the number or the date is not one it accepts.
\<close>

lemma filters_reach_server:
  "parseCardinalityQuery (go_str (usp_toString (card_query f))) =
     (case go_topN (go_str (f_topN f)) of
        None \<Rightarrow> Inl (L ''topN must be an integer from 1 to 1000'')
      | Some n \<Rightarrow>
          if f_date f \<noteq> [] \<and> \<not> date_only (go_str (f_date f)) then Inl (L ''date must be YYYY-MM-DD'')
          else Inr \<lparr>cq_TopN = n, cq_Match = (if f_match f = [] then [] else [go_str (f_match f)]),
                    cq_FocusLabel = go_str (f_focusLabel f), cq_Date = go_str (f_date f)\<rparr>)"
  unfolding parseCardinalityQuery_def Let_def go_read_page by (simp split: option.split)

text \<open>
  C35: Each group's entry is the first answer of its targets in their order: it names the target and carries, without an
  error, the numbers, the coverage and the lists of that target's answer and of no other's, the targets before it having
  failed; if all fail, the error names every target with its own, and the entry has neither coverage nor lists; and
  the filters are sent to a backend that can apply them, and listed instead of sent for any other.
\<close>

theorem group_first_answer:
  fixes net q b
  defines "params \<equiv> fst (tsdbStatusParams (cb_type b) q)"
  assumes "cb_bases b = earlier @ rest" "list_all (\<lambda>x. fetchTSDBStatus (net x params) = Inl (err x)) earlier"
    and "rest = [] \<or> (\<exists>r. fetchTSDBStatus (net (hd rest) params) = Inr r)"
  shows "let g = groupCardinality net today q b in
    (if rest = [] then
       c_error g = (if cb_bases b = [] then L ''no targets'' else join (L ''; '') (map (\<lambda>x. x @ L '': '' @ err x) earlier)) \<and>
       c_target g = [] \<and> c_coverage g = None \<and> c_lists g = []
     else c_error g = [] \<and> c_target g = hd rest \<and>
       (\<exists>r. fetchTSDBStatus (net (hd rest) params) = Inr r \<and> carries today q r g)) \<and>
    c_name g = cb_name b \<and> c_backendType g = or_else (cb_type b) (L ''unknown'') \<and>
    or_empty (c_notApplied g) = (if cb_type b = L ''victoriametrics'' then [] else map fst (set_filters q)) \<and>
    (if cb_type b = L ''victoriametrics'' then params = (L ''topN'', [go_str (show_int (cq_TopN q))]) # set_filters q
     else fst ` set params \<subseteq> {L ''limit'', L ''topN''})"
proof -
  have p: "fst (tsdbStatusParams (cb_type b) q) = params" by (simp add: params_def)
  have sent: "if cb_type b = L ''victoriametrics'' then params = (L ''topN'', [go_str (show_int (cq_TopN q))]) # set_filters q
     else fst ` set params \<subseteq> {L ''limit'', L ''topN''}"
    by (simp add: params_def tsdbStatusParams_def Let_def del: L.simps)
  have notApplied: "or_empty (c_notApplied (groupCardinality net today q b)) =
      (if cb_type b = L ''victoriametrics'' then [] else map fst (set_filters q))"
    by (simp del: L.simps)
  define g where "g = groupCardinality net today q b"
  have "if rest = [] then
       c_error g = (if cb_bases b = [] then L ''no targets'' else join (L ''; '') (map (\<lambda>x. x @ L '': '' @ err x) earlier)) \<and>
       c_target g = [] \<and> c_coverage g = None \<and> c_lists g = []
     else c_error g = [] \<and> c_target g = hd rest \<and>
       (\<exists>r. fetchTSDBStatus (net (hd rest) params) = Inr r \<and> carries today q r g)"
  proof (cases rest)
    case Nil
    with assms(2,3) try_bases_none [of "\<lambda>x. net x params" err earlier] show ?thesis
      by (simp add: g_def groupCardinality_def split_beta p Let_def del: L.simps)
  next
    case (Cons base later)
    then obtain r where r: "fetchTSDBStatus (net base params) = Inr r" using assms(4) by auto
    have "list_all (\<lambda>x. \<exists>e. fetchTSDBStatus (net x params) = Inl e) earlier" using assms(3) by (auto simp: list_all_iff)
    from try_bases_first [of "\<lambda>x. net x params", OF this r, of later]
    have "try_bases (\<lambda>x. net x params) (cb_bases b) = Inr (base, r)" "cb_bases b \<noteq> []" by (simp_all add: Cons assms(2))
    then show ?thesis
      using r fill_carries [OF r] Cons by (simp add: g_def groupCardinality_def split_beta p Let_def del: L.simps)
  qed
  with sent notApplied show ?thesis unfolding Let_def g_def by simp
qed

definition sample_query :: cquery where
  "sample_query = \<lparr>cq_TopN = 10, cq_Match = [], cq_FocusLabel = [], cq_Date = []\<rparr>"

definition sample_answer :: exchange where
  "sample_answer =
     TAnswer 200 (Inr \<lparr>tr_status = L ''success'', tr_error = [], tr_isPartial = False,
       tr_data = Some \<lparr>td_head = Some (5, 7, 1, 2), td_totalSeries = None, td_totalPairs = 0,
         td_lists = (\<lambda>n. if n = L ''seriesCountByMetricName'' then [\<lparr>st_name = L ''up'', st_value = 5\<rparr>] else [])\<rparr>\<rparr>)"

theorem group_first_answer_witness:
  "let net = (\<lambda>x ps. if x = L ''http://a'' then TFailed (L ''refused'') else sample_answer);
      entry = (\<lambda>bases. groupCardinality net [] sample_query \<lparr>cb_name = L ''g'', cb_type = L ''thanos'', cb_bases = bases\<rparr>)
   in c_error (entry [L ''http://a'']) = L ''http://a: refused'' \<and>
      c_target (entry [L ''http://a'', L ''http://b'']) = L ''http://b'' \<and> c_totalSeries (entry [L ''http://a'', L ''http://b'']) = 5"
proof -
  let ?net = "\<lambda>x (ps :: tsdb_params). if x = L ''http://a'' then TFailed (L ''refused'') else sample_answer"
  let ?b = "\<lambda>bases. \<lparr>cb_name = L ''g'', cb_type = L ''thanos'', cb_bases = bases\<rparr>"
  have n: "L ''http://b'' \<noteq> L ''http://a''" "L ''http://a'' @ L '': '' @ L ''refused'' = L ''http://a: refused''" by simp_all
  have a: "fetchTSDBStatus (?net (L ''http://a'') ps) = Inl (L ''refused'')" for ps by simp
  have "\<exists>r. fetchTSDBStatus sample_answer = Inr r \<and> td_head (snd r) = Some (5, 7, 1, 2)"
    by (simp add: sample_answer_def del: L.simps)
  then obtain r where r: "fetchTSDBStatus (?net (L ''http://b'') ps) = Inr r" "td_head (snd r) = Some (5, 7, 1, 2)" for ps
    using n(1) by auto
  have none: "c_error (groupCardinality ?net [] sample_query (?b [L ''http://a''])) = L ''http://a: refused''"
    using group_first_answer [of "?b [L ''http://a'']" "[L ''http://a'']" "[]" ?net sample_query "\<lambda>_. L ''refused''" "[]"] a n(2)
    by (simp add: Let_def del: L.simps)
  let ?g = "groupCardinality ?net [] sample_query (?b [L ''http://a'', L ''http://b''])"
  have "c_target ?g = L ''http://b'' \<and> carries [] sample_query r ?g"
    using group_first_answer [of "?b [L ''http://a'', L ''http://b'']" "[L ''http://a'']" "[L ''http://b'']" ?net sample_query
        "\<lambda>_. L ''refused''" "[]"] a r(1)
    by (cases r) (simp add: Let_def del: L.simps)
  then have "c_target ?g = L ''http://b'' \<and> c_totalSeries ?g = 5" using r(2) by (simp add: carries_def)
  with none show ?thesis unfolding Let_def by blast
qed

text \<open>
  The answer does not depend on timing: the groups are asked in parallel and each result is stored at its own
  place, so whatever the order in which they finish, the response lists every configured group
  once, in the order of the configuration, with its own result.
\<close>

lemma collect_any_order:
  assumes "set finished = {..<length bs}"
  shows "collectCardinality net today q finished bs = map (\<lambda>b. groupCardinality (net (cb_name b)) today q b) bs"
proof (rule nth_equalityI)
  show len: "length (collectCardinality net today q finished bs) = length (map (\<lambda>b. groupCardinality (net (cb_name b)) today q b) bs)"
    by (simp add: collectCardinality_def length_collect)
  fix i
  assume "i < length (collectCardinality net today q finished bs)"
  then have "i < length bs" using len by simp
  then show "collectCardinality net today q finished bs ! i = map (\<lambda>b. groupCardinality (net (cb_name b)) today q b) bs ! i"
    using assms slice.get_run [where ks = finished and s = "replicate (length bs) zero_cgroup" and k' = i and f = "\<lambda>i. groupCardinality (net (cb_name (bs ! i))) today q (bs ! i)"]
    by (simp add: collectCardinality_def length_collect)
qed

text \<open>
  A head block whose first sample is at time zero, or which has no sample at all, has no readable time on the
  page: Go leaves a zero out of the JSON and reports an empty head as the extreme times, and
  the page shows both as an invalid date.
\<close>

lemma head_times_invalid:
  assumes "fetchTSDBStatus (net base (fst (tsdbStatusParams bt q))) = Inr (part, d)" "td_head d = Some (series, pairs, lo, hi)"
    and "lo \<in> {0, 2 ^ 63 - 1}"
  shows "coverageText h (groupCardinality net today q \<lparr>cb_name = n, cb_type = bt, cb_bases = base # later\<rparr>) =
    L ''Head block: Invalid Date to '' @ card_time h (omit_zero hi)"
proof -
  let ?b = "\<lparr>cb_name = n, cb_type = bt, cb_bases = base # later\<rparr>"
  have "c_coverage (groupCardinality net today q ?b) =
      Some \<lparr>cv_kind = L ''head'', cv_minTime = omit_zero lo, cv_maxTime = omit_zero hi, cv_date = None\<rparr>"
    using assms(1,2) by (simp add: groupCardinality_def split_beta Let_def fillCardinality_def del: L.simps)
  moreover have "card_time h (omit_zero lo) = L ''Invalid Date''"
    using assms(3) by (auto simp: omit_zero_def card_time_def)
  ultimately show ?thesis by (simp add: coverageText_def)
qed

end
