(* ===== verification/Prober.thy ===== *)
theory Prober
  imports Server CardServer
begin

text \<open>
  The server behind both backend pages (\<open>pkg/proxeusui/prober.go\<close>, \<open>buildinfo.go\<close> and \<open>serveJSON\<close> of
  \<open>handler.go\<close>): rounds of health probes whose results are stored as they finish, and the
  snapshot made of the configuration, the running server groups and the stored results. What a
  target answers to a GET is a parameter, given with the event it decides; so are the times, as
  the text they are marshalled to.
\<close>

section \<open>Configuration and running groups\<close>

record sgconfig =
  sc_Name :: ustr
  sc_Labels :: "(ustr \<times> ustr) list"
  sc_RemoteRead :: bool
  sc_absRange :: "(ustr option \<times> ustr option) option"
  sc_relRange :: "(int option \<times> int option) option"
  sc_BackendType :: ustr
  sc_Scheme :: ustr
  sc_PathPrefix :: ustr

text \<open>A running group: the name in its configuration and, once it has a state, its targets.\<close>

record server_group =
  sg_cfgName :: "ustr option"
  sg_targets :: "ustr list option"

definition sgByName :: "server_group list \<Rightarrow> ustr \<Rightarrow> server_group option" where
  "sgByName sgs = fold (\<lambda>sg m. case sg_cfgName sg of None \<Rightarrow> m | Some n \<Rightarrow> m(n \<mapsto> sg)) sgs (\<lambda>_. None)"

definition running_targets :: "server_group list \<Rightarrow> sgconfig \<Rightarrow> ustr list" where
  "running_targets sgs c = (case sgByName sgs (sc_Name c) of None \<Rightarrow> [] | Some sg \<Rightarrow> or_empty (sg_targets sg))"

definition backendBaseURL :: "sgconfig \<Rightarrow> ustr \<Rightarrow> ustr" where
  "backendBaseURL c host1 =
     or_else (sc_Scheme c) (L ''http'') @ L ''://'' @ host1 @ trim_right_slash (sc_PathPrefix c)"

section \<open>One probe\<close>

text \<open>
  A GET: no request could be made, no answer came (a time-out or another error), or an answer
  with its status and, for a body that decodes as the buildinfo envelope, the envelope's
  status and version.
\<close>

datatype get_reply = NoRequest ustr | NoReply bool ustr | Reply nat "(ustr \<times> ustr) option"

record probe_result =
  pr_Healthy :: bool
  pr_LastError :: ustr
  pr_LastProbeAt :: ustr
  pr_Version :: ustr

definition zero_probe :: probe_result where
  "zero_probe = \<lparr>pr_Healthy = False, pr_LastError = [], pr_LastProbeAt = go_zero_time, pr_Version = []\<rparr>"

definition classifyProbeError :: "bool \<Rightarrow> ustr \<Rightarrow> ustr" where
  "classifyProbeError timeout e = (if timeout then L ''probe timed out'' else e)"

definition extractVersion :: "(ustr \<times> ustr) option \<Rightarrow> ustr" where
  "extractVersion body =
     (case body of None \<Rightarrow> [] | Some (status, version) \<Rightarrow> if status \<noteq> L ''success'' then [] else version)"

definition checkLabelsEndpoint :: "(ustr \<Rightarrow> get_reply) \<Rightarrow> ustr \<Rightarrow> bool \<times> ustr" where
  "checkLabelsEndpoint net base =
     (case net (base @ L ''/api/v1/labels'') of
        NoRequest e \<Rightarrow> (False, e)
      | NoReply timeout e \<Rightarrow> (False, e)
      | Reply status body \<Rightarrow>
          if status = 200 then (True, [])
          else (False, L ''buildinfo and labels both unreachable (labels HTTP '' @ show_nat status @ L '')''))"

definition probeTarget :: "(ustr \<Rightarrow> get_reply) \<Rightarrow> ustr \<Rightarrow> sgconfig \<Rightarrow> ustr \<Rightarrow> probe_result" where
  "probeTarget net now c rawTarget =
     (let base = backendBaseURL c rawTarget in
      case net (base @ L ''/api/v1/status/buildinfo'') of
        NoRequest e \<Rightarrow> \<lparr>pr_Healthy = False, pr_LastError = e, pr_LastProbeAt = now, pr_Version = []\<rparr>
      | NoReply timeout e \<Rightarrow>
          \<lparr>pr_Healthy = False, pr_LastError = classifyProbeError timeout e, pr_LastProbeAt = now, pr_Version = []\<rparr>
      | Reply status body \<Rightarrow>
          if status \<noteq> 200
          then (let (healthy, fallbackErr) = checkLabelsEndpoint net base
                in \<lparr>pr_Healthy = healthy, pr_LastError = fallbackErr, pr_LastProbeAt = now, pr_Version = []\<rparr>)
          else \<lparr>pr_Healthy = True, pr_LastError = [], pr_LastProbeAt = now, pr_Version = extractVersion body\<rparr>)"

section \<open>Rounds of probes\<close>

text \<open>
  \<open>Run\<close> starts a round, waits for all its probes and starts the next one at a later tick. The
  probes of a round run concurrently: each stores its result when it is done, or ends without
  one when the context has been cancelled before it began. Each asks through the client of its
  group, which is looked up by the group's name as the group itself is: \<open>net n\<close> is what that client gets.
\<close>

record prober =
  pb_results :: "ustr \<times> ustr \<Rightarrow> probe_result option"
  pb_jobs :: "(sgconfig \<times> ustr) list"

datatype probe_event =
    RoundStarts "sgconfig list option" "server_group list"
  | ProbeDone nat "ustr \<Rightarrow> ustr \<Rightarrow> get_reply" ustr
  | ProbeSkipped nat

definition newProber :: prober where
  "newProber = \<lparr>pb_results = (\<lambda>_. None), pb_jobs = []\<rparr>"

definition round_jobs :: "server_group list \<Rightarrow> sgconfig list \<Rightarrow> (sgconfig \<times> ustr) list" where
  "round_jobs sgs cfg = concat (map (\<lambda>c. map (Pair c) (running_targets sgs c)) cfg)"

definition drop_nth :: "nat \<Rightarrow> 'a list \<Rightarrow> 'a list" where
  "drop_nth i xs = take i xs @ drop (Suc i) xs"

fun probe_step :: "probe_event \<Rightarrow> prober \<Rightarrow> prober" where
  "probe_step (RoundStarts cfg sgs) s =
     (if pb_jobs s \<noteq> [] then s
      else case cfg of None \<Rightarrow> s | Some cs \<Rightarrow> s\<lparr>pb_jobs := round_jobs sgs cs\<rparr>)"
| "probe_step (ProbeDone i net now) s =
     (if i < length (pb_jobs s)
      then (let (c, t) = pb_jobs s ! i
            in s\<lparr>pb_results := (pb_results s)((sc_Name c, t) \<mapsto> probeTarget (net (sc_Name c)) now c t), pb_jobs := drop_nth i (pb_jobs s)\<rparr>)
      else s)"
| "probe_step (ProbeSkipped i) s = s\<lparr>pb_jobs := drop_nth i (pb_jobs s)\<rparr>"

section \<open>The snapshot\<close>

text \<open>\<open>GroupInfo\<close> has two fields the pages do not read.\<close>

record ginfo = group +
  gi_RemoteRead :: bool
  gi_TimeRange :: ustr

record full_inventory =
  fi_generatedAt :: ustr
  fi_groups :: "ginfo list"

definition absoluteBound :: "ustr option \<Rightarrow> ustr \<Rightarrow> ustr" where
  "absoluteBound t unset = (case t of None \<Rightarrow> unset | Some s \<Rightarrow> s)"

text \<open>\<open>dur_string\<close> is \<open>String\<close> of the Prometheus library's durations.\<close>

definition relativeBound :: "(int \<Rightarrow> ustr) \<Rightarrow> int option \<Rightarrow> ustr \<Rightarrow> ustr" where
  "relativeBound dur_string d unset =
     (case d of None \<Rightarrow> unset
      | Some n \<Rightarrow> if 0 \<le> n then L ''now+'' @ dur_string n else L ''now'' @ dur_string n)"

definition timeRangeDescription :: "(int \<Rightarrow> ustr) \<Rightarrow> sgconfig \<Rightarrow> ustr" where
  "timeRangeDescription dur_string c =
     join (L '' and '')
       ((case sc_absRange c of None \<Rightarrow> []
         | Some (a, b) \<Rightarrow> [absoluteBound a (L ''-inf'') @ L '' to '' @ absoluteBound b (L ''+inf'')]) @
        (case sc_relRange c of None \<Rightarrow> []
         | Some (a, b) \<Rightarrow> [relativeBound dur_string a (L ''-inf'') @ L '' to '' @ relativeBound dur_string b (L ''+inf'')]))"

definition target_info :: "sgconfig \<Rightarrow> ustr \<Rightarrow> probe_result \<Rightarrow> target" where
  "target_info c t r =
     \<lparr>t_url = backendBaseURL c t, t_healthy = pr_Healthy r, t_lastError = pr_LastError r, t_lastProbeAt = pr_LastProbeAt r,
      t_version = pr_Version r, t_backendType = or_else (sc_BackendType c) (L ''unknown'')\<rparr>"

definition stored :: "(ustr \<times> ustr \<Rightarrow> probe_result option) \<Rightarrow> sgconfig \<Rightarrow> ustr \<Rightarrow> probe_result" where
  "stored results c t = (case results (sc_Name c, t) of None \<Rightarrow> zero_probe | Some r \<Rightarrow> r)"

definition group_info :: "(int \<Rightarrow> ustr) \<Rightarrow> server_group list \<Rightarrow> (ustr \<times> ustr \<Rightarrow> probe_result option) \<Rightarrow> nat \<Rightarrow> sgconfig \<Rightarrow> ginfo" where
  "group_info dur_string sgs results i c =
     (let ts = map (\<lambda>t. target_info c t (stored results c t)) (running_targets sgs c)
      in \<lparr>g_name = sc_Name c, g_ordinal = int i, g_labels = Some (sc_Labels c),
          g_targets = (if ts = [] then None else Some ts),
          gi_RemoteRead = sc_RemoteRead c, gi_TimeRange = timeRangeDescription dur_string c\<rparr>)"

definition takeInventory :: "(int \<Rightarrow> ustr) \<Rightarrow> ustr \<Rightarrow> sgconfig list option \<Rightarrow> server_group list \<Rightarrow> prober \<Rightarrow> full_inventory" where
  "takeInventory dur_string now cfg sgs s =
     \<lparr>fi_generatedAt = now,
      fi_groups = map (\<lambda>(i, c). group_info dur_string sgs (pb_results s) i c) (enumerate 0 (or_empty cfg))\<rparr>"

text \<open>\<open>serveJSON\<close>, up to marshalling: a group is built anew from four of its six fields.\<close>

definition serveJSON :: "full_inventory \<Rightarrow> full_inventory" where
  "serveJSON v =
     \<lparr>fi_generatedAt = fi_generatedAt v,
      fi_groups = map (\<lambda>g. \<lparr>g_name = g_name g, g_ordinal = g_ordinal g, g_labels = Some (or_empty (g_labels g)),
                            g_targets = Some (or_empty (g_targets g)), gi_RemoteRead = False, gi_TimeRange = []\<rparr>)
                      (fi_groups v)\<rparr>"

text \<open>What the pages' scripts read of it.\<close>

definition page_data :: "full_inventory \<Rightarrow> inventory" where
  "page_data v = \<lparr>i_generatedAt = fi_generatedAt v, i_groups = Some (map group.truncate (fi_groups v))\<rparr>"

section \<open>The cardinality page's groups\<close>

definition cardinalityBackends :: "sgconfig list option \<Rightarrow> server_group list \<Rightarrow> cbackend list" where
  "cardinalityBackends cfg sgs =
     map (\<lambda>c. \<lparr>cb_name = sc_Name c, cb_type = sc_BackendType c, cb_bases = map (backendBaseURL c) (running_targets sgs c)\<rparr>)
       (or_empty cfg)"

text \<open>The status and, for a success, the groups that are marshalled.\<close>

definition serveCardinality ::
  "(ustr \<Rightarrow> ustr \<Rightarrow> tsdb_params \<Rightarrow> exchange) \<Rightarrow> gstr \<Rightarrow> nat list \<Rightarrow> sgconfig list option \<Rightarrow> server_group list \<Rightarrow> gstr \<Rightarrow>
   nat \<times> (ustr + cgroup list)" where
  "serveCardinality net today finished cfg sgs raw =
     (case parseCardinalityQuery raw of
        Inl e \<Rightarrow> (400, Inl e)
      | Inr q \<Rightarrow> (200, Inr (collectCardinality net today q finished (cardinalityBackends cfg sgs))))"

section \<open>Snapshots\<close>

definition page_groups :: "full_inventory \<Rightarrow> group list" where
  "page_groups v = or_empty (i_groups (page_data (serveJSON v)))"

text \<open>What the pages get of a group of the configuration.\<close>

definition shown_targets :: "server_group list \<Rightarrow> prober \<Rightarrow> sgconfig \<Rightarrow> target list" where
  "shown_targets sgs s c = map (\<lambda>t. target_info c t (stored (pb_results s) c t)) (running_targets sgs c)"

lemma page_groups_snapshot:
  "page_groups (takeInventory dur_string now (Some cfg) sgs s) =
     map (\<lambda>(i, c). \<lparr>g_name = sc_Name c, g_ordinal = int i, g_labels = Some (sc_Labels c), g_targets = Some (shown_targets sgs s c)\<rparr>)
       (enumerate 0 cfg)"
  by (auto simp: page_groups_def page_data_def serveJSON_def takeInventory_def group_info_def shown_targets_def Let_def
      group.truncate_def or_empty_def)

lemma page_groups_nth:
  assumes "i < length cfg"
  shows "page_groups (takeInventory dur_string now (Some cfg) sgs s) ! i =
    \<lparr>g_name = sc_Name (cfg ! i), g_ordinal = int i, g_labels = Some (sc_Labels (cfg ! i)),
     g_targets = Some (shown_targets sgs s (cfg ! i))\<rparr>"
  using assms by (simp add: page_groups_snapshot nth_enumerate_eq)

lemma target_info_simps [simp]:
  "t_url (target_info c t r) = backendBaseURL c t" "t_healthy (target_info c t r) = pr_Healthy r"
  "t_lastError (target_info c t r) = pr_LastError r" "t_lastProbeAt (target_info c t r) = pr_LastProbeAt r"
  by (simp_all add: target_info_def)

section \<open>A completed round\<close>

text \<open>A target is reachable when buildinfo answers, or fails with a status and labels answers.\<close>

definition answers :: "(ustr \<Rightarrow> get_reply) \<Rightarrow> ustr \<Rightarrow> bool" where
  "answers net u = (case net u of Reply status body \<Rightarrow> status = 200 | _ \<Rightarrow> False)"

definition reachable :: "(ustr \<Rightarrow> get_reply) \<Rightarrow> ustr \<Rightarrow> bool" where
  "reachable net base \<longleftrightarrow>
     answers net (base @ L ''/api/v1/status/buildinfo'') \<or>
     (case net (base @ L ''/api/v1/status/buildinfo'') of Reply status body \<Rightarrow> answers net (base @ L ''/api/v1/labels'') | _ \<Rightarrow> False)"

lemma probe_healthy [simp]: "pr_Healthy (probeTarget net now c t) \<longleftrightarrow> reachable net (backendBaseURL c t)"
  by (auto simp: probeTarget_def reachable_def answers_def checkLabelsEndpoint_def Let_def split: get_reply.split simp del: L.simps)

lemma probe_time [simp]: "pr_LastProbeAt (probeTarget net now c t) = now"
  by (simp add: probeTarget_def Let_def split_beta split: get_reply.split)

lemma probe_error_iff: "pr_Healthy (probeTarget net now c t) \<Longrightarrow> pr_LastError (probeTarget net now c t) = []"
  by (auto simp: probeTarget_def checkLabelsEndpoint_def Let_def split: get_reply.splits if_splits simp del: L.simps)

definition probed :: "(ustr \<Rightarrow> ustr \<Rightarrow> get_reply) \<Rightarrow> prober \<Rightarrow> sgconfig \<times> ustr \<Rightarrow> bool" where
  "probed net s j \<longleftrightarrow> (\<exists>now. now \<noteq> [] \<and> pb_results s (sc_Name (fst j), snd j) = Some (probeTarget (net (sc_Name (fst j))) now (fst j) (snd j)))"

lemma set_drop_nth: "i < length xs \<Longrightarrow> set xs = insert (xs ! i) (set (drop_nth i xs))"
  by (subst id_take_nth_drop [of i xs]) (simp_all add: drop_nth_def)

lemma set_drop_nth_sub: "set (drop_nth i xs) \<subseteq> set xs"
  unfolding drop_nth_def using set_take_subset [of i xs] set_drop_subset [of "Suc i" xs] by auto

lemma round_progress:
  assumes keys: "\<forall>j \<in> J. \<forall>j' \<in> J. sc_Name (fst j) = sc_Name (fst j') \<longrightarrow> fst j = fst j'"
    and jobs: "set (pb_jobs s) \<subseteq> J" and rest: "\<forall>j \<in> J. j \<in> set (pb_jobs s) \<or> probed net s j"
    and now: "now \<noteq> []"
  shows "set (pb_jobs (probe_step (ProbeDone i net now) s)) \<subseteq> J \<and>
    (\<forall>j \<in> J. j \<in> set (pb_jobs (probe_step (ProbeDone i net now) s)) \<or> probed net (probe_step (ProbeDone i net now) s) j)"
proof (cases "i < length (pb_jobs s)")
  case False
  with jobs rest show ?thesis by simp
next
  case True
  obtain c t where ct: "pb_jobs s ! i = (c, t)" by (cases "pb_jobs s ! i")
  define s1 where "s1 = probe_step (ProbeDone i net now) s"
  have s': "s1 = s\<lparr>pb_results := (pb_results s)((sc_Name c, t) \<mapsto> probeTarget (net (sc_Name c)) now c t), pb_jobs := drop_nth i (pb_jobs s)\<rparr>"
    using True ct by (simp add: s1_def)
  have J: "(c, t) \<in> J" using True ct jobs by (metis nth_mem subsetD)
  have sets: "set (pb_jobs s) = insert (c, t) (set (drop_nth i (pb_jobs s)))" using set_drop_nth [OF True] ct by simp
  have here: "probed net s1 (c, t)" unfolding s' using now by (auto simp: probed_def)
  have kept: "probed net s1 j" if j: "j \<in> J" "probed net s j" for j
  proof (cases "(sc_Name (fst j), snd j) = (sc_Name c, t)")
    case True
    with keys J j(1) have "j = (c, t)" by (metis fst_conv prod.collapse prod.inject)
    with here show ?thesis by simp
  next
    case False
    with j(2) show ?thesis unfolding s' by (auto simp: probed_def)
  qed
  have "set (drop_nth i (pb_jobs s)) \<subseteq> J" using jobs sets by auto
  moreover have "j \<in> set (drop_nth i (pb_jobs s)) \<or> probed net s1 j" if "j \<in> J" for j
    using bspec [OF rest that] kept [OF that] here unfolding sets by blast
  moreover have "pb_jobs s1 = drop_nth i (pb_jobs s)" by (simp add: s')
  ultimately show ?thesis unfolding s1_def [symmetric] by simp
qed

lemma round_result:
  assumes "\<forall>j \<in> J. \<forall>j' \<in> J. sc_Name (fst j) = sc_Name (fst j') \<longrightarrow> fst j = fst j'"
    and "set (pb_jobs s) \<subseteq> J" "\<forall>j \<in> J. j \<in> set (pb_jobs s) \<or> probed net s j"
    and "\<forall>e \<in> set es. \<exists>i now. e = ProbeDone i net now \<and> now \<noteq> []"
    and "pb_jobs (fold probe_step es s) = []"
  shows "\<forall>j \<in> J. probed net (fold probe_step es s) j"
  using assms(2-)
proof (induction es arbitrary: s)
  case (Cons e es)
  then obtain i now where e: "e = ProbeDone i net now" and n: "now \<noteq> []" by auto
  note p = round_progress [OF assms(1) Cons.prems(1,2) n, of i]
  show ?case
    using Cons.IH [of "probe_step e s"] p Cons.prems(3,4) unfolding e by simp
qed simp

lemma round_jobs_iff: "j \<in> set (round_jobs sgs cfg) \<longleftrightarrow> fst j \<in> set cfg \<and> snd j \<in> set (running_targets sgs (fst j))"
  by (cases j) (auto simp: round_jobs_def)

lemma round_complete:
  assumes "distinct (map sc_Name cfg)" "pb_jobs s = []"
    and "\<forall>e \<in> set es. \<exists>i now. e = ProbeDone i net now \<and> now \<noteq> []"
    and "pb_jobs (fold probe_step (RoundStarts (Some cfg) sgs # es) s) = []"
    and "c \<in> set cfg" "t \<in> set (running_targets sgs c)"
  shows "probed net (fold probe_step (RoundStarts (Some cfg) sgs # es) s) (c, t)"
proof -
  let ?J = "set (round_jobs sgs cfg)" and ?s = "probe_step (RoundStarts (Some cfg) sgs) s"
  note J = round_jobs_iff [of _ sgs cfg]
  have "\<forall>j \<in> ?J. \<forall>j' \<in> ?J. sc_Name (fst j) = sc_Name (fst j') \<longrightarrow> fst j = fst j'"
    using assms(1) J by (auto simp: distinct_map inj_on_def)
  moreover have "pb_jobs ?s = round_jobs sgs cfg" using assms(2) by simp
  ultimately have "\<forall>j \<in> ?J. probed net (fold probe_step es ?s) j"
    using round_result [of ?J ?s net es] assms(3,4) by auto
  moreover have "(c, t) \<in> ?J" using J assms(5,6) by simp
  ultimately show ?thesis by auto
qed

lemma labels_timeout_raw:
  assumes "net (backendBaseURL c t @ L ''/api/v1/status/buildinfo'') = Reply status body" "status \<noteq> 200"
    and "net (backendBaseURL c t @ L ''/api/v1/labels'') = NoReply True e"
  shows "pr_LastError (probeTarget net now c t) = e"
  using assms by (simp add: probeTarget_def checkLabelsEndpoint_def Let_def del: L.simps)

section \<open>Properties\<close>

text \<open>The entry of a target reports that it could be reached, or that it could not.\<close>

definition target_shown :: "(ustr \<Rightarrow> ustr \<Rightarrow> get_reply) \<Rightarrow> sgconfig \<Rightarrow> ustr \<Rightarrow> target \<Rightarrow> bool" where
  "target_shown net c t x \<longleftrightarrow>
     t_url x = backendBaseURL c t \<and> (t_healthy x \<longleftrightarrow> reachable (net (sc_Name c)) (t_url x)) \<and>
     healthLabel (t_healthy x) (t_lastProbeAt x) = (if reachable (net (sc_Name c)) (t_url x) then L ''Up'' else L ''Down'') \<and>
     (t_healthy x \<longrightarrow> t_lastError x = [])"

lemma list_all2_map: "(\<And>t. t \<in> set ts \<Longrightarrow> P t (f t)) \<Longrightarrow> list_all2 P ts (map f ts)"
  by (simp add: list_all2_conv_all_nth)

text \<open>
  C31: Where the groups of the configuration have different names, then after a round of probes that has run to its
  end, in whatever order its concurrent probes finished and whatever was stored before, the data of the backend pages
  lists the groups of the configuration in its order, each with its current targets: a target is healthy, and shown
  as Up, exactly if it could be reached through its group's client, at buildinfo or, where that answers with an error
  status, at the labels endpoint, and a healthy one carries no error. The time range and remote read of a group are
  not part of the data: they are sent as empty and false. Names need not differ; what happens when they do not is the
  lemma \<open>same_name_mixed\<close>.
\<close>

theorem probe_round_shown:
  assumes "distinct (map sc_Name cfg)" "pb_jobs s = []"
    and "\<forall>e \<in> set es. \<exists>i now. e = ProbeDone i net now \<and> now \<noteq> []"
    and "s' = fold probe_step (RoundStarts (Some cfg) sgs # es) s" "pb_jobs s' = []"
  shows "let v = serveJSON (takeInventory dur_string now (Some cfg) sgs s'); gs = or_empty (i_groups (page_data v)) in
    map g_name gs = map sc_Name cfg \<and> map g_ordinal gs = map int [0..<length cfg] \<and>
    (\<forall>i < length cfg. list_all2 (target_shown net (cfg ! i))
      (running_targets sgs (cfg ! i)) (or_empty (g_targets (gs ! i)))) \<and>
    (\<forall>g \<in> set (fi_groups v). \<not> gi_RemoteRead g \<and> gi_TimeRange g = [])"
proof -
  let ?v = "takeInventory dur_string now (Some cfg) sgs s'"
  have names: "map g_name (page_groups ?v) = map sc_Name cfg" "map g_ordinal (page_groups ?v) = map int [0..<length cfg]"
    by (simp_all add: page_groups_snapshot o_def split_beta flip: map_map [of sc_Name snd, unfolded o_def] map_map [of int fst, unfolded o_def])
  have row: "target_shown net (cfg ! i) t (target_info (cfg ! i) t (stored (pb_results s') (cfg ! i) t))"
    if i: "i < length cfg" "t \<in> set (running_targets sgs (cfg ! i))" for i t
  proof -
    have "probed net s' (cfg ! i, t)"
      using round_complete [OF assms(1-3), of sgs "cfg ! i" t] assms(4,5) i by simp
    then obtain when1 where "when1 \<noteq> []" "stored (pb_results s') (cfg ! i) t = probeTarget (net (sc_Name (cfg ! i))) when1 (cfg ! i) t"
      by (auto simp: probed_def stored_def)
    then show ?thesis by (simp add: target_shown_def healthLabel_def probe_error_iff)
  qed
  have "list_all2 (target_shown net (cfg ! i))
      (running_targets sgs (cfg ! i)) (or_empty (g_targets (page_groups ?v ! i)))" if "i < length cfg" for i
    unfolding page_groups_nth [OF that] shown_targets_def using row [OF that] by (simp add: list_all2_map)
  moreover have "\<forall>g \<in> set (fi_groups (serveJSON ?v)). \<not> gi_RemoteRead g \<and> gi_TimeRange g = []"
    by (simp add: serveJSON_def)
  ultimately show ?thesis using names unfolding Let_def page_groups_def by blast
qed

definition sample_config :: sgconfig where
  "sample_config =
     \<lparr>sc_Name = L ''a'', sc_Labels = [], sc_RemoteRead = True, sc_absRange = None, sc_relRange = None, sc_BackendType = [],
      sc_Scheme = [], sc_PathPrefix = L ''/p/''\<rparr>"

definition sample_groups :: "server_group list" where
  "sample_groups = [\<lparr>sg_cfgName = Some (L ''a''), sg_targets = Some [L ''h:1'']\<rparr>]"

theorem probe_round_shown_witness:
  "let net = (\<lambda>n u. if u = L ''http://h:1/p/api/v1/labels'' then Reply 200 None else Reply 404 None);
       s' = fold probe_step [RoundStarts (Some [sample_config]) sample_groups, ProbeDone 0 net (L ''2024'')] newProber;
       v = serveJSON (takeInventory (\<lambda>_. []) [] (Some [sample_config]) sample_groups s')
   in map g_name (or_empty (i_groups (page_data v))) = [L ''a''] \<and>
      (\<exists>x. or_empty (g_targets (or_empty (i_groups (page_data v)) ! 0)) = [x] \<and> t_healthy x)"
proof -
  let ?net = "\<lambda>n u. if u = L ''http://h:1/p/api/v1/labels'' then Reply 200 None else Reply 404 None"
  let ?s' = "fold probe_step [RoundStarts (Some [sample_config]) sample_groups, ProbeDone 0 ?net (L ''2024'')] newProber"
  have ts: "running_targets sample_groups sample_config = [L ''h:1'']"
    by (simp add: running_targets_def sgByName_def sample_groups_def sample_config_def)
  have u: "reachable (?net n) (backendBaseURL sample_config (L ''h:1''))" for n
    by (simp add: reachable_def answers_def backendBaseURL_def sample_config_def trim_right_slash_def)
  have jobs: "pb_jobs ?s' = []"
    using ts by (simp add: newProber_def round_jobs_def drop_nth_def)
  have "pb_jobs newProber = []" by (simp add: newProber_def)
  from probe_round_shown [of "[sample_config]", OF _ this _ refl jobs, of ?net "\<lambda>_. []" "[]"] ts u show ?thesis
    by (auto simp: Let_def list_all2_Cons1 sample_config_def target_shown_def)
qed

text \<open>
  A target no probe has been stored for, as every target is until its first one ends, is not shown as
  unknown and never probed: the missing result is Go's zero value, whose time is not empty, so the
  inventory page shows the target as down, probed as many days ago as have passed since the year one.
\<close>

lemma never_probed_shown_down:
  assumes "i < length cfg" "j < length (running_targets sgs (cfg ! i))" "0 \<le> clock h"
    and "pb_results s (sc_Name (cfg ! i), running_targets sgs (cfg ! i) ! j) = None"
  shows "let gs = or_empty (i_groups (page_data (serveJSON (takeInventory dur_string now (Some cfg) sgs s))));
             x = or_empty (g_targets (gs ! i)) ! j
         in healthLabel (t_healthy x) (t_lastProbeAt x) = L ''Down'' \<and>
            relativeTime h (t_lastProbeAt x) = Some (show_int ((clock h + 62135596800000) div 86400000) @ L ''d ago'')"
proof -
  let ?t = "running_targets sgs (cfg ! i) ! j"
  have "shown_targets sgs s (cfg ! i) ! j = target_info (cfg ! i) ?t zero_probe"
    using assms(2,4) by (simp add: shown_targets_def stored_def)
  then have "or_empty (g_targets (page_groups (takeInventory dur_string now (Some cfg) sgs s) ! i)) ! j = target_info (cfg ! i) ?t zero_probe"
    by (simp add: page_groups_nth [OF assms(1)])
  then show ?thesis
    using zero_time_shown_down [OF assms(3)] unfolding Let_def page_groups_def by (simp add: zero_probe_def del: L.simps)
qed

lemma sgByName_last:
  assumes "sg_cfgName g = Some n" "\<forall>x \<in> set later. sg_cfgName x \<noteq> Some n"
  shows "sgByName (earlier @ g # later) n = Some g"
proof -
  let ?f = "\<lambda>sg m. case sg_cfgName sg of None \<Rightarrow> m | Some n \<Rightarrow> m(n \<mapsto> sg)"
  have "fold ?f later m n = m n" for m
    using assms(2) by (induction later arbitrary: m) (auto split: option.split)
  then show ?thesis using assms(1) by (simp add: sgByName_def)
qed

text \<open>
  Group names are not required to differ, but the snapshot finds a group's targets by its name. Of groups
  that share one, each is listed with the targets of the one that comes last, under its own scheme and
  path prefix, on the inventory pages and on the Cardinality page alike; the targets of the others
  are not listed, probed or asked.
\<close>

lemma same_name_mixed:
  assumes "sg_cfgName g = Some n" "\<forall>x \<in> set later. sg_cfgName x \<noteq> Some n"
    and "i < length cfg" "sc_Name (cfg ! i) = n"
  shows "let sgs = earlier @ g # later; urls = map (backendBaseURL (cfg ! i)) (or_empty (sg_targets g)) in
    map t_url (or_empty (g_targets (or_empty (i_groups (page_data (serveJSON (takeInventory dur_string now (Some cfg) sgs s)))) ! i))) = urls \<and>
    cb_bases (cardinalityBackends (Some cfg) sgs ! i) = urls \<and>
    (\<forall>t. (cfg ! i, t) \<in> set (round_jobs sgs cfg) \<longleftrightarrow> t \<in> set (or_empty (sg_targets g)))"
proof -
  let ?sgs = "earlier @ g # later"
  have ts: "running_targets ?sgs (cfg ! i) = or_empty (sg_targets g)"
    using sgByName_last [OF assms(1,2)] assms(4) by (simp add: running_targets_def)
  have "map t_url (or_empty (g_targets (page_groups (takeInventory dur_string now (Some cfg) ?sgs s) ! i))) =
      map (backendBaseURL (cfg ! i)) (or_empty (sg_targets g))"
    by (simp add: page_groups_nth [OF assms(3)] shown_targets_def ts)
  moreover have "cb_bases (cardinalityBackends (Some cfg) ?sgs ! i) = map (backendBaseURL (cfg ! i)) (or_empty (sg_targets g))"
    using assms(3) by (simp add: cardinalityBackends_def ts)
  moreover have "(cfg ! i, t) \<in> set (round_jobs ?sgs cfg) \<longleftrightarrow> t \<in> set (or_empty (sg_targets g))" for t
    using assms(3) by (simp add: round_jobs_iff ts)
  ultimately show ?thesis unfolding Let_def page_groups_def by blast
qed

end
