(* ===== verification/FirstRender.thy ===== *)
theory FirstRender
  imports Prober AppSpec "HOL-Library.Multiset"
begin

text \<open>
  The first rendering of the inventory page: what \<open>serveIndex\<close> of \<open>pkg/proxeusui/handler.go\<close> makes of
  the template \<open>templates/inventory.html\<close> and the snapshot, before app.js replaces it. The
  template's actions are evaluated as \<open>html/template\<close> does, which puts a value into the tree as
  one text or attribute value, and a link's address through its URL filter. White space between
  the template's tags is left out; no element observed below contains any.
\<close>

section \<open>What html/template does with a value\<close>

text \<open>
  The truth of a struct, which is what a \<open>time.Time\<close> is: always true, its zero value
  included.
\<close>

definition struct_truth :: "'a \<Rightarrow> bool" where
  "struct_truth v = True"

text \<open>The URL filter of an \<open>href\<close>: other schemes are replaced, and bytes outside the kept ones escaped.\<close>

definition fold_letter :: "cu \<Rightarrow> cu" where
  "fold_letter c = (if c = 0x17F then ch (CHR ''s'') else ascii_lower c)"

definition safe_url :: "ustr \<Rightarrow> bool" where
  "safe_url s \<longleftrightarrow>
     (let protocol = takeWhile (\<lambda>c. c \<noteq> ch (CHR '':'')) s
      in ch (CHR '':'') \<in> set s \<and> ch (CHR ''/'') \<notin> set protocol \<longrightarrow>
         map fold_letter protocol \<in> {L ''http'', L ''https'', L ''mailto''})"

definition url_kept :: "nat \<Rightarrow> bool" where
  "url_kept b \<longleftrightarrow>
     48 \<le> b \<and> b \<le> 57 \<or> 65 \<le> b \<and> b \<le> 90 \<or> 97 \<le> b \<and> b \<le> 122 \<or>
     b \<in> set (map of_char ''!#$&*+,/:;=?@[]-._~'')"

definition lower_hex :: "nat \<Rightarrow> nat" where
  "lower_hex d = (if d < 10 then 48 + d else 87 + d)"

fun url_normal :: "nat list \<Rightarrow> nat list" where
  "url_normal [] = []"
| "url_normal (b # bs) =
     (if url_kept b \<or> b = 37 \<and> 2 \<le> length bs \<and> hex_val (bs ! 0) \<noteq> None \<and> hex_val (bs ! 1) \<noteq> None then [b]
      else [37, lower_hex (b div 16), lower_hex (b mod 16)]) @ url_normal bs"

definition url_attr :: "ustr \<Rightarrow> ustr" where
  "url_attr s = (if safe_url s then map word_of_nat (url_normal (go_str s)) else L ''#ZgotmplZ'')"

section \<open>The template\<close>

definition tmpl_health :: "target \<Rightarrow> html" where
  "tmpl_health t =
     (let (c, text) = (if \<not> struct_truth (t_lastProbeAt t) then (L ''unknown'', L ''Unknown'')
                       else if t_healthy t then (L ''healthy'', L ''Up'') else (L ''unhealthy'', L ''Down''))
      in el ''span'' [att ''class'' (L ''health'')]
           [el ''span'' [att ''class'' (L ''health-dot health-dot--'' @ c)] [],
            el ''span'' [att ''class'' (L ''health-text--'' @ c)] [Text text]])"

definition tmpl_url :: "target \<Rightarrow> html" where
  "tmpl_url t =
     el ''a'' [att ''class'' (L ''target-url''), att ''href'' (url_attr (t_url t)), att ''target'' (L ''_blank''),
              att ''rel'' (L ''noopener'')] [Text (t_url t)]"

definition tmpl_badge :: "ustr \<Rightarrow> html" where
  "tmpl_badge bt =
     (let (c, text) = (if bt = L ''thanos'' then (L ''thanos'', L ''Thanos'')
                       else if bt = L ''victoriametrics'' then (L ''victoriametrics'', L ''VictoriaMetrics'')
                       else if bt = L ''prometheus'' then (L ''prometheus'', L ''Prometheus'')
                       else (L ''unknown'', if bt \<noteq> [] then bt else L ''unknown''))
      in el ''span'' [att ''class'' (L ''backend-badge backend-badge--'' @ c)] [Text text])"

text \<open>\<open>time_text\<close> is the text \<open>time.Time\<close> prints as.\<close>

definition tmpl_probe :: "(ustr \<Rightarrow> ustr) \<Rightarrow> target \<Rightarrow> html" where
  "tmpl_probe time_text t =
     (if struct_truth (t_lastProbeAt t)
      then el ''span'' [att ''class'' (L ''ts-relative''), att ''title'' (time_text (t_lastProbeAt t))]
             [Text (time_text (t_lastProbeAt t))]
      else el ''span'' [att ''class'' (L ''ts-never'')] [Text (L ''Never'')])"

definition tmpl_error :: "target \<Rightarrow> html list" where
  "tmpl_error t =
     (if \<not> t_healthy t \<and> t_lastError t \<noteq> []
      then [el ''span'' [att ''class'' (L ''target-error''), att ''title'' (t_lastError t)] [Text (t_lastError t)]]
      else [])"

definition tmpl_target :: "(ustr \<Rightarrow> ustr) \<Rightarrow> target \<Rightarrow> html" where
  "tmpl_target time_text t =
     el ''tr'' []
       [el ''td'' [] [tmpl_health t], el ''td'' [] [tmpl_url t],
        el ''td'' [] (tmpl_badge (t_backendType t) #
          (if t_version t \<noteq> [] then [el ''span'' [att ''class'' (L ''version-str'')] [Text (t_version t)]] else [])),
        el ''td'' [] [tmpl_probe time_text t], el ''td'' [] (tmpl_error t)]"

text \<open>A map is ranged over in the order of its keys' bytes.\<close>

definition tmpl_labels :: "(ustr \<times> ustr) list \<Rightarrow> html list" where
  "tmpl_labels ls =
     (if ls \<noteq> []
      then [el ''span'' [att ''class'' (L ''group-header__labels'')] (map (chip_tree ls) (sort_key go_str (map fst ls)))]
      else [])"

definition tmpl_targets :: "(ustr \<Rightarrow> ustr) \<Rightarrow> target list \<Rightarrow> html" where
  "tmpl_targets time_text ts =
     (if ts = [] then el ''div'' [att ''class'' (L ''empty-state'')] [Text (L ''No targets configured for this group.'')]
      else el ''table'' [att ''class'' (L ''targets-table'')]
        [el ''thead'' [] [el ''tr'' []
           [el ''th'' [] [Text (L ''Health'')], el ''th'' [] [Text (L ''Endpoint'')],
            el ''th'' [] [Text (L ''Backend'')], el ''th'' [] [Text (L ''Last probed'')],
            el ''th'' [] [Text (L ''Last error'')]]],
         el ''tbody'' [] (map (tmpl_target time_text) ts)])"

definition tmpl_group :: "(ustr \<Rightarrow> ustr) \<Rightarrow> ginfo \<Rightarrow> html" where
  "tmpl_group time_text g =
     (let ts = or_empty (g_targets g)
      in el ''div'' [att ''class'' (L ''group-card''), att ''data-group'' (g_name g)]
           [el ''div'' [att ''class'' (L ''group-header'')]
              ([el ''span'' [att ''class'' (L ''group-header__ordinal''),
                  att ''title'' (L ''server_group YAML index '' @ [0x2014] @ L '' ordinal value drives dedup tie-breaking'')]
                  [Text (L ''ord:'' @ show_int (g_ordinal g))],
                el ''span'' [att ''class'' (L ''group-header__name'')] [Text (g_name g)]] @
               tmpl_labels (or_empty (g_labels g)) @
               [el ''span'' [att ''class'' (L ''group-header__summary js-group-summary'')]
                  [Text (show_nat (length ts) @ L '' target(s)'')]]),
            tmpl_targets time_text ts])"

definition tmpl_groups :: "(ustr \<Rightarrow> ustr) \<Rightarrow> full_inventory \<Rightarrow> html list" where
  "tmpl_groups time_text v =
     (if fi_groups v = [] then [el ''div'' [att ''class'' (L ''empty-state'')] [Text (L ''No server groups configured.'')]]
      else map (tmpl_group time_text) (fi_groups v))"

text \<open>The two parts of the page app.js goes on from.\<close>

definition serveIndex :: "(ustr \<Rightarrow> ustr) \<Rightarrow> full_inventory \<Rightarrow> ustr \<times> html list" where
  "serveIndex time_text v = (L ''Last refreshed: '' @ time_text (fi_generatedAt v), tmpl_groups time_text v)"

section \<open>What a reader sees of a page\<close>

text \<open>The elements of a class in document order, their texts and attributes.\<close>

fun inner_text :: "html \<Rightarrow> ustr" where
  "inner_text (Text s) = s"
| "inner_text (Void t as) = []"
| "inner_text (Elem t as cs) = concat (map inner_text cs)"

fun by_class :: "ustr \<Rightarrow> html \<Rightarrow> html list" where
  "by_class c (Text s) = []"
| "by_class c (Void t as) = (if has_class c as then [Void t as] else [])"
| "by_class c (Elem t as cs) = (if has_class c as then [Elem t as cs] else []) @ concat (map (by_class c) cs)"

fun attr_of :: "ustr \<Rightarrow> html \<Rightarrow> ustr option" where
  "attr_of a (Text s) = None"
| "attr_of a (Void t as) = attr_get a as"
| "attr_of a (Elem t as cs) = attr_get a as"

definition class_texts :: "string \<Rightarrow> html list \<Rightarrow> ustr list" where
  "class_texts c f = map inner_text (concat (map (by_class (L c)) f))"

definition class_attrs :: "string \<Rightarrow> string \<Rightarrow> html list \<Rightarrow> ustr option list" where
  "class_attrs c a f = map (attr_of (L a)) (concat (map (by_class (L c)) f))"

section \<open>Reading classes\<close>

text \<open>The words of a literal, so that class tests on literals compute.\<close>

fun words :: "string \<Rightarrow> string list" where
  "words [] = [[]]"
| "words (c # s) =
     (if c \<in> {CHR 0x09, CHR 0x0A, CHR 0x0C, CHR 0x0D, CHR '' ''} then [] # words s
      else (case words s of [] \<Rightarrow> [[c]] | w # ws \<Rightarrow> (c # w) # ws))"

lemma html_space_ch: "html_space (ch c) \<longleftrightarrow> c \<in> {CHR 0x09, CHR 0x0A, CHR 0x0C, CHR 0x0D, CHR '' ''}"
proof -
  have n: "0x9 = ch (CHR 0x09)" "0xA = ch (CHR 0x0A)" "0xC = ch (CHR 0x0C)" "0xD = ch (CHR 0x0D)" "0x20 = ch (CHR '' '')"
    by (simp_all add: ch_def)
  show ?thesis unfolding html_space_def n by simp
qed

lemma split_spaces_L: "split_spaces (L s) = map L (words s)"
  by (induction s) (simp_all add: html_space_ch split: list.split)

lemma has_class_literal: "has_class (L c) (att ''class'' (L s) # as) \<longleftrightarrow> c \<in> set (words s)"
  by (auto simp: has_class_def split_spaces_L simp del: L.simps)

lemma has_class_none: "\<not> has_class c []"
  by (simp add: has_class_def)

lemma class_texts_Nil: "class_texts c [] = []"
  by (simp add: class_texts_def)

lemma class_texts_append: "class_texts c (f @ g) = class_texts c f @ class_texts c g"
  by (simp add: class_texts_def)

lemma class_texts_Cons: "class_texts c (x # f) = class_texts c [x] @ class_texts c f"
  by (simp add: class_texts_def)

lemma class_texts_Text: "class_texts c [Text s] = []"
  by (simp add: class_texts_def)

lemma class_texts_Elem:
  "class_texts c [Elem t as cs] = (if has_class (L c) as then [concat (map inner_text cs)] else []) @ class_texts c cs"
  by (simp add: class_texts_def)

lemma class_texts_Elem_Cons:
  "class_texts c (Elem t as cs # f) =
     (if has_class (L c) as then [concat (map inner_text cs)] else []) @ class_texts c cs @ class_texts c f"
  by (simp add: class_texts_def)

lemma class_texts_map:
  "(\<And>x. x \<in> set xs \<Longrightarrow> class_texts c [f x] = class_texts c [g x]) \<Longrightarrow> class_texts c (map f xs) = class_texts c (map g xs)"
proof (induction xs)
  case (Cons x xs)
  then have "class_texts c (map f xs) = class_texts c (map g xs)" by simp
  with Cons.prems [of x] show ?case
    using class_texts_Cons [of c "f x" "map f xs"] class_texts_Cons [of c "g x" "map g xs"] by simp
qed simp

lemmas class_texts_simps =
  class_texts_Nil class_texts_append class_texts_Text class_texts_Elem class_texts_Elem_Cons has_class_literal has_class_none

section \<open>The parts both renderings share\<close>

text \<open>The backend types a configuration can declare, and the one shown for none.\<close>

definition type_names :: "string list" where
  "type_names = [''prometheus'', ''thanos'', ''victoriametrics'', ''cortex'', ''mimir'', ''unknown'']"

definition known_types :: "ustr list" where
  "known_types = map L type_names"

text \<open>The classes whose texts the two renderings are compared on.\<close>

definition shared_classes :: "string list" where
  "shared_classes =
     [''group-header__ordinal'', ''group-header__name'', ''label-chip'', ''health-text--unknown'', ''health-text--healthy'',
      ''health-text--unhealthy'', ''target-url'', ''backend-badge'', ''version-str'', ''empty-state'', ''ts-never'']"

lemma health_same: "t_lastProbeAt t \<noteq> [] \<Longrightarrow> tmpl_health t = health_tree t"
  by (simp add: tmpl_health_def health_tree_def struct_truth_def healthClass_def healthLabel_def Let_def del: L.simps)

lemma to_lower_known: "bt \<in> set known_types \<Longrightarrow> to_lower h bt = bt"
  by (auto simp: known_types_def type_names_def to_lower_def ascii_lower_def ch_def)

lemma type_words: "\<forall>s \<in> set type_names. words (''backend-badge backend-badge--'' @ s) = [''backend-badge'', ''backend-badge--'' @ s]"
  by (simp add: type_names_def)

definition observed_classes :: "string list" where
  "observed_classes = shared_classes @ [''group-card'', ''target-error'']"

lemma type_classes: "\<forall>s \<in> set type_names. ''backend-badge--'' @ s \<notin> set observed_classes"
  by (simp add: type_names_def shared_classes_def observed_classes_def)

lemma badge_class:
  assumes "bt \<in> set known_types" "c \<in> set observed_classes"
  shows "has_class (L c) [att ''class'' (L ''backend-badge backend-badge--'' @ bt)] \<longleftrightarrow> c = ''backend-badge''"
proof -
  obtain s where s: "bt = L s" "s \<in> set type_names" using assms(1) by (auto simp: known_types_def)
  have "c \<noteq> ''backend-badge--'' @ s" using type_classes s(2) assms(2) by blast
  then show ?thesis
    unfolding s(1) L_append [symmetric] has_class_literal bspec [OF type_words s(2)] by simp
qed

lemma tmpl_badge_known:
  assumes "bt \<in> set known_types"
  shows "\<exists>ty \<in> set known_types.
    tmpl_badge bt = el ''span'' [att ''class'' (L ''backend-badge backend-badge--'' @ ty)] [Text (badgeLabel bt bt)]"
proof -
  have "L ''thanos'' \<in> set known_types" "L ''victoriametrics'' \<in> set known_types" "L ''prometheus'' \<in> set known_types"
    "L ''unknown'' \<in> set known_types" "[] \<notin> set known_types"
    by (simp_all add: known_types_def type_names_def del: L.simps)
  then show ?thesis using assms by (auto simp: tmpl_badge_def badgeLabel_def simp del: L.simps)
qed

lemma badge_same:
  assumes "bt \<in> set known_types" "c \<in> set shared_classes"
  shows "class_texts c [tmpl_badge bt] = class_texts c [badge_tree h bt]"
proof -
  obtain ty where ty: "ty \<in> set known_types"
    "tmpl_badge bt = el ''span'' [att ''class'' (L ''backend-badge backend-badge--'' @ ty)] [Text (badgeLabel bt bt)]"
    using tmpl_badge_known [OF assms(1)] by blast
  have c: "c \<in> set observed_classes" using assms(2) by (simp add: observed_classes_def)
  have "bt \<noteq> []" using assms(1) by (auto simp: known_types_def type_names_def)
  then have "badge_tree h bt = el ''span'' [att ''class'' (L ''backend-badge backend-badge--'' @ bt)] [Text (badgeLabel bt bt)]"
    by (simp add: badge_tree_def or_else_def to_lower_known [OF assms(1)] Let_def del: L.simps)
  then show ?thesis
    using badge_class [OF assms(1) c] badge_class [OF ty(1) c] unfolding ty(2)
    by (simp add: class_texts_Elem class_texts_Text del: L.simps)
qed

lemma class_texts_Cons2: "class_texts c (x # y # f) = class_texts c [x] @ class_texts c (y # f)"
  by (rule class_texts_Cons)

text \<open>Classes that differ between the renderings, or hold no text of their own.\<close>

lemma unshared:
  "c \<in> set shared_classes \<Longrightarrow> c \<noteq> ''group-card'' \<and> c \<noteq> ''group-header'' \<and> c \<noteq> ''group-header__labels'' \<and>
     c \<noteq> ''group-header__summary'' \<and> c \<noteq> ''js-group-summary'' \<and> c \<noteq> ''targets-table'' \<and> c \<noteq> ''ts-relative'' \<and>
     c \<noteq> ''target-error''"
  by (simp add: shared_classes_def) (elim disjE; simp)

text \<open>What is asked of a target: a known type, and a time the browser reads.\<close>

definition readable :: "host \<Rightarrow> target \<Rightarrow> bool" where
  "readable h t \<longleftrightarrow> t_backendType t \<in> set known_types \<and> date_parse h (t_lastProbeAt t) \<noteq> None \<and> t_lastProbeAt t \<noteq> []"

lemma probe_unseen:
  assumes "readable h t" "c \<in> set shared_classes"
  shows "class_texts c [tmpl_probe time_text t] = []" "class_texts c [probe_tree h t] = []"
proof -
  have "relativeTime h (t_lastProbeAt t) \<noteq> None" using assms(1) relativeTime_eq [of "t_lastProbeAt t" h] by (auto simp: readable_def)
  then show "class_texts c [probe_tree h t] = []"
    using unshared [OF assms(2)] by (auto simp: probe_tree_def class_texts_simps simp del: L.simps)
  show "class_texts c [tmpl_probe time_text t] = []"
    using unshared [OF assms(2)] by (simp add: tmpl_probe_def struct_truth_def class_texts_simps del: L.simps)
qed

lemma error_unseen:
  assumes "c \<in> set shared_classes"
  shows "class_texts c (tmpl_error t) = []" "class_texts c [error_tree t] = []"
  using unshared [OF assms] by (simp_all add: tmpl_error_def error_tree_def class_texts_simps del: L.simps)

lemma url_same: "class_texts c [tmpl_url t] = class_texts c [url_tree t]"
  by (simp add: tmpl_url_def url_tree_def class_texts_simps del: L.simps)

lemma row_same:
  assumes "readable h t" "c \<in> set shared_classes"
  shows "class_texts c [tmpl_target time_text t] = class_texts c [target_tree h t]"
proof -
  have "class_texts c [tmpl_badge (t_backendType t)] = class_texts c [badge_tree h (t_backendType t)]"
    using assms by (intro badge_same) (simp_all add: readable_def)
  moreover have "tmpl_health t = health_tree t" using assms(1) by (intro health_same) (simp add: readable_def)
  ultimately show ?thesis
    using probe_unseen [OF assms] error_unseen [OF assms(2)]
    by (simp add: tmpl_target_def target_tree_def backend_trees_def url_same class_texts_simps class_texts_Cons2 del: L.simps)
qed

lemma targets_same:
  assumes "list_all (readable h) ts" "c \<in> set shared_classes"
  shows "class_texts c [tmpl_targets time_text ts] = class_texts c [targets_tree h ts]"
proof -
  have "class_texts c (map (tmpl_target time_text) ts) = class_texts c (map (target_tree h) ts)"
    using assms row_same by (intro class_texts_map) (auto simp: list_all_iff)
  then show ?thesis
    using unshared [OF assms(2)]
    by (simp add: tmpl_targets_def targets_tree_def class_texts_simps class_texts_Cons2 del: L.simps)
qed

text \<open>Names of ASCII characters sort alike as bytes and as UTF-16 units.\<close>

definition ascii :: "ustr \<Rightarrow> bool" where
  "ascii s \<longleftrightarrow> list_all (\<lambda>c. c < 128) s"

lemma go_str_ascii: "ascii s \<Longrightarrow> go_str s = map unat s"
proof (induction s rule: code_points.induct)
  case (2 c)
  then have "unat c < 128" by (simp add: ascii_def word_less_nat_alt)
  with 2 show ?case
    by (simp add: go_str_def utf8_def utf8_bytes_def high_surrogate_def low_surrogate_def ascii_def word_le_nat_alt)
next
  case (3 c d s)
  then have c: "unat c < 128" "ascii (d # s)" by (simp_all add: ascii_def word_less_nat_alt)
  then have "\<not> high_surrogate c" "\<not> low_surrogate c" by (simp_all add: high_surrogate_def low_surrogate_def word_le_nat_alt)
  with 3 c show ?case by (simp add: go_str_def utf8_def utf8_bytes_def)
qed (simp add: go_str_def utf8_def)

lemma map_unat_le: "map unat xs \<le> map unat ys \<longleftrightarrow> xs \<le> (ys :: ustr)"
proof (induction xs arbitrary: ys)
  case (Cons x xs)
  then show ?case by (cases ys) (auto simp: word_less_nat_alt word_unat_eq_iff)
qed simp

lemma sort_names: "list_all ascii ks \<Longrightarrow> sort_key go_str ks = sort ks"
proof -
  assume a: "list_all ascii ks"
  have "sorted (map go_str (sort ks))"
  proof -
    have "map go_str (sort ks) = map (map unat) (sort ks)" using a by (simp add: list_all_iff go_str_ascii)
    moreover have "sorted (map (map unat) (sort ks))"
      using sorted_sort [of ks] by (simp add: sorted_map map_unat_le)
    ultimately show ?thesis by (simp only:)
  qed
  moreover have "inj (map (unat :: cu \<Rightarrow> nat))" by (intro inj_mapI injI) (simp add: word_unat_eq_iff)
  then have "inj_on go_str (set ks)"
    using a by (auto simp: inj_on_def list_all_iff go_str_ascii)
  ultimately show ?thesis by (intro sort_key_inj_key_eq) simp_all
qed

lemma labels_same:
  assumes "list_all ascii (map fst ls)" "c \<in> set shared_classes"
  shows "class_texts c (tmpl_labels ls) =
    class_texts c [el ''span'' [att ''class'' (L ''group-header__labels'')] (chip_trees (Some ls))]"
  using unshared [OF assms(2)] sort_names [OF assms(1)]
  by (simp add: tmpl_labels_def chip_trees_def class_texts_simps del: L.simps)

text \<open>What is asked of a group: readable targets, and label names in ASCII.\<close>

definition readable_group :: "host \<Rightarrow> ginfo \<Rightarrow> bool" where
  "readable_group h g \<longleftrightarrow>
     list_all (readable h) (or_empty (g_targets g)) \<and> list_all ascii (map fst (or_empty (g_labels g)))"

text \<open>What the browser gets of a group.\<close>

definition sent :: "ginfo \<Rightarrow> group" where
  "sent g = \<lparr>g_name = g_name g, g_ordinal = g_ordinal g, g_labels = Some (or_empty (g_labels g)),
             g_targets = Some (or_empty (g_targets g))\<rparr>"

lemma group_same:
  assumes "readable_group h g" "c \<in> set shared_classes"
  shows "class_texts c [tmpl_group time_text g] = class_texts c [group_tree h (sent g)]"
proof -
  have "class_texts c (tmpl_labels (or_empty (g_labels g))) =
      class_texts c [el ''span'' [att ''class'' (L ''group-header__labels'')] (chip_trees (Some (or_empty (g_labels g))))]"
    "class_texts c [tmpl_targets time_text (or_empty (g_targets g))] = class_texts c [targets_tree h (or_empty (g_targets g))]"
    using assms by (simp_all add: labels_same targets_same readable_group_def del: L.simps)
  then show ?thesis
    using unshared [OF assms(2)]
    by (simp add: tmpl_group_def group_tree_def sent_def Let_def class_texts_simps class_texts_Cons2 del: L.simps)
qed

lemma sent_groups: "or_empty (i_groups (page_data (serveJSON v))) = map sent (fi_groups v)"
  by (simp add: page_data_def serveJSON_def sent_def group.defs or_empty_def)

text \<open>The same elements' attributes.\<close>

lemma class_attrs_Nil: "class_attrs c a [] = []"
  by (simp add: class_attrs_def)

lemma class_attrs_append: "class_attrs c a (f @ g) = class_attrs c a f @ class_attrs c a g"
  by (simp add: class_attrs_def)

lemma class_attrs_Cons: "class_attrs c a (x # y # f) = class_attrs c a [x] @ class_attrs c a (y # f)"
  by (simp add: class_attrs_def)

lemma class_attrs_Text: "class_attrs c a [Text s] = []"
  by (simp add: class_attrs_def)

lemma class_attrs_Elem:
  "class_attrs c a [Elem t as cs] = (if has_class (L c) as then [attr_get (L a) as] else []) @ class_attrs c a cs"
  by (simp add: class_attrs_def)

lemma class_attrs_Elem_Cons:
  "class_attrs c a (Elem t as cs # f) =
     (if has_class (L c) as then [attr_get (L a) as] else []) @ class_attrs c a cs @ class_attrs c a f"
  by (simp add: class_attrs_def)

lemma class_attrs_map: "class_attrs c a (map f xs) = concat (map (\<lambda>x. class_attrs c a [f x]) xs)"
  by (induction xs) (simp_all add: class_attrs_def)

lemmas class_attrs_simps =
  class_attrs_Nil class_attrs_append class_attrs_Cons class_attrs_Text class_attrs_Elem class_attrs_Elem_Cons class_attrs_map
  has_class_literal has_class_none

lemma badge_no_attrs:
  assumes "bt \<in> set known_types" "c \<in> set observed_classes" "c \<noteq> ''backend-badge''"
  shows "class_attrs c a [tmpl_badge bt] = []" "class_attrs c a [badge_tree h bt] = []"
proof -
  have "bt \<noteq> []" using assms(1) by (auto simp: known_types_def type_names_def)
  then have "badge_tree h bt = el ''span'' [att ''class'' (L ''backend-badge backend-badge--'' @ bt)] [Text (badgeLabel bt bt)]"
    by (simp add: badge_tree_def or_else_def to_lower_known [OF assms(1)] Let_def del: L.simps)
  then show "class_attrs c a [badge_tree h bt] = []"
    using badge_class [OF assms(1,2)] assms(3) by (simp add: class_attrs_Elem class_attrs_Text del: L.simps)
  show "class_attrs c a [tmpl_badge bt] = []"
    using tmpl_badge_known [OF assms(1)] badge_class [OF _ assms(2)] assms(3)
    by (auto simp: class_attrs_Elem class_attrs_Text simp del: L.simps)
qed

lemma chips_no_attrs:
  "c \<noteq> ''label-chip'' \<Longrightarrow> class_attrs c a (map (chip_tree ls) ks) = []"
  by (simp add: chip_tree_def class_attrs_simps del: L.simps)

lemma target_attrs:
  assumes "readable h t"
  shows "class_attrs ''target-url'' ''href'' [tmpl_target time_text t] = [Some (url_attr (t_url t))]"
    "class_attrs ''target-url'' ''href'' [target_tree h t] = [Some (t_url t)]"
    "class_attrs ''target-error'' ''title'' [tmpl_target time_text t] = class_attrs ''target-error'' ''title'' [target_tree h t]"
    "class_attrs ''group-card'' ''data-group'' [tmpl_target time_text t] = []"
    "class_attrs ''group-card'' ''data-group'' [target_tree h t] = []"
proof -
  have k: "t_backendType t \<in> set known_types" using assms by (simp add: readable_def)
  have c: "''target-url'' \<in> set observed_classes" "''target-error'' \<in> set observed_classes"
    "''group-card'' \<in> set observed_classes"
    by (simp_all add: observed_classes_def shared_classes_def)
  note badge = badge_no_attrs [OF k c(1)] badge_no_attrs [OF k c(2)] badge_no_attrs [OF k c(3)]
  have h: "tmpl_health t = health_tree t" using assms by (intro health_same) (simp add: readable_def)
  have hn: "class_attrs c a [health_tree t] = []" if "c \<in> {''target-url'', ''target-error'', ''group-card''}" for c a
    using that assms by (cases "t_healthy t")
      (auto simp: h [symmetric] tmpl_health_def struct_truth_def class_attrs_simps Let_def L_append [symmetric]
        simp del: L.simps L_append)
  note parts = tmpl_target_def target_tree_def backend_trees_def tmpl_url_def url_tree_def tmpl_probe_def probe_tree_def
    tmpl_error_def error_tree_def struct_truth_def
  show "class_attrs ''target-url'' ''href'' [tmpl_target time_text t] = [Some (url_attr (t_url t))]"
    by (simp add: parts h hn badge class_attrs_simps L_eq del: L.simps)
  show "class_attrs ''target-url'' ''href'' [target_tree h t] = [Some (t_url t)]"
    by (simp add: parts hn badge class_attrs_simps L_eq del: L.simps split: option.split)
  show "class_attrs ''target-error'' ''title'' [tmpl_target time_text t] = class_attrs ''target-error'' ''title'' [target_tree h t]"
    by (simp add: parts h hn badge class_attrs_simps L_eq del: L.simps split: option.split)
  show "class_attrs ''group-card'' ''data-group'' [tmpl_target time_text t] = []"
    by (simp add: parts h hn badge class_attrs_simps L_eq del: L.simps)
  show "class_attrs ''group-card'' ''data-group'' [target_tree h t] = []"
    by (simp add: parts hn badge class_attrs_simps L_eq del: L.simps split: option.split)
qed

lemma targets_attrs:
  assumes "list_all (readable h) ts"
  shows "class_attrs ''target-url'' ''href'' [tmpl_targets time_text ts] = map (\<lambda>t. Some (url_attr (t_url t))) ts"
    "class_attrs ''target-url'' ''href'' [targets_tree h ts] = map (\<lambda>t. Some (t_url t)) ts"
    "class_attrs ''target-error'' ''title'' [tmpl_targets time_text ts] =
       class_attrs ''target-error'' ''title'' [targets_tree h ts]"
    "class_attrs ''group-card'' ''data-group'' [tmpl_targets time_text ts] = []"
    "class_attrs ''group-card'' ''data-group'' [targets_tree h ts] = []"
proof -
  have t: "\<And>t. t \<in> set ts \<Longrightarrow> readable h t" using assms by (simp add: list_all_iff)
  have m: "map (\<lambda>t. class_attrs c a [f t]) ts = map g ts" if "\<And>t. t \<in> set ts \<Longrightarrow> class_attrs c a [f t] = g t"
    for c a f and g :: "target \<Rightarrow> ustr option list"
    using that by simp
  have z: "concat (map (\<lambda>t. [g t]) ts) = map g ts" "concat (map (\<lambda>t. []) ts) = []" for g :: "target \<Rightarrow> ustr option"
    by (induction ts) simp_all
  note rows = m [OF target_attrs(1) [OF t]] m [OF target_attrs(2) [OF t]] m [OF target_attrs(3) [OF t]]
    m [OF target_attrs(4) [OF t]] m [OF target_attrs(5) [OF t]]
  note parts = tmpl_targets_def targets_tree_def
  show "class_attrs ''target-url'' ''href'' [tmpl_targets time_text ts] = map (\<lambda>t. Some (url_attr (t_url t))) ts"
    by (simp add: parts class_attrs_simps rows z del: L.simps)
  show "class_attrs ''target-url'' ''href'' [targets_tree h ts] = map (\<lambda>t. Some (t_url t)) ts"
    by (simp add: parts class_attrs_simps rows z del: L.simps)
  show "class_attrs ''target-error'' ''title'' [tmpl_targets time_text ts] =
       class_attrs ''target-error'' ''title'' [targets_tree h ts]"
    by (simp add: parts class_attrs_simps rows del: L.simps)
  show "class_attrs ''group-card'' ''data-group'' [tmpl_targets time_text ts] = []"
    by (simp add: parts class_attrs_simps rows z del: L.simps)
  show "class_attrs ''group-card'' ''data-group'' [targets_tree h ts] = []"
    by (simp add: parts class_attrs_simps rows z del: L.simps)
qed

lemma labels_no_attrs:
  assumes "c \<in> {''target-url'', ''target-error'', ''group-card''}"
  shows "class_attrs c a (tmpl_labels ls) = []" "class_attrs c a (chip_trees (Some ls)) = []"
  using assms by (auto simp: tmpl_labels_def chip_trees_def chips_no_attrs class_attrs_Nil class_attrs_Elem
      has_class_literal simp del: L.simps)

lemma group_attrs:
  assumes "readable_group h g"
  shows "class_attrs ''target-url'' ''href'' [tmpl_group time_text g] =
       map (map_option url_attr) (class_attrs ''target-url'' ''href'' [group_tree h (sent g)])"
    "class_attrs ''target-error'' ''title'' [tmpl_group time_text g] =
       class_attrs ''target-error'' ''title'' [group_tree h (sent g)]"
    "class_attrs ''group-card'' ''data-group'' [tmpl_group time_text g] =
       class_attrs ''group-card'' ''data-group'' [group_tree h (sent g)]"
proof -
  have "list_all (readable h) (or_empty (g_targets g))" using assms by (simp add: readable_group_def)
  note ts = targets_attrs [OF this]
  note parts = tmpl_group_def group_tree_def sent_def Let_def
  show "class_attrs ''target-url'' ''href'' [tmpl_group time_text g] =
       map (map_option url_attr) (class_attrs ''target-url'' ''href'' [group_tree h (sent g)])"
    by (simp add: parts class_attrs_simps ts labels_no_attrs comp_def del: L.simps)
  show "class_attrs ''target-error'' ''title'' [tmpl_group time_text g] =
       class_attrs ''target-error'' ''title'' [group_tree h (sent g)]"
    by (simp add: parts class_attrs_simps ts labels_no_attrs del: L.simps)
  show "class_attrs ''group-card'' ''data-group'' [tmpl_group time_text g] =
       class_attrs ''group-card'' ''data-group'' [group_tree h (sent g)]"
    by (simp add: parts class_attrs_simps ts labels_no_attrs L_eq del: L.simps)
qed

text \<open>The branches for a target that was never probed are never taken.\<close>

lemma badge_no_texts:
  assumes "bt \<in> set known_types" "c \<in> set observed_classes" "c \<noteq> ''backend-badge''"
  shows "class_texts c [tmpl_badge bt] = []"
  using tmpl_badge_known [OF assms(1)] badge_class [OF _ assms(2)] assms(3)
  by (auto simp: class_texts_Elem class_texts_Text simp del: L.simps)

lemma row_never:
  assumes "readable h t" "c \<in> {''ts-never'', ''health-text--unknown''}"
  shows "class_texts c [tmpl_target time_text t] = []"
proof -
  have c: "c \<in> set shared_classes" "c \<in> set observed_classes" "c \<noteq> ''backend-badge''"
    using assms(2) by (auto simp: observed_classes_def shared_classes_def)
  have "class_texts c [tmpl_badge (t_backendType t)] = []"
    using assms(1) c(2,3) by (intro badge_no_texts) (simp_all add: readable_def)
  moreover have "class_texts c [tmpl_health t] = []"
    using assms(2) by (cases "t_healthy t")
      (auto simp: tmpl_health_def struct_truth_def class_texts_simps Let_def L_append [symmetric] simp del: L.simps L_append)
  ultimately show ?thesis
    using probe_unseen(1) [OF assms(1) c(1)] error_unseen(1) [OF c(1)] assms(2)
    by (auto simp: tmpl_target_def tmpl_url_def class_texts_simps class_texts_Cons2 simp del: L.simps)
qed

lemma class_texts_map_Nil: "(\<And>x. x \<in> set xs \<Longrightarrow> class_texts c [f x] = []) \<Longrightarrow> class_texts c (map f xs) = []"
  by (induction xs) (simp_all add: class_texts_def)

lemma group_never:
  assumes "readable_group h g" "c \<in> {''ts-never'', ''health-text--unknown''}"
  shows "class_texts c [tmpl_group time_text g] = []"
proof -
  have c: "c \<in> set shared_classes" and
    o: "c \<noteq> ''group-header__ordinal'' \<and> c \<noteq> ''group-header__name'' \<and> c \<noteq> ''label-chip'' \<and> c \<noteq> ''empty-state''"
    using assms(2) by (auto simp: shared_classes_def)
  have "class_texts c (map (tmpl_target time_text) (or_empty (g_targets g))) = []"
    using assms row_never by (intro class_texts_map_Nil) (auto simp: readable_group_def list_all_iff)
  then have "class_texts c [tmpl_targets time_text (or_empty (g_targets g))] = []"
    using unshared [OF c] o by (simp add: tmpl_targets_def class_texts_simps del: L.simps)
  moreover have "class_texts c (tmpl_labels ls) = []" for ls
  proof -
    have "class_texts c (map (chip_tree ls) ks) = []" for ks
      using o by (intro class_texts_map_Nil) (simp add: chip_tree_def class_texts_simps del: L.simps)
    then show ?thesis using unshared [OF c] by (simp add: tmpl_labels_def class_texts_simps del: L.simps)
  qed
  ultimately show ?thesis
    using unshared [OF c] o by (simp add: tmpl_group_def class_texts_simps class_texts_Cons2 Let_def del: L.simps)
qed

text \<open>
  C27: The page the server renders and the one app.js puts in its place from the JSON of the same snapshot
  show the same: in the same order the same group names, ordinals, label chips, health words, addresses,
  backend badges, versions and empty notices, the same groups and whole error texts, and links that
  differ only by the template's URL filter; neither has an element for a target never probed, since
  the template's test for it is always true. It is asked that backend types are the configurable ones,
  label names ASCII and probe times readable.
\<close>

theorem first_render_agrees:
  assumes "list_all (readable_group h) (fi_groups v)"
  shows "let f = snd (serveIndex time_text v); g = inventory_trees h (page_data (serveJSON v)) in
    (\<forall>c \<in> set shared_classes. class_texts c f = class_texts c g) \<and>
    class_attrs ''group-card'' ''data-group'' f = class_attrs ''group-card'' ''data-group'' g \<and>
    class_attrs ''target-error'' ''title'' f = class_attrs ''target-error'' ''title'' g \<and>
    class_attrs ''target-url'' ''href'' f = map (map_option url_attr) (class_attrs ''target-url'' ''href'' g) \<and>
    class_texts ''ts-never'' f = [] \<and> class_texts ''health-text--unknown'' f = []"
proof (cases "fi_groups v = []")
  case True
  then show ?thesis
    by (simp add: serveIndex_def tmpl_groups_def inventory_trees_def sent_groups Let_def class_attrs_simps class_texts_simps
        del: L.simps)
next
  case False
  let ?gs = "fi_groups v"
  have g: "\<And>g. g \<in> set ?gs \<Longrightarrow> readable_group h g" using assms by (simp add: list_all_iff)
  have f: "snd (serveIndex time_text v) = map (tmpl_group time_text) ?gs"
    "inventory_trees h (page_data (serveJSON v)) = map (\<lambda>g. group_tree h (sent g)) ?gs"
    using False by (simp_all add: serveIndex_def tmpl_groups_def inventory_trees_def sent_groups Let_def)
  have t: "\<forall>c \<in> set shared_classes. class_texts c (map (tmpl_group time_text) ?gs) =
      class_texts c (map (\<lambda>g. group_tree h (sent g)) ?gs)"
    using g group_same by (intro ballI class_texts_map) auto
  have n: "class_texts c (map (tmpl_group time_text) ?gs) = []" if "c \<in> {''ts-never'', ''health-text--unknown''}" for c
    by (rule class_texts_map_Nil) (rule group_never [OF g that])
  have a: "class_attrs c a (map (tmpl_group time_text) ?gs) = class_attrs c a (map (\<lambda>g. group_tree h (sent g)) ?gs)"
    if "(c, a) \<in> {(''group-card'', ''data-group''), (''target-error'', ''title'')}" for c a
    unfolding class_attrs_map using that g by (intro arg_cong [of _ _ concat] map_cong refl) (auto simp: group_attrs)
  have u: "class_attrs ''target-url'' ''href'' (map (tmpl_group time_text) ?gs) =
      map (map_option url_attr) (class_attrs ''target-url'' ''href'' (map (\<lambda>g. group_tree h (sent g)) ?gs))"
    unfolding class_attrs_map map_concat map_map using g
    by (intro arg_cong [of _ _ concat] map_cong refl) (auto simp: group_attrs)
  show ?thesis unfolding Let_def f by (intro conjI t u a n) simp_all
qed

definition sample_view :: full_inventory where
  "sample_view =
     \<lparr>fi_generatedAt = L ''2024-01-01T00:00:00Z'',
      fi_groups =
        [\<lparr>g_name = L ''eu'', g_ordinal = 0, g_labels = Some [(L ''zone'', L ''b''), (L ''env'', L ''a'')],
          g_targets = Some
            [\<lparr>t_url = L ''http://a:9090'', t_healthy = False, t_lastError = L ''refused'', t_lastProbeAt = go_zero_time,
              t_version = [], t_backendType = L ''prometheus''\<rparr>],
          gi_RemoteRead = False, gi_TimeRange = []\<rparr>]\<rparr>"

theorem first_render_agrees_witness:
  "class_texts ''label-chip'' (snd (serveIndex id sample_view)) =
     class_texts ''label-chip'' (inventory_trees (plain_host 0) (page_data (serveJSON sample_view))) \<and>
   class_texts ''health-text--unknown'' (snd (serveIndex id sample_view)) = []"
proof -
  have "list_all (readable_group (plain_host 0)) (fi_groups sample_view)"
  proof -
    have "date_parse (plain_host 0) go_zero_time \<noteq> None"
      by (simp add: date_parse_def go_zero_time_def parse_zero_time del: L.simps)
    moreover have "go_zero_time \<noteq> []" by (simp add: go_zero_time_def)
    moreover have "ascii (L ''zone'')" "ascii (L ''env'')" by (simp_all add: ascii_def ch_def)
    moreover have "L ''prometheus'' \<in> set known_types" by (simp add: known_types_def type_names_def del: L.simps)
    ultimately show ?thesis by (simp add: sample_view_def readable_group_def readable_def del: L.simps)
  qed
  note r = first_render_agrees [OF this, of id, unfolded Let_def]
  have "class_texts ''label-chip'' (snd (serveIndex id sample_view)) =
     class_texts ''label-chip'' (inventory_trees (plain_host 0) (page_data (serveJSON sample_view)))"
    by (rule bspec [OF conjunct1 [OF r]]) (simp add: shared_classes_def)
  then show ?thesis using r by (intro conjI) blast+
qed

end
