(* ===== verification/QueryStats.thy ===== *)
theory QueryStats
  imports StatsBlock Async "HOL-Library.Signed_Division" "HOL-Library.Multiset"
begin

text \<open>
  The recorder behind the statistics the query page shows (\<open>pkg/querystats/querystats.go\<close>).
  Requests to the server groups begin and finish in any order and from several goroutines;
  every operation runs under the recorder's lock, so a run is a sequence of them. A
  \<open>float64\<close> is a rational rounded after every operation, an \<open>int64\<close> sum wraps.
\<close>

section \<open>The recorder\<close>

record qgroup =
  qg_name :: ustr
  qg_ordinal :: int
  qg_labels :: "(ustr \<times> ustr) list option"

text \<open>A request as handed to a group; times in nanoseconds.\<close>

record qrequest =
  rq_ordinal :: int
  rq_op :: ustr
  rq_path :: ustr
  rq_query :: ustr
  rq_start :: int
  rq_end :: int
  rq_step :: int

record recorder =
  rc_groups :: "gstat list"
  rc_byOrdinal :: "int \<Rightarrow> nat option"
  rc_begun :: nat
  rc_requests :: "rstat option list"
  rc_truncated :: int

definition MaxRequests :: nat where "MaxRequests = 100"

definition wrap64 :: "int \<Rightarrow> int" where
  "wrap64 n = signed_take_bit 63 n"

definition unixSeconds :: "int \<Rightarrow> rat" where
  "unixSeconds ns = rnd64 (rnd64 (of_int ns) / 1000000000)"

text \<open>\<open>Duration.Seconds\<close>: the whole seconds and the rest, each converted and added.\<close>

definition dur_seconds :: "int \<Rightarrow> rat" where
  "dur_seconds d = rnd64 (rnd64 (of_int (d sdiv 1000000000)) + rnd64 (rnd64 (of_int (d smod 1000000000)) / 1000000000))"

definition blank_group :: "ustr \<Rightarrow> int \<Rightarrow> (ustr \<times> ustr) list \<Rightarrow> gstat" where
  "blank_group n o1 ls =
     \<lparr>s_name = n, s_ordinal = o1, s_labels = Some ls, s_requests = 0, s_errors = 0, s_series = 0, s_samples = 0,
      s_duration = 0\<rparr>"

definition index_groups :: "gstat list \<Rightarrow> int \<Rightarrow> nat option" where
  "index_groups gs = fold (\<lambda>(i, g) m. m(s_ordinal g \<mapsto> i)) (enumerate 0 gs) (\<lambda>_. None)"

definition newRecorder :: "qgroup list \<Rightarrow> recorder" where
  "newRecorder cfg =
     (let gs = sort_key s_ordinal (map (\<lambda>g. blank_group (qg_name g) (qg_ordinal g) (or_empty (qg_labels g))) cfg)
      in \<lparr>rc_groups = gs, rc_byOrdinal = index_groups gs, rc_begun = 0, rc_requests = [], rc_truncated = 0\<rparr>)"

text \<open>The index of a group, with a new row for an ordinal the snapshot does not have.\<close>

definition rec_group :: "int \<Rightarrow> recorder \<Rightarrow> nat \<times> recorder" where
  "rec_group o1 r =
     (case rc_byOrdinal r o1 of
        Some i \<Rightarrow> (i, r)
      | None \<Rightarrow> (length (rc_groups r),
          r\<lparr>rc_groups := rc_groups r @ [blank_group [] o1 []],
            rc_byOrdinal := (rc_byOrdinal r)(o1 \<mapsto> length (rc_groups r))\<rparr>))"

text \<open>What a finished request returned: its duration, its counts and its error.\<close>

record outcome =
  oc_took :: int
  oc_series :: int
  oc_samples :: int
  oc_error :: "ustr option"

definition count_in :: "outcome \<Rightarrow> gstat \<Rightarrow> gstat" where
  "count_in x g =
     g\<lparr>s_requests := s_requests g + 1, s_series := wrap64 (s_series g + oc_series x),
       s_samples := wrap64 (s_samples g + oc_samples x), s_duration := rnd64 (s_duration g + dur_seconds (oc_took x)),
       s_errors := s_errors g + (if oc_error x = None then 0 else 1)\<rparr>"

definition request_entry :: "ustr \<Rightarrow> qrequest \<Rightarrow> outcome \<Rightarrow> rstat" where
  "request_entry name rq x =
     \<lparr>q_group = name, q_op = rq_op rq, q_path = rq_path rq, q_query = rq_query rq, q_start = unixSeconds (rq_start rq),
      q_end = unixSeconds (rq_end rq), q_step = dur_seconds (rq_step rq), q_duration = dur_seconds (oc_took x),
      q_series = oc_series x, q_samples = oc_samples x,
      q_status = (if oc_error x = None then L ''success'' else L ''error''),
      q_error = (case oc_error x of None \<Rightarrow> [] | Some e \<Rightarrow> e)\<rparr>"

definition put_at :: "nat \<Rightarrow> 'a \<Rightarrow> 'a option list \<Rightarrow> 'a option list" where
  "put_at i v xs = (xs @ replicate (Suc i - length xs) None)[i := Some v]"

definition rec_finish :: "nat \<Rightarrow> qrequest \<Rightarrow> outcome \<Rightarrow> recorder \<Rightarrow> recorder" where
  "rec_finish seq rq x r =
     (let (i, r) = rec_group (rq_ordinal rq) r;
          r = r\<lparr>rc_groups := (rc_groups r)[i := count_in x (rc_groups r ! i)]\<rparr>
      in if MaxRequests \<le> seq then r\<lparr>rc_truncated := rc_truncated r + 1\<rparr>
         else r\<lparr>rc_requests := put_at seq (request_entry (s_name (rc_groups r ! i)) rq x) (rc_requests r)\<rparr>)"

text \<open>\<open>Stats\<close>, as the page's JSON: the identity of the decoded object is the page's own.\<close>

definition rec_stats :: "nat \<Rightarrow> recorder \<Rightarrow> backends" where
  "rec_stats ref r =
     \<lparr>bs_ref = ref, bs_groups = Some (sort_key s_ordinal (rc_groups r)),
      bs_requests = Some (List.map_filter id (rc_requests r)), bs_truncated = rc_truncated r\<rparr>"

section \<open>A query's run\<close>

text \<open>
  The entries \<open>Begin\<close> has handed out, each with its request and whether its \<open>once\<close> has
  run, and, as a ghost, the log of what has finished.
\<close>

record query_run =
  qr_rec :: recorder
  qr_entries :: "(qrequest \<times> bool) list"
  qr_log :: "(nat \<times> qrequest \<times> outcome) list"

datatype qevent = Begin qrequest | Finish nat outcome

fun query_step :: "qevent \<Rightarrow> query_run \<Rightarrow> query_run" where
  "query_step (Begin rq) s =
     s\<lparr>qr_rec := (qr_rec s)\<lparr>rc_begun := Suc (rc_begun (qr_rec s))\<rparr>, qr_entries := qr_entries s @ [(rq, False)]\<rparr>"
| "query_step (Finish i x) s =
     (if i < length (qr_entries s) \<and> \<not> snd (qr_entries s ! i)
      then (let rq = fst (qr_entries s ! i)
            in s\<lparr>qr_rec := rec_finish i rq x (qr_rec s), qr_entries := (qr_entries s)[i := (rq, True)],
                 qr_log := qr_log s @ [(i, rq, x)]\<rparr>)
      else s)"

definition query_init :: "qgroup list \<Rightarrow> query_run" where
  "query_init cfg = \<lparr>qr_rec = newRecorder cfg, qr_entries = [], qr_log = []\<rparr>"

section \<open>What the recorder holds\<close>

text \<open>The log of one group, and what its totals are to be.\<close>

definition log_of :: "int \<Rightarrow> (nat \<times> qrequest \<times> outcome) list \<Rightarrow> outcome list" where
  "log_of o1 l = map (\<lambda>(i, rq, x). x) (filter (\<lambda>(i, rq, x). rq_ordinal rq = o1) l)"

definition totals_ok :: "outcome list \<Rightarrow> gstat \<Rightarrow> bool" where
  "totals_ok xs g \<longleftrightarrow>
     s_requests g = int (length xs) \<and> s_errors g = int (length (filter (\<lambda>x. oc_error x \<noteq> None) xs)) \<and>
     s_series g = wrap64 (\<Sum>x\<leftarrow>xs. oc_series x) \<and> s_samples g = wrap64 (\<Sum>x\<leftarrow>xs. oc_samples x)"

definition group_name :: "qgroup list \<Rightarrow> int \<Rightarrow> ustr" where
  "group_name cfg o1 = (case find (\<lambda>g. qg_ordinal g = o1) cfg of None \<Rightarrow> [] | Some g \<Rightarrow> qg_name g)"

definition entry_at :: "qgroup list \<Rightarrow> (nat \<times> qrequest \<times> outcome) list \<Rightarrow> nat \<Rightarrow> rstat option" where
  "entry_at cfg l k =
     map_option (\<lambda>(rq, x). request_entry (group_name cfg (rq_ordinal rq)) rq x) (map_of l k)"

definition look :: "'a option list \<Rightarrow> nat \<Rightarrow> 'a option" where
  "look xs k = (if k < length xs then xs ! k else None)"

text \<open>The part of the invariant about the groups, kept by finding or adding a row.\<close>

definition groups_inv :: "qgroup list \<Rightarrow> recorder \<Rightarrow> (nat \<times> qrequest \<times> outcome) list \<Rightarrow> int set \<Rightarrow> bool" where
  "groups_inv cfg r l extra \<longleftrightarrow>
     distinct (map s_ordinal (rc_groups r)) \<and>
     (\<forall>o1 i. rc_byOrdinal r o1 = Some i \<longleftrightarrow> i < length (rc_groups r) \<and> s_ordinal (rc_groups r ! i) = o1) \<and>
     (\<forall>g \<in> set (rc_groups r). totals_ok (log_of (s_ordinal g) l) g \<and> s_name g = group_name cfg (s_ordinal g)) \<and>
     qg_ordinal ` set cfg \<union> (\<lambda>(i, rq, x). rq_ordinal rq) ` set l \<union> extra = s_ordinal ` set (rc_groups r)"

definition rec_inv :: "qgroup list \<Rightarrow> query_run \<Rightarrow> bool" where
  "rec_inv cfg s \<longleftrightarrow>
     groups_inv cfg (qr_rec s) (qr_log s) {} \<and>
     rc_begun (qr_rec s) = length (qr_entries s) \<and> distinct (map fst (qr_log s)) \<and>
     (\<forall>i < length (qr_entries s). snd (qr_entries s ! i) \<longleftrightarrow> i \<in> fst ` set (qr_log s)) \<and>
     fst ` set (qr_log s) \<subseteq> {..<length (qr_entries s)} \<and> length (rc_requests (qr_rec s)) \<le> MaxRequests \<and>
     (\<forall>k < MaxRequests. look (rc_requests (qr_rec s)) k = entry_at cfg (qr_log s) k) \<and>
     rc_truncated (qr_rec s) = int (length (filter (\<lambda>e. MaxRequests \<le> fst e) (qr_log s)))"

lemma wrap64_add: "wrap64 (wrap64 a + b) = wrap64 (a + b)"
  using signed_take_bit_add [of 63 "signed_take_bit 63 a" b] signed_take_bit_add [of 63 a b] by (simp add: wrap64_def)

lemma index_groups_iff:
  "distinct (map s_ordinal gs) \<Longrightarrow> index_groups gs o1 = Some i \<longleftrightarrow> i < length gs \<and> s_ordinal (gs ! i) = o1"
proof (induction gs rule: rev_induct)
  case Nil
  then show ?case by (simp add: index_groups_def)
next
  case (snoc g gs)
  have e: "index_groups (gs @ [g]) = (index_groups gs)(s_ordinal g \<mapsto> length gs)"
    by (simp add: index_groups_def enumerate_append_eq)
  have new: "s_ordinal (gs ! j) \<noteq> s_ordinal g" if "j < length gs" for j
    using snoc(2) that by (auto simp: image_iff dest!: nth_mem)
  with snoc show ?case by (auto simp: e nth_append less_Suc_eq)
qed

lemma totals_count: "totals_ok xs g \<Longrightarrow> totals_ok (xs @ [x]) (count_in x g)"
  by (simp add: totals_ok_def count_in_def wrap64_add)

lemma totals_blank: "totals_ok [] (blank_group n o1 ls)"
  by (simp add: totals_ok_def blank_group_def wrap64_def)

lemma blank_simps [simp]: "s_ordinal (blank_group n o1 ls) = o1" "s_name (blank_group n o1 ls) = n"
  by (simp_all add: blank_group_def)

lemma count_in_frame [simp]: "s_ordinal (count_in x g) = s_ordinal g" "s_name (count_in x g) = s_name g"
  by (simp_all add: count_in_def)

lemma log_of_snoc: "log_of o1 (l @ [(i, rq, x)]) = (if rq_ordinal rq = o1 then log_of o1 l @ [x] else log_of o1 l)"
  by (simp add: log_of_def)

lemma log_of_none: "o1 \<notin> (\<lambda>(i, rq, x). rq_ordinal rq) ` set l \<Longrightarrow> log_of o1 l = []"
  by (force simp: log_of_def filter_empty_conv)

text \<open>The list of requests has a place for each, whatever its length.\<close>

interpretation places: task_slots put_at look "\<lambda>_ _. True"
  by unfold_locales (auto simp: look_def put_at_def nth_append nth_list_update)

lemma length_put: "length (put_at i v xs) = max (length xs) (Suc i)"
  by (simp add: put_at_def)

lemma entry_at_snoc:
  "i \<notin> fst ` set l \<Longrightarrow> entry_at cfg (l @ [(i, rq, x)]) k =
     (if k = i then Some (request_entry (group_name cfg (rq_ordinal rq)) rq x) else entry_at cfg l k)"
proof -
  assume i: "i \<notin> fst ` set l"
  then have "map_of l i = None" by (simp add: map_of_eq_None_iff)
  then show ?thesis by (simp add: entry_at_def map_add_def split: option.split)
qed

lemma group_name_sorted:
  "distinct (map qg_ordinal cfg) \<Longrightarrow> g \<in> set cfg \<Longrightarrow> group_name cfg (qg_ordinal g) = qg_name g"
  by (induction cfg) (auto simp: group_name_def image_iff)

lemma group_name_other: "o1 \<notin> qg_ordinal ` set cfg \<Longrightarrow> group_name cfg o1 = []"
  by (auto simp: group_name_def find_None_iff image_iff split: option.split dest!: find_Some_iff [THEN iffD1])

lemma rec_inv_init:
  assumes "distinct (map qg_ordinal cfg)"
  shows "rec_inv cfg (query_init cfg)"
proof -
  define gs where "gs = sort_key s_ordinal (map (\<lambda>g. blank_group (qg_name g) (qg_ordinal g) (or_empty (qg_labels g))) cfg)"
  have gs: "set gs = (\<lambda>g. blank_group (qg_name g) (qg_ordinal g) (or_empty (qg_labels g))) ` set cfg"
    by (simp add: gs_def)
  have "mset (map s_ordinal gs) = mset (map qg_ordinal cfg)"
    by (simp add: gs_def multiset.map_comp o_def)
  then have d: "distinct (map s_ordinal gs)" using assms mset_eq_imp_distinct_iff by blast
  have "\<forall>g \<in> set gs. totals_ok (log_of (s_ordinal g) []) g \<and> s_name g = group_name cfg (s_ordinal g)"
    using group_name_sorted [OF assms] by (auto simp: gs totals_blank log_of_def)
  moreover have "qg_ordinal ` set cfg = s_ordinal ` set gs" by (force simp: gs)
  ultimately show ?thesis using d index_groups_iff [OF d]
    by (simp add: rec_inv_def groups_inv_def query_init_def newRecorder_def Let_def gs_def [symmetric] look_def entry_at_def)
qed

lemma rec_inv_begin: "rec_inv cfg s \<Longrightarrow> rec_inv cfg (query_step (Begin rq) s)"
  by (auto simp: rec_inv_def groups_inv_def nth_append less_Suc_eq)

lemma groups_invD:
  assumes "groups_inv cfg r l extra"
  shows "distinct (map s_ordinal (rc_groups r))"
    and "rc_byOrdinal r p = Some k \<longleftrightarrow> k < length (rc_groups r) \<and> s_ordinal (rc_groups r ! k) = p"
    and "\<forall>g \<in> set (rc_groups r). totals_ok (log_of (s_ordinal g) l) g \<and> s_name g = group_name cfg (s_ordinal g)"
    and "qg_ordinal ` set cfg \<union> (\<lambda>(i, rq, x). rq_ordinal rq) ` set l \<union> extra = s_ordinal ` set (rc_groups r)"
  using assms by (simp_all add: groups_inv_def)

lemma rec_group_inv:
  assumes "groups_inv cfg r l {}" "rec_group o1 r = (i, r')"
  shows "groups_inv cfg r' l {o1} \<and> i < length (rc_groups r') \<and> s_ordinal (rc_groups r' ! i) = o1 \<and>
    rc_requests r' = rc_requests r \<and> rc_truncated r' = rc_truncated r \<and> rc_begun r' = rc_begun r"
proof (cases "rc_byOrdinal r o1")
  case None
  then have e: "i = length (rc_groups r)"
    "r' = r\<lparr>rc_groups := rc_groups r @ [blank_group [] o1 []], rc_byOrdinal := (rc_byOrdinal r)(o1 \<mapsto> length (rc_groups r))\<rparr>"
    using assms(2) by (auto simp: rec_group_def)
  note g = groups_invD [OF assms(1)]
  have new: "o1 \<notin> s_ordinal ` set (rc_groups r)"
    using None g(2) [of o1] by (fastforce simp: in_set_conv_nth)
  then have log: "o1 \<notin> (\<lambda>(i, rq, x). rq_ordinal rq) ` set l" and conf: "o1 \<notin> qg_ordinal ` set cfg"
    by (simp_all flip: g(4))
  have facts: "log_of o1 l = []" "group_name cfg o1 = []"
    using log_of_none [OF log] group_name_other [OF conf] by simp_all
  have "distinct (map s_ordinal (rc_groups r'))" using g(1) new by (simp add: e)
  moreover have "rc_byOrdinal r' p = Some k \<longleftrightarrow> k < length (rc_groups r') \<and> s_ordinal (rc_groups r' ! k) = p" for p k
  proof (cases "k < length (rc_groups r)")
    case True
    then have "s_ordinal (rc_groups r ! k) \<noteq> o1" using new by (metis image_eqI nth_mem)
    with True show ?thesis by (auto simp: e g(2) nth_append)
  next
    case False
    then show ?thesis by (auto simp: e g(2) nth_append less_Suc_eq)
  qed
  moreover have "\<forall>g \<in> set (rc_groups r'). totals_ok (log_of (s_ordinal g) l) g \<and> s_name g = group_name cfg (s_ordinal g)"
    using g(3) facts by (simp add: e(2) totals_blank)
  moreover have "qg_ordinal ` set cfg \<union> (\<lambda>(i, rq, x). rq_ordinal rq) ` set l \<union> {o1} = s_ordinal ` set (rc_groups r')"
    using g(4) by (simp add: e(2))
  ultimately have "groups_inv cfg r' l {o1}" by (simp only: groups_inv_def) blast
  then show ?thesis by (simp add: e)
next
  case (Some j)
  with assms(2) have e: "i = j" "r' = r" by (simp_all add: rec_group_def)
  with Some assms(1) have j: "j < length (rc_groups r)" "s_ordinal (rc_groups r ! j) = o1" by (auto simp: groups_inv_def)
  then have "o1 \<in> s_ordinal ` set (rc_groups r)" by (metis image_eqI nth_mem)
  with e j assms(1) show ?thesis by (auto simp: groups_inv_def)
qed

lemma count_group_inv:
  assumes "groups_inv cfg r l {o1}" "i < length (rc_groups r)" "s_ordinal (rc_groups r ! i) = o1" "rq_ordinal rq = o1"
  shows "groups_inv cfg (r\<lparr>rc_groups := (rc_groups r)[i := count_in x (rc_groups r ! i)]\<rparr>) (l @ [(k, rq, x)]) {}"
proof -
  let ?gs = "rc_groups r" and ?gs' = "(rc_groups r)[i := count_in x (rc_groups r ! i)]"
  have ords: "map s_ordinal ?gs' = map s_ordinal ?gs" using assms(2) by (simp add: map_update list_update_same_conv)
  then have o: "s_ordinal (?gs' ! j) = s_ordinal (?gs ! j)" if "j < length ?gs" for j
    using that by (metis length_list_update nth_map)
  have inj: "j = i" if "j < length ?gs" "s_ordinal (?gs ! j) = o1" for j
    using assms(1-3) that by (auto simp: groups_inv_def distinct_conv_nth)
  have "totals_ok (log_of (s_ordinal (?gs' ! j)) (l @ [(k, rq, x)])) (?gs' ! j) \<and> s_name (?gs' ! j) = group_name cfg (s_ordinal (?gs' ! j))"
    if j: "j < length ?gs" for j
  proof -
    have t: "totals_ok (log_of (s_ordinal (?gs ! j)) l) (?gs ! j) \<and> s_name (?gs ! j) = group_name cfg (s_ordinal (?gs ! j))"
      using assms(1) j by (auto simp: groups_inv_def)
    show ?thesis
    proof (cases "j = i")
      case True
      with t assms(2-4) show ?thesis by (simp add: log_of_snoc totals_count)
    next
      case False
      with t j inj assms(4) show ?thesis by (auto simp: log_of_snoc)
    qed
  qed
  then have "\<forall>g \<in> set ?gs'. totals_ok (log_of (s_ordinal g) (l @ [(k, rq, x)])) g \<and> s_name g = group_name cfg (s_ordinal g)"
    by (metis in_set_conv_nth length_list_update)
  moreover have "s_ordinal ` set ?gs' = s_ordinal ` set ?gs" using ords by (metis set_map)
  ultimately show ?thesis using assms o ords unfolding groups_inv_def by auto
qed

lemma rec_inv_finish:
  assumes "rec_inv cfg s" "i < length (qr_entries s)" "\<not> snd (qr_entries s ! i)"
  shows "rec_inv cfg (query_step (Finish i x) s)"
proof -
  define rq where "rq = fst (qr_entries s ! i)"
  define l' where "l' = qr_log s @ [(i, rq, x)]"
  obtain j r1 where r1: "rec_group (rq_ordinal rq) (qr_rec s) = (j, r1)" by (cases "rec_group (rq_ordinal rq) (qr_rec s)")
  have "groups_inv cfg (qr_rec s) (qr_log s) {}" using assms(1) by (simp add: rec_inv_def)
  from rec_group_inv [OF this r1] have g1: "groups_inv cfg r1 (qr_log s) {rq_ordinal rq}"
    and j: "j < length (rc_groups r1)" "s_ordinal (rc_groups r1 ! j) = rq_ordinal rq"
    and f1: "rc_requests r1 = rc_requests (qr_rec s)" "rc_truncated r1 = rc_truncated (qr_rec s)" "rc_begun r1 = rc_begun (qr_rec s)"
    by auto
  define r2 where "r2 = r1\<lparr>rc_groups := (rc_groups r1)[j := count_in x (rc_groups r1 ! j)]\<rparr>"
  have g2: "groups_inv cfg r2 l' {}" unfolding r2_def l'_def by (rule count_group_inv [OF g1 j refl])
  have name: "s_name (rc_groups r2 ! j) = group_name cfg (rq_ordinal rq)"
    using g1 j by (simp add: r2_def groups_inv_def)
  define r3 where "r3 = rec_finish i rq x (qr_rec s)"
  have r3: "r3 = (if MaxRequests \<le> i then r2\<lparr>rc_truncated := rc_truncated r2 + 1\<rparr>
      else r2\<lparr>rc_requests := put_at i (request_entry (s_name (rc_groups r2 ! j)) rq x) (rc_requests r2)\<rparr>)"
    by (simp add: r3_def rec_finish_def r1 r2_def Let_def)
  have g3: "groups_inv cfg r3 l' {}" using g2 by (simp add: r3 groups_inv_def)
  have i: "i \<notin> fst ` set (qr_log s)" using assms by (simp add: rec_inv_def)
  have s': "query_step (Finish i x) s = s\<lparr>qr_rec := r3, qr_entries := (qr_entries s)[i := (rq, True)], qr_log := l'\<rparr>"
    using assms(2,3) by (simp add: Let_def rq_def l'_def r3_def)
  have reqs: "length (rc_requests r3) \<le> MaxRequests" "\<forall>k < MaxRequests. look (rc_requests r3) k = entry_at cfg l' k"
    using assms(1) i name by (auto simp: rec_inv_def r3 r2_def f1 places.get_put length_put l'_def entry_at_snoc)
  have trunc: "rc_truncated r3 = int (length (filter (\<lambda>e. MaxRequests \<le> fst e) l'))" "rc_begun r3 = length (qr_entries s)"
    using assms(1) by (auto simp: rec_inv_def r3 r2_def f1 l'_def)
  show ?thesis unfolding rec_inv_def s'
    using assms(1,2) i g3 reqs trunc by (auto simp: rec_inv_def l'_def nth_list_update)
qed

lemma rec_inv_step: "rec_inv cfg s \<Longrightarrow> rec_inv cfg (query_step e s)"
proof (cases e)
  case (Begin rq)
  then show "rec_inv cfg s \<Longrightarrow> ?thesis" using rec_inv_begin by simp
next
  case (Finish i x)
  assume s: "rec_inv cfg s"
  show ?thesis
  proof (cases "i < length (qr_entries s) \<and> \<not> snd (qr_entries s ! i)")
    case True
    with rec_inv_finish [OF s] Finish show ?thesis by blast
  qed (use s Finish in auto)
qed

lemma rec_inv_run: "rec_inv cfg s \<Longrightarrow> rec_inv cfg (fold query_step es s)"
  by (induction es arbitrary: s) (simp_all add: rec_inv_step)

section \<open>The answer the page reads\<close>

text \<open>The requests begun in a sequence of events, in the order of their \<open>Begin\<close>.\<close>

fun begins :: "qevent list \<Rightarrow> qrequest list" where
  "begins [] = []"
| "begins (Begin rq # es) = rq # begins es"
| "begins (Finish i x # es) = begins es"

lemma entries_step: "map fst (qr_entries (query_step e s)) = map fst (qr_entries s) @ begins [e]"
  by (cases e) (simp_all add: Let_def map_update list_update_same_conv)

lemma begins_Cons: "begins (e # es) = begins [e] @ begins es"
  by (cases e) simp_all

lemma entries_run: "map fst (qr_entries (fold query_step es s)) = map fst (qr_entries s) @ begins es"
proof (induction es arbitrary: s)
  case (Cons e es)
  then show ?case by (simp add: entries_step begins_Cons [of e es])
qed simp

text \<open>What is logged was begun under that number, and the event that logged it happened.\<close>

lemma log_run:
  assumes "\<forall>(i, rq, x) \<in> set (qr_log s). i < length (qr_entries s) \<and> fst (qr_entries s ! i) = rq"
  shows "\<forall>(i, rq, x) \<in> set (qr_log (fold query_step es s)).
    i < length (qr_entries (fold query_step es s)) \<and> fst (qr_entries (fold query_step es s) ! i) = rq"
  using assms
proof (induction es arbitrary: s)
  case (Cons e es)
  have "\<forall>(i, rq, x) \<in> set (qr_log (query_step e s)).
      i < length (qr_entries (query_step e s)) \<and> fst (qr_entries (query_step e s) ! i) = rq"
    using Cons.prems by (cases e) (auto simp: nth_append Let_def nth_list_update)
  from Cons.IH [OF this] show ?case by simp
qed simp

lemma map_filter_cong: "(\<And>k. k \<in> set ks \<Longrightarrow> f k = h k) \<Longrightarrow> List.map_filter f ks = List.map_filter h ks"
  by (induction ks) (simp_all split: option.split)

lemma map_filter_app: "List.map_filter f (ks @ js) = List.map_filter f ks @ List.map_filter f js"
  by (induction ks) (simp_all split: option.split)

lemma look_snoc: "look (ys @ [y]) k = (if k = length ys then y else look ys k)"
  by (simp add: look_def nth_append less_Suc_eq)

lemma map_filter_look:
  "length xs \<le> n \<Longrightarrow> List.map_filter id xs = List.map_filter (look xs) [0..<n]"
proof (induction n arbitrary: xs)
  case (Suc n)
  show ?case
  proof (cases "length xs \<le> n")
    case True
    moreover from this have "look xs n = None" by (simp add: look_def)
    ultimately show ?thesis using Suc.IH [OF True] by (simp add: map_filter_app)
  next
    case False
    then obtain ys y where xs: "xs = ys @ [y]" and n: "length ys = n"
      using Suc.prems by (cases xs rule: rev_cases) auto
    have "List.map_filter (look xs) [0..<n] = List.map_filter (look ys) [0..<n]"
      by (intro map_filter_cong) (simp add: xs look_snoc n)
    moreover have "look xs n = y" by (simp add: xs look_snoc n)
    ultimately have "List.map_filter (look xs) [0..<Suc n] = List.map_filter id ys @ List.map_filter id [y]"
      using Suc.IH [of ys] n by (simp add: map_filter_app id_def split: option.split)
    then show ?thesis by (simp only: xs map_filter_app)
  qed
qed simp

lemma log_begun:
  assumes "(i, rq, x) \<in> set (qr_log (fold query_step es (query_init cfg)))"
  shows "i < length (begins es) \<and> begins es ! i = rq"
proof -
  let ?s = "fold query_step es (query_init cfg)"
  have "i < length (qr_entries ?s) \<and> fst (qr_entries ?s ! i) = rq"
    using log_run [of "query_init cfg" es] assms by (auto simp: query_init_def)
  moreover have "map fst (qr_entries ?s) = begins es" by (simp add: entries_run query_init_def)
  ultimately show ?thesis by (metis length_map nth_map)
qed

lemma stats_groups:
  assumes "rec_inv cfg s" "bs_groups (rec_stats ref (qr_rec s)) = Some gs"
  shows "sorted (map s_ordinal gs)" "distinct (map s_ordinal gs)"
    "s_ordinal ` set gs = qg_ordinal ` set cfg \<union> (\<lambda>(i, rq, x). rq_ordinal rq) ` set (qr_log s)"
    "\<forall>g \<in> set gs. totals_ok (log_of (s_ordinal g) (qr_log s)) g \<and> s_name g = group_name cfg (s_ordinal g)"
proof -
  have inv: "groups_inv cfg (qr_rec s) (qr_log s) {}" using assms(1) by (simp add: rec_inv_def)
  have gs: "gs = sort_key s_ordinal (rc_groups (qr_rec s))" using assms(2) by (simp add: rec_stats_def)
  have "mset (map s_ordinal gs) = mset (map s_ordinal (rc_groups (qr_rec s)))" by (simp add: gs)
  then show "distinct (map s_ordinal gs)" using groups_invD(1) [OF inv] mset_eq_imp_distinct_iff by blast
  show "sorted (map s_ordinal gs)" by (simp add: gs)
  show "s_ordinal ` set gs = qg_ordinal ` set cfg \<union> (\<lambda>(i, rq, x). rq_ordinal rq) ` set (qr_log s)"
    using groups_invD(4) [OF inv] by (simp add: gs)
  show "\<forall>g \<in> set gs. totals_ok (log_of (s_ordinal g) (qr_log s)) g \<and> s_name g = group_name cfg (s_ordinal g)"
    using groups_invD(3) [OF inv] by (simp add: gs)
qed

text \<open>The numbers add up: each finished request is in one group's count, and listed or truncated.\<close>

lemma count_by_key:
  "distinct ks \<Longrightarrow> f ` set l \<subseteq> set ks \<Longrightarrow> (\<Sum>k\<leftarrow>ks. length (filter (\<lambda>e. f e = k) l)) = length l"
proof (induction l)
  case (Cons e l)
  have one: "(\<Sum>k\<leftarrow>ks. if f e = k then 1 else 0) = (1::nat)"
    using Cons.prems by (simp add: sum_list_distinct_conv_sum_set)
  have "(\<Sum>k\<leftarrow>ks. length (filter (\<lambda>e. f e = k) (e # l))) =
      (\<Sum>k\<leftarrow>ks. (if f e = k then 1 else 0) + length (filter (\<lambda>e. f e = k) l))"
    by (intro arg_cong [of _ _ sum_list] map_cong) auto
  with one Cons show ?case by (simp add: sum_list_addf)
qed simp

lemma log_of_length: "length (log_of o1 l) = length (filter (\<lambda>e. (\<lambda>(i, rq, x). rq_ordinal rq) e = o1) l)"
  by (simp add: log_of_def case_prod_unfold)

lemma requests_sum:
  assumes "distinct (map s_ordinal gs)" "(\<lambda>(i, rq, x). rq_ordinal rq) ` set l \<subseteq> s_ordinal ` set gs"
    and "\<forall>g \<in> set gs. totals_ok (log_of (s_ordinal g) l) g"
  shows "(\<Sum>g\<leftarrow>gs. s_requests g) = int (length l)"
proof -
  have "(\<Sum>g\<leftarrow>gs. s_requests g) = (\<Sum>g\<leftarrow>gs. int (length (log_of (s_ordinal g) l)))"
    using assms(3) by (intro arg_cong [of _ _ sum_list] map_cong) (simp_all add: totals_ok_def)
  also have "\<dots> = int (\<Sum>k\<leftarrow>map s_ordinal gs. length (log_of k l))"
    by (induction gs) simp_all
  also have "\<dots> = int (length l)"
    unfolding log_of_length using count_by_key [OF assms(1)] assms(2) by simp
  finally show ?thesis .
qed

lemma length_map_filter: "length (List.map_filter f ks) = length (filter (\<lambda>k. f k \<noteq> None) ks)"
  by (induction ks) (simp_all split: option.split)

lemma listed_count:
  assumes "distinct (map fst l)"
  shows "length (List.map_filter (entry_at cfg l) [0..<n]) + length (filter (\<lambda>e. n \<le> fst e) l) = length l"
proof -
  have "length (List.map_filter (entry_at cfg l) [0..<n]) = length (filter (\<lambda>k. k \<in> fst ` set l) [0..<n])"
    by (simp add: length_map_filter entry_at_def map_of_eq_None_iff)
  also have "\<dots> = card (fst ` set (filter (\<lambda>e. \<not> n \<le> fst e) l))"
    by (subst distinct_card [symmetric]) (auto intro!: arg_cong [of _ _ card])
  also have "\<dots> = length (map fst (filter (\<lambda>e. \<not> n \<le> fst e) l))"
    using distinct_card [OF distinct_map_filter [OF assms], of "\<lambda>e. \<not> n \<le> fst e"] by simp
  finally show ?thesis using sum_length_filter_compl [of "\<lambda>e. n \<le> fst e" l] by simp
qed

text \<open>
  C32: Whatever the order in which the requests of a query begin and finish, finishes that are
  repeated or out of order included, the statistics the recorder answers account for each
  finished request once: the groups are listed by ordinal, one row for each configured group
  and each one called, whose counts of requests and errors and whose 64-bit sums of series and
  samples are those of its finished requests; the first hundred requests begun are listed in the
  order they began, each with its own outcome under its group's name; every later one is counted
  as truncated. So the groups' counts add up to the requests listed and the number truncated.
\<close>
theorem recorder_accounts:
  assumes "distinct (map qg_ordinal cfg)" "s = fold query_step es (query_init cfg)"
    "bs_groups (rec_stats ref (qr_rec s)) = Some gs"
  shows "sorted (map s_ordinal gs) \<and> distinct (map s_ordinal gs) \<and>
    s_ordinal ` set gs = qg_ordinal ` set cfg \<union> (\<lambda>(i, rq, x). rq_ordinal rq) ` set (qr_log s) \<and>
    (\<forall>g \<in> set gs. totals_ok (log_of (s_ordinal g) (qr_log s)) g \<and> s_name g = group_name cfg (s_ordinal g)) \<and>
    bs_requests (rec_stats ref (qr_rec s)) = Some (List.map_filter (entry_at cfg (qr_log s)) [0..<MaxRequests]) \<and>
    bs_truncated (rec_stats ref (qr_rec s)) = int (length (filter (\<lambda>e. MaxRequests \<le> fst e) (qr_log s))) \<and>
    (\<Sum>g\<leftarrow>gs. s_requests g) =
      int (length (or_empty (bs_requests (rec_stats ref (qr_rec s))))) + bs_truncated (rec_stats ref (qr_rec s)) \<and>
    distinct (map fst (qr_log s)) \<and>
    (\<forall>(i, rq, x) \<in> set (qr_log s). i < length (begins es) \<and> begins es ! i = rq)"
proof (intro conjI)
  have inv: "rec_inv cfg s" unfolding assms(2) by (rule rec_inv_run [OF rec_inv_init [OF assms(1)]])
  note gs = stats_groups [OF inv assms(3)]
  show "sorted (map s_ordinal gs)" "distinct (map s_ordinal gs)"
    "s_ordinal ` set gs = qg_ordinal ` set cfg \<union> (\<lambda>(i, rq, x). rq_ordinal rq) ` set (qr_log s)"
    "\<forall>g \<in> set gs. totals_ok (log_of (s_ordinal g) (qr_log s)) g \<and> s_name g = group_name cfg (s_ordinal g)"
    using gs by simp_all
  have "length (rc_requests (qr_rec s)) \<le> MaxRequests" using inv by (simp add: rec_inv_def)
  then have "List.map_filter id (rc_requests (qr_rec s)) = List.map_filter (look (rc_requests (qr_rec s))) [0..<MaxRequests]"
    by (rule map_filter_look)
  also have "\<dots> = List.map_filter (entry_at cfg (qr_log s)) [0..<MaxRequests]"
    using inv by (intro map_filter_cong) (simp add: rec_inv_def)
  finally show listed: "bs_requests (rec_stats ref (qr_rec s)) = Some (List.map_filter (entry_at cfg (qr_log s)) [0..<MaxRequests])"
    by (simp add: rec_stats_def)
  show truncated: "bs_truncated (rec_stats ref (qr_rec s)) = int (length (filter (\<lambda>e. MaxRequests \<le> fst e) (qr_log s)))"
    and once: "distinct (map fst (qr_log s))"
    using inv by (simp_all add: rec_inv_def rec_stats_def)
  have "(\<Sum>g\<leftarrow>gs. s_requests g) = int (length (qr_log s))"
    using requests_sum [of gs "qr_log s"] gs by auto
  with listed_count [OF once, of cfg MaxRequests]
  show "(\<Sum>g\<leftarrow>gs. s_requests g) =
      int (length (or_empty (bs_requests (rec_stats ref (qr_rec s))))) + bs_truncated (rec_stats ref (qr_rec s))"
    unfolding listed truncated by simp
  show "\<forall>(i, rq, x) \<in> set (qr_log s). i < length (begins es) \<and> begins es ! i = rq"
    using log_begun unfolding assms(2) by blast
qed

text \<open>Two configured groups, and a second \<open>Finish\<close> of the same request.\<close>

theorem recorder_accounts_witness:
  "\<exists>gs. (let cfg = [\<lparr>qg_name = L ''b'', qg_ordinal = 2, qg_labels = None\<rparr>, \<lparr>qg_name = L ''a'', qg_ordinal = 1, qg_labels = None\<rparr>];
      rq = \<lparr>rq_ordinal = 2, rq_op = L ''query'', rq_path = L ''raw'', rq_query = L ''up'', rq_start = 0, rq_end = 0, rq_step = 0\<rparr>;
      x = \<lparr>oc_took = 0, oc_series = 3, oc_samples = 4, oc_error = None\<rparr>;
      s = fold query_step [Begin rq, Finish 0 x, Finish 0 x] (query_init cfg)
    in bs_groups (rec_stats 7 (qr_rec s)) = Some gs \<and> sorted (map s_ordinal gs) \<and> qr_log s = [(0, rq, x)])"
proof -
  let ?cfg = "[\<lparr>qg_name = L ''b'', qg_ordinal = 2, qg_labels = None\<rparr>, \<lparr>qg_name = L ''a'', qg_ordinal = 1, qg_labels = None\<rparr>]"
  let ?rq = "\<lparr>rq_ordinal = 2, rq_op = L ''query'', rq_path = L ''raw'', rq_query = L ''up'', rq_start = 0, rq_end = 0, rq_step = 0\<rparr>"
  let ?x = "\<lparr>oc_took = 0, oc_series = 3, oc_samples = 4, oc_error = None\<rparr>"
  let ?s = "fold query_step [Begin ?rq, Finish 0 ?x, Finish 0 ?x] (query_init ?cfg)"
  obtain gs where gs: "bs_groups (rec_stats 7 (qr_rec ?s)) = Some gs" by (simp add: rec_stats_def)
  have log: "qr_log ?s = [(0, ?rq, ?x)]" by (simp add: query_init_def Let_def del: L.simps)
  have "sorted (map s_ordinal gs)"
    using recorder_accounts [OF _ refl gs] by simp
  with gs log show ?thesis by (auto simp only: Let_def)
qed

end
