(* ===== verification/UiRoutes.thy ===== *)
theory UiRoutes
  imports Server
begin

text \<open>
  The routing of the backends handler (\<open>ServeHTTP\<close>, \<open>initMux\<close>, \<open>redirectToBackends\<close> and \<open>serveStatic\<close> of
  \<open>pkg/proxeusui/handler.go\<close>), behind the fallback of \<open>Server\<close>: which of its resources a GET of a path
  gets. \<open>http.ServeMux\<close> is modelled for what the handler registers, patterns without wildcards or
  hosts, and for paths that need no escaping: the path is cleaned, the longest pattern that
  matches wins, and a path that was not clean, or whose own pattern ends in a slash, is redirected.
\<close>

section \<open>Clean paths\<close>

definition cleanPath :: "ustr \<Rightarrow> ustr" where
  "cleanPath p =
     (let p = (if has_prefix [slash] p then p else slash # p); np = path_clean p
      in if last p = slash \<and> np \<noteq> [slash] then np @ [slash] else np)"

section \<open>The multiplexer\<close>

datatype 'h mux_answer = Handled 'h | MovedTo ustr | NoPattern

definition matches :: "ustr \<Rightarrow> ustr \<Rightarrow> bool" where
  "matches path p \<longleftrightarrow> p = path \<or> last p = slash \<and> has_prefix p path"

definition longest :: "(ustr \<times> 'h) list \<Rightarrow> (ustr \<times> 'h) option" where
  "longest ps =
     fold (\<lambda>(p, h) best. case best of None \<Rightarrow> Some (p, h)
                         | Some (q, k) \<Rightarrow> if length q < length p then Some (p, h) else Some (q, k)) ps None"

definition mux_match :: "(ustr \<times> 'h) list \<Rightarrow> ustr \<Rightarrow> (ustr \<times> 'h) option" where
  "mux_match ps path = longest (filter (matches path \<circ> fst) ps)"

definition exact :: "(ustr \<times> 'h) list \<Rightarrow> ustr \<Rightarrow> bool" where
  "exact ps path = (case mux_match ps path of None \<Rightarrow> False | Some (p, h) \<Rightarrow> p = path)"

definition mux_serve :: "(ustr \<times> 'h) list \<Rightarrow> ustr \<Rightarrow> 'h mux_answer" where
  "mux_serve ps path =
     (let c = cleanPath path
      in if \<not> exact ps c \<and> last c \<noteq> slash \<and> exact ps (c @ [slash]) then MovedTo (c @ [slash])
         else if c \<noteq> path then MovedTo c
         else (case mux_match ps c of None \<Rightarrow> NoPattern | Some (p, h) \<Rightarrow> Handled h))"

section \<open>The handler\<close>

datatype ui_handler = ServeJSON | ServeCardinality | ServeStatic | ServeIndex | RedirectToBackends

definition initMux :: "(ustr \<times> ui_handler) list" where
  "initMux =
     [(L ''/proxeus/api/backends.json'', ServeJSON),
      (L ''/proxeus/api/cardinality.json'', ServeCardinality),
      (L ''/proxeus/static/'', ServeStatic),
      (L ''/proxeus/backends'', ServeIndex),
      (L ''/proxeus/backends/'', ServeIndex),
      (L ''/proxeus'', RedirectToBackends),
      (L ''/proxeus/'', RedirectToBackends)]"

definition ui_ServeHTTP :: "ustr \<Rightarrow> ustr \<Rightarrow> ui_handler mux_answer" where
  "ui_ServeHTTP routePrefix urlPath = mux_serve initMux (trim_prefix (trim_right_slash routePrefix) urlPath)"

text \<open>
  The path from its first \<open>/static/\<close> on, which names the file of the embedded
  directory. A path of none of its files is the file server's to answer.
\<close>

fun from_static :: "ustr \<Rightarrow> ustr option" where
  "from_static s =
     (if has_prefix (L ''/static/'') s then Some s else (case s of [] \<Rightarrow> None | c # s' \<Rightarrow> from_static s'))"

definition StaticFiles :: "ustr list" where
  "StaticFiles = map L [''/static/app.js'', ''/static/proxeus-icon.svg'', ''/static/style.css'']"

datatype resource =
  InventoryPage | InventoryData | CardinalityData | StaticFile ustr | OtherFile | Moved ustr | Elsewhere

definition serveStatic :: "ustr \<Rightarrow> resource" where
  "serveStatic urlPath =
     (case from_static urlPath of None \<Rightarrow> OtherFile | Some f \<Rightarrow> if f \<in> set StaticFiles then StaticFile f else OtherFile)"

definition redirectToBackends :: "ustr \<Rightarrow> resource" where
  "redirectToBackends routePrefix = Moved (path_join routePrefix ''/proxeus/backends'')"

definition handle :: "ustr \<Rightarrow> ustr \<Rightarrow> ui_handler \<Rightarrow> resource" where
  "handle routePrefix urlPath k =
     (case k of ServeJSON \<Rightarrow> InventoryData | ServeCardinality \<Rightarrow> CardinalityData
      | ServeStatic \<Rightarrow> serveStatic urlPath | ServeIndex \<Rightarrow> InventoryPage
      | RedirectToBackends \<Rightarrow> redirectToBackends routePrefix)"

text \<open>What a GET of a path gets, the fallback included; what other parts answer is \<open>Elsewhere\<close>.\<close>

definition resource_at :: "ustr \<Rightarrow> ustr \<Rightarrow> resource" where
  "resource_at routePrefix urlPath =
     (case notFound routePrefix urlPath of
        ProxeusUI \<Rightarrow>
          (case ui_ServeHTTP routePrefix urlPath of
             Handled k \<Rightarrow> handle routePrefix (trim_prefix (trim_right_slash routePrefix) urlPath) k
           | MovedTo to \<Rightarrow> Moved to
           | NoPattern \<Rightarrow> Elsewhere)
      | RedirectTo to \<Rightarrow> Moved to
      | _ \<Rightarrow> Elsewhere)"

section \<open>Cleaning\<close>

lemma cleanPath_rooted:
  assumes "list_all plain ws" "ws \<noteq> []"
  shows "cleanPath (rooted ws) = rooted ws" "cleanPath (rooted ws @ [slash]) = rooted ws @ [slash]"
proof -
  have n: "rooted ws \<noteq> [slash]" using rooted_ends [OF assms] by auto
  have c: "path_clean (rooted ws) = rooted ws" "path_clean (rooted ws @ [slash]) = rooted ws"
    unfolding path_clean_def segments_rooted [OF assms] segments_dir [OF assms(1)] clean_segments_rooted [OF assms(1)]
      clean_segments_dir [OF assms(1)]
    using assms(2) by (auto split: list.split)
  show "cleanPath (rooted ws) = rooted ws" "cleanPath (rooted ws @ [slash]) = rooted ws @ [slash]"
    using n c rooted_prefix [OF assms(2), of "[]"] rooted_prefix [OF assms(2)] rooted_ends [OF assms]
    by (simp_all add: cleanPath_def Let_def)
qed

lemma cleanPath_cases:
  obtains "cleanPath p = [slash]"
  | ws where "list_all plain ws" "ws \<noteq> []" "cleanPath p = rooted ws \<or> cleanPath p = rooted ws @ [slash]"
proof -
  define q where "q = (if has_prefix [slash] p then p else slash # p)"
  define ws where "ws = clean_segments (segments q)"
  have w: "list_all plain ws" by (simp add: ws_def clean_segments_plain)
  show thesis
  proof (cases "ws = []")
    case True
    then have c: "path_clean q = [slash]" by (simp add: path_clean_def ws_def [symmetric])
    have "cleanPath p = [slash]" unfolding cleanPath_def Let_def q_def [symmetric] by (simp add: c)
    then show thesis by (rule that(1))
  next
    case False
    then have c: "path_clean q = rooted ws" by (cases ws) (simp_all add: path_clean_def ws_def [symmetric])
    have "cleanPath p = rooted ws \<or> cleanPath p = rooted ws @ [slash]"
      unfolding cleanPath_def Let_def q_def [symmetric] by (simp add: c)
    with w False show thesis by (rule that(2))
  qed
qed

lemma cleanPath_slash: "cleanPath [slash] = [slash]"
  by (simp add: cleanPath_def path_clean_def clean_segments_def clean_step_def)

text \<open>Cleaning a path once is enough, so the redirect to it is the last.\<close>

lemma cleanPath_idem: "cleanPath (cleanPath p) = cleanPath p"
  by (rule cleanPath_cases [of p]) (auto simp: cleanPath_slash cleanPath_rooted)

section \<open>The longest pattern\<close>

text \<open>What a clean path below \<open>/proxeus/\<close> gets from the handler's patterns.\<close>

definition page_pattern :: "ustr \<Rightarrow> ustr \<times> ui_handler" where
  "page_pattern q =
     (if q = L ''/proxeus/api/backends.json'' then (q, ServeJSON)
      else if q = L ''/proxeus/api/cardinality.json'' then (q, ServeCardinality)
      else if has_prefix (L ''/proxeus/static/'') q then (L ''/proxeus/static/'', ServeStatic)
      else if q = L ''/proxeus/backends'' then (q, ServeIndex)
      else if has_prefix (L ''/proxeus/backends/'') q then (L ''/proxeus/backends/'', ServeIndex)
      else (L ''/proxeus/'', RedirectToBackends))"

lemma last_L: "s \<noteq> [] \<Longrightarrow> last (L s) = ch (last s)"
  by (induction s) auto

lemma has_prefix_L: "has_prefix (L s) (L t) \<longleftrightarrow> take (length s) t = s"
proof (induction s arbitrary: t)
  case (Cons c s)
  then show ?case by (cases t) auto
qed simp

lemma prefix_conflict: "has_prefix (L s) q \<Longrightarrow> has_prefix (L t) q \<Longrightarrow> take (length t) s = take (length s) t"
proof (induction s arbitrary: q t)
  case (Cons c s)
  then show ?case by (cases q; cases t) auto
qed simp

lemma longest_simps:
  "longest [] = None" "longest [x] = Some x"
  "longest (x # y # xs) = longest ((if length (fst x) < length (fst y) then y else x) # xs)"
  by (simp_all add: longest_def split: prod.splits)

lemma matches_L: "s \<noteq> [] \<Longrightarrow> matches q (L s) \<longleftrightarrow> L s = q \<or> last s = CHR ''/'' \<and> has_prefix (L s) q"
  by (simp add: matches_def last_L)

lemma mux_match_page:
  assumes "has_prefix (L ''/proxeus/'') q"
  shows "mux_match initMux q = Some (page_pattern q)"
proof -
  have p: "q \<noteq> L ''/proxeus''" using assms by (auto simp: has_prefix_L simp del: L.simps)
  have both: "\<not> (has_prefix (L ''/proxeus/static/'') q \<and> has_prefix (L ''/proxeus/backends/'') q)"
    using prefix_conflict [of "''/proxeus/static/''" q "''/proxeus/backends/''"] by auto
  consider "q = L ''/proxeus/api/backends.json''" | "q = L ''/proxeus/api/cardinality.json''" | "q = L ''/proxeus/backends''"
    | "q = L ''/proxeus/static/''" | "q = L ''/proxeus/backends/''" | "q = L ''/proxeus/''"
    | "q \<notin> set (map fst initMux)"
    using p by (auto simp: initMux_def simp del: L.simps)
  then show ?thesis
  proof cases
    case 7
    then show ?thesis
      using assms both unfolding mux_match_def initMux_def page_pattern_def
      by (cases "has_prefix (L ''/proxeus/static/'') q"; cases "has_prefix (L ''/proxeus/backends/'') q")
        (simp_all add: matches_L longest_simps eq_commute [of _ q] del: L.simps)
  qed (simp_all add: mux_match_def initMux_def page_pattern_def matches_L longest_simps has_prefix_L del: L.simps)
qed

lemma exact_page: "has_prefix (L ''/proxeus/'') q \<Longrightarrow> exact initMux q \<longleftrightarrow> fst (page_pattern q) = q"
  by (simp add: exact_def mux_match_page split: prod.split)

lemma has_prefix_snoc: "has_prefix p s \<Longrightarrow> has_prefix p (s @ t)"
  by (auto simp: has_prefix_iff)


lemma L_dir: "q @ [slash] = L (s @ ''/'') \<longleftrightarrow> q = L s"
  by (simp add: L_append)

lemma exact_dir:
  assumes "has_prefix (L ''/proxeus/'') q" "last q \<noteq> slash"
  shows "exact initMux (q @ [slash]) \<longleftrightarrow> q \<in> {L ''/proxeus/static'', L ''/proxeus/backends''}"
proof -
  have n: "q @ [slash] \<noteq> L s" if "s \<noteq> []" "last s \<noteq> CHR ''/''" for s
    using that last_L [of s] by (metis ch_eq last_snoc)
  have d: "q @ [slash] = L ''/proxeus/static/'' \<longleftrightarrow> q = L ''/proxeus/static''"
    "q @ [slash] = L ''/proxeus/backends/'' \<longleftrightarrow> q = L ''/proxeus/backends''"
    "q @ [slash] = L ''/proxeus/'' \<longleftrightarrow> q = L ''/proxeus''"
    using L_dir [of q "''/proxeus/static''"] L_dir [of q "''/proxeus/backends''"] L_dir [of q "''/proxeus''"] by simp_all
  have p: "q \<noteq> L ''/proxeus''" using assms(1) by (auto simp: has_prefix_L simp del: L.simps)
  have both: "\<not> (has_prefix (L ''/proxeus/static/'') (q @ [slash]) \<and> has_prefix (L ''/proxeus/backends/'') (q @ [slash]))"
    using prefix_conflict [of "''/proxeus/static/''" "q @ [slash]" "''/proxeus/backends/''"] by auto
  have h: "has_prefix (L ''/proxeus/static/'') (q @ [slash])" if "q @ [slash] = L ''/proxeus/static/''"
    unfolding that by (simp add: has_prefix_L)
  have b: "has_prefix (L ''/proxeus/backends/'') (q @ [slash])" if "q @ [slash] = L ''/proxeus/backends/''"
    unfolding that by (simp add: has_prefix_L)
  show ?thesis
    unfolding exact_page [OF has_prefix_snoc [OF assms(1)]] page_pattern_def
    using d p both h b by (auto simp: n eq_commute [of _ "q @ [slash]"] simp del: L.simps)
qed

text \<open>What the handler does with a clean path below \<open>/proxeus/\<close>.\<close>

lemma mux_serve_page:
  assumes "has_prefix (L ''/proxeus/'') q" "cleanPath q = q"
  shows "mux_serve initMux q =
    (if q = L ''/proxeus/static'' then MovedTo (L ''/proxeus/static/'') else Handled (snd (page_pattern q)))"
proof -
  have n: "\<not> exact initMux q" if "q = L ''/proxeus/static''"
    unfolding exact_page [OF assms(1)] using that by (simp add: page_pattern_def has_prefix_L del: L.simps)
  have b: "exact initMux q" if "q = L ''/proxeus/backends''"
    unfolding exact_page [OF assms(1)] using that by (simp add: page_pattern_def has_prefix_L del: L.simps)
  have l: "last (L ''/proxeus/static'') \<noteq> slash" by (simp add: last_L del: L.simps)
  have e: "L ''/proxeus/static/'' = L ''/proxeus/static'' @ [slash]" by simp
  show ?thesis
  proof (cases "\<not> exact initMux q \<and> last q \<noteq> slash \<and> exact initMux (q @ [slash])")
    case True
    then have "q = L ''/proxeus/static''" using exact_dir [OF assms(1)] b by auto
    then show ?thesis using True e unfolding mux_serve_def Let_def assms(2) by (simp del: L.simps)
  next
    case False
    then have "q \<noteq> L ''/proxeus/static''" using exact_dir [OF assms(1)] n l by auto
    then show ?thesis
      using False unfolding mux_serve_def Let_def assms(2) mux_match_page [OF assms(1)]
      by (simp del: L.simps split: prod.split)
  qed
qed

lemma fallback_page:
  assumes "clean_prefix rp" "has_prefix (L ''/proxeus/'') q"
  shows "notFound rp (trim_right_slash rp @ q) = ProxeusUI"
proof -
  have n: "q \<noteq> L s" if "take (length ''/proxeus/'') s \<noteq> ''/proxeus/''" for s
    using that assms(2) has_prefix_L [of "''/proxeus/''" s] by auto
  have u: "\<not> has_prefix (L s) q" if "take (length s) ''/proxeus/'' \<noteq> take (length ''/proxeus/'') s" for s
    using that assms(2) prefix_conflict [of "''/proxeus/''" q s] by auto
  have "has_prefix (L ''/proxeus'') q" using assms(2) by (auto simp: has_prefix_iff)
  then show ?thesis
    unfolding notFound_below [OF assms(1)] uiRedirects_def reactRouteSet_def by (simp add: n u del: L.simps)
qed

text \<open>The same, from the path the browser asks for.\<close>

lemma resource_page:
  assumes "clean_prefix rp" "has_prefix (L ''/proxeus/'') q" "cleanPath q = q"
  shows "resource_at rp (trim_right_slash rp @ q) =
    (if q = L ''/proxeus/static'' then Moved (L ''/proxeus/static/'') else handle rp q (snd (page_pattern q)))"
  by (simp add: resource_at_def fallback_page [OF assms(1,2)] ui_ServeHTTP_def mux_serve_page [OF assms(2,3)] del: L.simps)

lemma from_static_page: "has_prefix (L ''/static/'') t \<Longrightarrow> from_static (L ''/proxeus'' @ t) = Some t"
  by (cases t) (simp_all del: from_static.simps add: from_static.simps [of "_ # _"])

lemma handle_static:
  assumes "has_prefix (L ''/proxeus/static/'') q"
  shows "handle rp q ServeStatic = StaticFile f \<longleftrightarrow> q = L ''/proxeus'' @ f \<and> f \<in> set StaticFiles"
proof -
  obtain t where t: "q = L ''/proxeus'' @ t" "has_prefix (L ''/static/'') t"
    using assms by (auto simp: has_prefix_iff)
  then show ?thesis by (auto simp: handle_def serveStatic_def from_static_page)
qed

lemma clean_literals:
  "cleanPath (L ''/proxeus/backends'') = L ''/proxeus/backends''"
  "cleanPath (L ''/proxeus/api/backends.json'') = L ''/proxeus/api/backends.json''"
  "cleanPath (L ''/proxeus/api/cardinality.json'') = L ''/proxeus/api/cardinality.json''"
  "cleanPath (L ''/proxeus/static/style.css'') = L ''/proxeus/static/style.css''"
  "cleanPath (L ''/proxeus/static/app.js'') = L ''/proxeus/static/app.js''"
  "cleanPath (L ''/proxeus//backends'') = L ''/proxeus/backends''"
  by (simp_all add: cleanPath_def path_clean_def clean_segments_def clean_step_def rooted_def)

lemma static_dir_pattern:
  assumes "has_prefix (L ''/proxeus/static/'') q"
  shows "snd (page_pattern q) = ServeStatic" "q \<noteq> L ''/proxeus/static''"
proof -
  have n: "q \<noteq> L s" if "take (length ''/proxeus/static/'') s \<noteq> ''/proxeus/static/''" for s
    using that assms has_prefix_L [of "''/proxeus/static/''" s] by auto
  show "snd (page_pattern q) = ServeStatic" "q \<noteq> L ''/proxeus/static''"
    using assms by (simp_all add: page_pattern_def n del: L.simps)
qed

lemma static_only:
  "snd (page_pattern q) = ServeStatic \<Longrightarrow> has_prefix (L ''/proxeus/static/'') q"
  by (simp add: page_pattern_def del: L.simps split: if_splits)

lemma handle_eq:
  "handle rp q k = InventoryPage \<longleftrightarrow> k = ServeIndex" "handle rp q k = InventoryData \<longleftrightarrow> k = ServeJSON"
  "handle rp q k = CardinalityData \<longleftrightarrow> k = ServeCardinality"
  "handle rp q k = StaticFile f \<Longrightarrow> k = ServeStatic"
  by (cases k; simp add: handle_def serveStatic_def redirectToBackends_def split: option.splits if_splits)+

lemma pattern_kind:
  "snd (page_pattern q) = ServeJSON \<longleftrightarrow> q = L ''/proxeus/api/backends.json''"
  "snd (page_pattern q) = ServeCardinality \<longleftrightarrow> q = L ''/proxeus/api/cardinality.json''"
  "snd (page_pattern q) = ServeIndex \<longleftrightarrow> q = L ''/proxeus/backends'' \<or> has_prefix (L ''/proxeus/backends/'') q"
proof -
  have "\<not> (has_prefix (L ''/proxeus/static/'') q \<and> has_prefix (L ''/proxeus/backends/'') q)"
    using prefix_conflict [of "''/proxeus/static/''" q "''/proxeus/backends/''"] by auto
  moreover have "\<not> has_prefix (L ''/proxeus/static/'') (L s)" "\<not> has_prefix (L ''/proxeus/backends/'') (L s)"
    if "s \<in> {''/proxeus/api/backends.json'', ''/proxeus/api/cardinality.json'', ''/proxeus/backends''}" for s
    using that by (auto simp: has_prefix_L)
  ultimately show
    "snd (page_pattern q) = ServeJSON \<longleftrightarrow> q = L ''/proxeus/api/backends.json''"
    "snd (page_pattern q) = ServeCardinality \<longleftrightarrow> q = L ''/proxeus/api/cardinality.json''"
    "snd (page_pattern q) = ServeIndex \<longleftrightarrow> q = L ''/proxeus/backends'' \<or> has_prefix (L ''/proxeus/backends/'') q"
    by (auto simp: page_pattern_def simp del: L.simps)
qed

lemma file_at:
  "(if q = L ''/proxeus/static'' then Moved (L ''/proxeus/static/'') else handle rp q (snd (page_pattern q))) = StaticFile f \<longleftrightarrow>
     q = L ''/proxeus'' @ f \<and> f \<in> set StaticFiles"
proof (cases "has_prefix (L ''/proxeus/static/'') q")
  case True
  then show ?thesis by (simp add: static_dir_pattern [OF True] handle_static del: L.simps)
next
  case False
  moreover have "has_prefix (L ''/proxeus/static/'') (L ''/proxeus'' @ f)" if "f \<in> set StaticFiles"
    using that by (auto simp: StaticFiles_def)
  ultimately show ?thesis using static_only [of q] handle_eq(4) [of rp q _ f] by (auto simp del: L.simps)
qed

section \<open>Properties\<close>

text \<open>The addresses the inventory page's own document loads.\<close>

definition index_links :: "ustr list" where
  "index_links = [L ''/proxeus/static/style.css'', L ''/proxeus/static/app.js'']"

text \<open>
  C28: Every clean path below \<open>/proxeus/\<close> is answered as the handler's documentation says, under every clean route
  prefix: the two data paths and no other get their data, the page's path and those below
  it the page, the path of an embedded file that file, and every other path but those of the
  static directory is redirected to the page, whose path is served.
\<close>

theorem ui_paths_answered:
  assumes "clean_prefix rp" "has_prefix (L ''/proxeus/'') q" "cleanPath q = q"
  shows "let P = trim_right_slash rp; r = resource_at rp (P @ q) in
    (r = InventoryData \<longleftrightarrow> q = L ''/proxeus/api/backends.json'') \<and>
    (r = CardinalityData \<longleftrightarrow> q = L ''/proxeus/api/cardinality.json'') \<and>
    (r = InventoryPage \<longleftrightarrow> q = L ''/proxeus/backends'' \<or> has_prefix (L ''/proxeus/backends/'') q) \<and>
    (\<forall>f. r = StaticFile f \<longleftrightarrow> q = L ''/proxeus'' @ f \<and> f \<in> set StaticFiles) \<and>
    (r \<in> {InventoryData, CardinalityData, InventoryPage, Moved (P @ L ''/proxeus/backends'')} \<or>
     q = L ''/proxeus/static'' \<or> has_prefix (L ''/proxeus/static/'') q) \<and>
    resource_at rp (P @ L ''/proxeus/backends'') = InventoryPage"
proof -
  define P where "P = trim_right_slash rp"
  define r where "r = resource_at rp (P @ q)"
  note at = resource_page [OF assms(1), folded P_def]
  have join: "path_join rp ''/proxeus/backends'' = P @ L ''/proxeus/backends''"
    unfolding P_def by (rule path_join_clean [OF assms(1) absolute_literals(6)])
  have r: "r = (if q = L ''/proxeus/static'' then Moved (L ''/proxeus/static/'') else handle rp q (snd (page_pattern q)))"
    using at [OF assms(2,3)] by (simp add: r_def del: L.simps)
  have dir: "\<not> has_prefix (L ''/proxeus/backends/'') (L ''/proxeus/static'')" by (simp add: has_prefix_L)
  have "r = InventoryData \<longleftrightarrow> q = L ''/proxeus/api/backends.json''"
    "r = CardinalityData \<longleftrightarrow> q = L ''/proxeus/api/cardinality.json''"
    "r = InventoryPage \<longleftrightarrow> q = L ''/proxeus/backends'' \<or> has_prefix (L ''/proxeus/backends/'') q"
    unfolding r using pattern_kind [of q] dir by (auto simp: handle_eq simp del: L.simps)
  moreover have "r = StaticFile f \<longleftrightarrow> q = L ''/proxeus'' @ f \<and> f \<in> set StaticFiles" for f
    unfolding r by (rule file_at)
  moreover have "r \<in> {InventoryData, CardinalityData, InventoryPage, Moved (P @ L ''/proxeus/backends'')} \<or>
     q = L ''/proxeus/static'' \<or> has_prefix (L ''/proxeus/static/'') q"
    unfolding r using static_only [of q]
    by (cases "snd (page_pattern q)") (auto simp: handle_def redirectToBackends_def join simp del: L.simps)
  moreover have "resource_at rp (P @ L ''/proxeus/backends'') = InventoryPage"
    using at [OF _ clean_literals(1)] by (simp add: has_prefix_L page_pattern_def handle_def del: L.simps)
  ultimately show ?thesis unfolding Let_def P_def [symmetric] r_def [symmetric] by blast
qed

theorem ui_paths_answered_witness:
  "resource_at (L ''/foo/'') (L ''/foo/proxeus/static/app.js'') = StaticFile (L ''/static/app.js'')"
proof -
  have "trim_right_slash (L ''/foo/'') = L ''/foo''" by (simp add: trim_right_slash_def)
  moreover have "L ''/foo'' @ L ''/proxeus/static/app.js'' = L ''/foo/proxeus/static/app.js''" by simp
  moreover have "L ''/static/app.js'' \<in> set StaticFiles" by (simp add: StaticFiles_def)
  moreover have "L ''/proxeus/static/app.js'' = L ''/proxeus'' @ L ''/static/app.js''" by simp
  moreover have "has_prefix (L ''/proxeus/'') (L ''/proxeus/static/app.js'')" by (simp add: has_prefix_L)
  moreover have "clean_prefix (L ''/foo/'')" by code_simp
  ultimately show ?thesis
    using ui_paths_answered [OF _ _ clean_literals(5), of "L ''/foo/''"] unfolding Let_def by (metis (no_types))
qed

text \<open>Under a prefix, a path that starts at the root again is not the handler's.\<close>

lemma missed:
  assumes "clean_prefix rp" "trim_right_slash rp \<noteq> []" "has_prefix (trim_right_slash rp @ L ''/proxeus'') a \<Longrightarrow> trim_right_slash rp = []"
    and "\<And>p. a \<noteq> p @ L ''/tsdb-status''"
  shows "resource_at rp a = Elsewhere"
proof -
  let ?P = "trim_right_slash rp"
  have "uiRedirect rp a = None"
  proof (rule ccontr)
    assume "uiRedirect rp a \<noteq> None"
    then have "trim_prefix ?P a = L ''/tsdb-status''"
      by (auto simp: uiRedirect_def uiRedirects_def Let_def split: if_splits option.splits)
    then have "a = L ''/tsdb-status'' \<or> a = ?P @ L ''/tsdb-status''"
      by (auto simp: trim_prefix_def has_prefix_iff split: if_splits)
    then show False using assms(4) [of "[]"] assms(4) [of ?P] by auto
  qed
  then have "notFound rp a \<noteq> ProxeusUI" "\<nexists>to. notFound rp a = RedirectTo to"
    using assms(2,3) path_join_clean [OF assms(1) absolute_literals(4)]
    by (auto simp: notFound_def simp del: L.simps split: if_splits)
  then show ?thesis by (cases "notFound rp a") (auto simp: resource_at_def)
qed

lemma literal_resources:
  fixes rp :: ustr
  defines "P \<equiv> trim_right_slash rp"
  assumes "clean_prefix rp"
  shows "resource_at rp (P @ L ''/proxeus/backends'') = InventoryPage"
    "resource_at rp (P @ L ''/proxeus/api/backends.json'') = InventoryData"
    "resource_at rp (P @ L ''/proxeus/api/cardinality.json'') = CardinalityData"
    "resource_at rp (P @ L ''/proxeus/static/style.css'') = StaticFile (L ''/static/style.css'')"
    "resource_at rp (P @ L ''/proxeus/static/app.js'') = StaticFile (L ''/static/app.js'')"
proof -
  note at = resource_page [OF assms(2), folded P_def]
  note page = page_pattern_def handle_def has_prefix_L serveStatic_def StaticFiles_def
  have "from_static (L ''/proxeus/static/style.css'') = Some (L ''/static/style.css'')"
    "from_static (L ''/proxeus/static/app.js'') = Some (L ''/static/app.js'')"
    by simp_all
  then show "resource_at rp (P @ L ''/proxeus/backends'') = InventoryPage"
    "resource_at rp (P @ L ''/proxeus/api/backends.json'') = InventoryData"
    "resource_at rp (P @ L ''/proxeus/api/cardinality.json'') = CardinalityData"
    "resource_at rp (P @ L ''/proxeus/static/style.css'') = StaticFile (L ''/static/style.css'')"
    "resource_at rp (P @ L ''/proxeus/static/app.js'') = StaticFile (L ''/static/app.js'')"
    using at [OF _ clean_literals(1)] at [OF _ clean_literals(2)] at [OF _ clean_literals(3)]
      at [OF _ clean_literals(4)] at [OF _ clean_literals(5)]
    by (simp_all add: page del: L.simps from_static.simps)
qed

lemma index_missed:
  assumes "clean_prefix rp" "trim_right_slash rp \<noteq> []" "a \<in> set (index_links @ [BACKENDS_URL])"
  shows "resource_at rp a = Elsewhere"
proof (rule missed [OF assms(1,2)])
  show "has_prefix (trim_right_slash rp @ L ''/proxeus'') a \<Longrightarrow> trim_right_slash rp = []"
    using assms(3) by (auto simp: has_prefix_iff index_links_def BACKENDS_URL_def append_eq_Cons_conv)
  show "a \<noteq> p @ L ''/tsdb-status''" for p
  proof
    assume "a = p @ L ''/tsdb-status''"
    then have "rev a = rev (L ''/tsdb-status'') @ rev p" by simp
    with assms(3) show False by (auto simp: index_links_def BACKENDS_URL_def)
  qed
qed

lemma unclean_redirect:
  assumes "clean_prefix rp"
  shows "resource_at rp (trim_right_slash rp @ L ''/proxeus//backends'') = Moved (L ''/proxeus/backends'')"
proof -
  have p: "has_prefix (L ''/proxeus/'') (L ''/proxeus//backends'')" by (simp add: has_prefix_L)
  have "exact initMux (L ''/proxeus/backends'')"
    by (subst exact_page) (simp_all add: page_pattern_def has_prefix_L del: L.simps)
  then have "mux_serve initMux (L ''/proxeus//backends'') = MovedTo (L ''/proxeus/backends'')"
    by (simp add: mux_serve_def clean_literals(6) Let_def del: L.simps)
  then show ?thesis
    using fallback_page [OF assms p] by (simp add: resource_at_def ui_ServeHTTP_def del: L.simps)
qed

text \<open>
  C40: Under a clean route prefix the inventory page is a page without its parts: it is served below the prefix, but
  the stylesheet and script it links and the data its script polls are addressed from the root, where
  no handler of it answers; and a path that is not clean is redirected out of the prefix. Without
  a prefix all three are served, and the data nav.js and cardinality.js ask for is under any clean prefix.
\<close>

theorem inventory_poll_misses:
  assumes "clean_prefix rp"
  shows "let P = trim_right_slash rp in
     resource_at rp (P @ L ''/proxeus/backends'') = InventoryPage \<and>
     map (resource_at rp) (index_links @ [BACKENDS_URL]) =
       (if P = [] then [StaticFile (L ''/static/style.css''), StaticFile (L ''/static/app.js''), InventoryData]
        else [Elsewhere, Elsewhere, Elsewhere]) \<and>
     resource_at rp (NAV_API_URL P) = InventoryData \<and> resource_at rp (API_URL P) = CardinalityData \<and>
     resource_at rp (P @ L ''/proxeus//backends'') = Moved (L ''/proxeus/backends'')"
proof -
  define P where "P = trim_right_slash rp"
  note at = literal_resources [OF assms, folded P_def]
  have "map (resource_at rp) (index_links @ [BACKENDS_URL]) =
      (if P = [] then [StaticFile (L ''/static/style.css''), StaticFile (L ''/static/app.js''), InventoryData]
       else [Elsewhere, Elsewhere, Elsewhere])"
    using at index_missed [OF assms, folded P_def] by (cases "P = []") (simp_all add: index_links_def BACKENDS_URL_def del: L.simps)
  with at unclean_redirect [OF assms] show ?thesis
    unfolding Let_def P_def [symmetric] NAV_API_URL_def API_URL_def by blast
qed

theorem inventory_poll_misses_witness:
  "resource_at (L ''/foo'') (L ''/foo/proxeus/backends'') = InventoryPage \<and>
   map (resource_at (L ''/foo'')) (index_links @ [BACKENDS_URL]) = [Elsewhere, Elsewhere, Elsewhere]"
proof -
  have P: "trim_right_slash (L ''/foo'') = L ''/foo''" "L ''/foo'' @ L ''/proxeus/backends'' = L ''/foo/proxeus/backends''"
    "L ''/foo'' \<noteq> []"
    by (simp_all add: trim_right_slash_def)
  have "clean_prefix (L ''/foo'')" by code_simp
  from inventory_poll_misses [OF this] show ?thesis unfolding Let_def P(1,2) if_not_P [OF P(3)] by blast
qed

end
