(* ===== verification/ShellPage.thy ===== *)
theory ShellPage
  imports Server
begin

text \<open>
  The shell the scripts run in (\<open>cmd/proxeus/main.go\<close>: \<open>loadReactScripts\<close>, \<open>checkedReplaceAll\<close>,
  \<open>buildInjectedReactApp\<close>, \<open>serveInjectedReactApp\<close> and the normalisation of the route prefix): the vendored \<open>index.html\<close>, a
  parameter, with its placeholders replaced and the scripts put at its two ends. Go's \<open>%q\<close> is
  modelled on ASCII; what it writes for another character is the parameter \<open>quote_other\<close>.
\<close>

section \<open>The route prefix\<close>

definition trim_slashes :: "ustr \<Rightarrow> ustr" where
  "trim_slashes s = trim_right_slash (dropWhile (\<lambda>c. c = ch (CHR ''/'')) s)"

definition routePrefix :: "ustr \<Rightarrow> ustr \<Rightarrow> ustr" where
  "routePrefix flag externalPath = ch (CHR ''/'') # trim_slashes (if flag = [] then externalPath else flag)"

section \<open>The scripts\<close>

text \<open>\<open>read\<close> is \<open>ReadFile\<close> of the embedded directory: an error's text or the file.\<close>

definition read_script :: "(string \<Rightarrow> ustr + ustr) \<Rightarrow> string \<Rightarrow> ustr + ustr" where
  "read_script read name =
     (case read name of Inl e \<Rightarrow> Inl (L (''embedded '' @ name @ '' missing: '') @ e) | Inr t \<Rightarrow> Inr t)"

definition in_script :: "ustr \<Rightarrow> ustr" where
  "in_script t = L ''<script>'' @ t @ L ''</script>''"

definition loadReactScripts :: "(string \<Rightarrow> ustr + ustr) \<Rightarrow> ustr + ustr \<times> ustr" where
  "loadReactScripts read =
     (case read_script read ''head.js'' of Inl e \<Rightarrow> Inl e | Inr head \<Rightarrow>
     (case read_script read ''nav.js'' of Inl e \<Rightarrow> Inl e | Inr nav \<Rightarrow>
     (case read_script read ''stats.js'' of Inl e \<Rightarrow> Inl e | Inr stats \<Rightarrow>
     (case read_script read ''cardinality.js'' of Inl e \<Rightarrow> Inl e | Inr cardinality \<Rightarrow>
        Inr (in_script head @ in_script stats, in_script nav @ in_script cardinality)))))"

section \<open>The page\<close>

definition checkedReplaceAll :: "ustr \<Rightarrow> ustr \<Rightarrow> ustr \<Rightarrow> ustr" where
  "checkedReplaceAll src marker replacement =
     (if \<not> contains_sub marker src then src else replace_sub marker replacement src)"

text \<open>\<open>strconv.Quote\<close>.\<close>

definition hex_unit :: "nat \<Rightarrow> cu" where
  "hex_unit d = word_of_nat (if d < 10 then 48 + d else 87 + d)"

definition quote_unit :: "(cu \<Rightarrow> ustr) \<Rightarrow> cu \<Rightarrow> ustr" where
  "quote_unit quote_other c =
     (if c = 0x22 \<or> c = 0x5C then [0x5C, c]
      else if 0x20 \<le> c \<and> c < 0x7F then [c]
      else if c = 0x7 then [0x5C, 0x61] else if c = 0x8 then [0x5C, 0x62] else if c = 0xC then [0x5C, 0x66]
      else if c = 0xA then [0x5C, 0x6E] else if c = 0xD then [0x5C, 0x72] else if c = 0x9 then [0x5C, 0x74]
      else if c = 0xB then [0x5C, 0x76]
      else if c < 0x80 then [0x5C, 0x78, hex_unit (unat c div 16), hex_unit (unat c mod 16)]
      else quote_other c)"

definition go_quote :: "(cu \<Rightarrow> ustr) \<Rightarrow> ustr \<Rightarrow> ustr" where
  "go_quote quote_other s = [0x22] @ concat (map (quote_unit quote_other) s) @ [0x22]"

text \<open>
  The options the page depends on; \<open>so_consoles\<close> is the external URL's path where the console templates have
  an index page, and \<open>so_lookback\<close> the text of the lookback duration.
\<close>

record shell_options =
  so_consoles :: "ustr option"
  so_title :: ustr
  so_agent :: bool
  so_lookback :: ustr
  so_prefix :: ustr

definition prefixScript :: "(cu \<Rightarrow> ustr) \<Rightarrow> ustr \<Rightarrow> ustr" where
  "prefixScript quote_other prefix =
     L ''<script>window.__PROXEUS_ROUTE_PREFIX__='' @ go_quote quote_other prefix @ L '';</script>''"

text \<open>The page before the scripts are put in.\<close>

definition shell_base :: "shell_options \<Rightarrow> ustr \<Rightarrow> ustr" where
  "shell_base opts idx =
     (let consolesPath = (case so_consoles opts of None \<Rightarrow> [] | Some p \<Rightarrow> p @ L ''/consoles/index.html'');
          prefix = trim_right_slash (so_prefix opts);
          idx = checkedReplaceAll idx (L ''CONSOLES_LINK_PLACEHOLDER'') consolesPath;
          idx = checkedReplaceAll idx (L ''TITLE_PLACEHOLDER'') (so_title opts);
          idx = checkedReplaceAll idx (L ''AGENT_MODE_PLACEHOLDER'') (if so_agent opts then L ''true'' else L ''false'');
          idx = checkedReplaceAll idx (L ''READY_PLACEHOLDER'') (L ''true'');
          idx = checkedReplaceAll idx (L ''LOOKBACKDELTA_PLACEHOLDER'') (so_lookback opts);
          idx = checkedReplaceAll idx (L ''href=\"./favicon.svg\"'')
                  (L ''href=\"'' @ prefix @ L ''/proxeus/static/proxeus-icon.svg\"'');
          idx = checkedReplaceAll idx (L ''\"./assets/'') (L ''\"'' @ prefix @ L ''/assets/'')
      in replace_sub ([0x27] @ L ''./assets/'') ([0x27] @ prefix @ L ''/assets/'') idx)"

definition inject_scripts :: "(cu \<Rightarrow> ustr) \<Rightarrow> shell_options \<Rightarrow> ustr \<Rightarrow> ustr \<Rightarrow> ustr \<Rightarrow> ustr" where
  "inject_scripts quote_other opts idx headScript navScript =
     (let prefix = trim_right_slash (so_prefix opts);
          idx = checkedReplaceAll idx (L ''<head>'') (L ''<head>'' @ prefixScript quote_other prefix @ headScript)
      in checkedReplaceAll idx (L ''</body>'') (navScript @ L ''</body>''))"

text \<open>\<open>index\<close> is the file \<open>index.html\<close>, or the error of opening or reading it.\<close>

definition buildInjectedReactApp :: "(cu \<Rightarrow> ustr) \<Rightarrow> shell_options \<Rightarrow> ustr + ustr \<Rightarrow> ustr \<Rightarrow> ustr \<Rightarrow> ustr + ustr" where
  "buildInjectedReactApp quote_other opts index headScript navScript =
     (case index of Inl e \<Rightarrow> Inl e
      | Inr idx \<Rightarrow> Inr (inject_scripts quote_other opts (shell_base opts idx) headScript navScript))"

definition serveInjectedReactApp :: "ustr + ustr \<Rightarrow> nat \<times> ustr" where
  "serveInjectedReactApp built = (case built of Inl buildErr \<Rightarrow> (500, buildErr) | Inr p \<Rightarrow> (200, p))"

section \<open>Reading the prefix back\<close>

text \<open>
  A double-quoted string literal of JavaScript: its value and what follows. An escaped character that has no
  meaning of its own stands for itself. \<open>None\<close> where it does not end on its line, and for the escapes
  Go never writes (octal, line continuation) or writes outside ASCII only (\<open>u\<close>).
\<close>

definition unit_hex :: "cu \<Rightarrow> nat option" where
  "unit_hex c = hex_val (unat c)"

fun js_string_body :: "ustr \<Rightarrow> (ustr \<times> ustr) option" where
  "js_string_body [] = None"
| "js_string_body (c # s) =
     (if c = 0x22 then Some ([], s)
      else if c = 0xA \<or> c = 0xD then None
      else if c \<noteq> 0x5C then map_option (\<lambda>(v, r). (c # v, r)) (js_string_body s)
      else (case s of
              [] \<Rightarrow> None
            | d # s' \<Rightarrow>
                if d = 0x78
                then (case s' of
                        x # y # s'' \<Rightarrow>
                          (case (unit_hex x, unit_hex y) of
                             (Some h, Some l) \<Rightarrow> map_option (\<lambda>(v, r). (word_of_nat (16 * h + l) # v, r)) (js_string_body s'')
                           | _ \<Rightarrow> None)
                      | _ \<Rightarrow> None)
                else if d = 0x75 \<or> is_digit d \<or> d = 0xA \<or> d = 0xD then None
                else (let e = (if d = 0x62 then 0x8 else if d = 0x66 then 0xC else if d = 0x6E then 0xA
                               else if d = 0x72 then 0xD else if d = 0x74 then 0x9 else if d = 0x76 then 0xB else d)
                      in map_option (\<lambda>(v, r). (e # v, r)) (js_string_body s'))))"

definition js_string :: "ustr \<Rightarrow> (ustr \<times> ustr) option" where
  "js_string s = (case s of [] \<Rightarrow> None | c # s' \<Rightarrow> if c = 0x22 then js_string_body s' else None)"

lemma unit_hex_hex: "n < 16 \<Longrightarrow> unit_hex (hex_unit n) = Some n"
  by (simp add: unit_hex_def hex_unit_def hex_val_def unat_of_nat)

text \<open>The characters Go quotes by letters of their own.\<close>

lemma quote_unit_read:
  assumes "c < 0x80" "c \<noteq> 0x7"
  shows "js_string_body (quote_unit q c @ s) = map_option (\<lambda>(v, r). (c # v, r)) (js_string_body s)"
proof -
  have hex: "word_of_nat (16 * (unat c div 16) + unat c mod 16) = c" by simp
  have n: "unat c div 16 < 16" "unat c mod 16 < 16" using assms(1) by (simp_all add: word_less_nat_alt)
  show ?thesis
    using assms by (auto simp: quote_unit_def unit_hex_hex [OF n(1)] unit_hex_hex [OF n(2)] hex is_digit_def Let_def)
qed

lemma go_quote_read:
  assumes "list_all (\<lambda>c. c < 0x80 \<and> c \<noteq> 0x7) s"
  shows "js_string (go_quote q s @ r) = Some (s, r)"
proof -
  have "js_string_body (concat (map (quote_unit q) s) @ [0x22] @ r) = Some (s, r)"
    using assms by (induction s) (simp_all add: quote_unit_read)
  then show ?thesis by (simp add: js_string_def go_quote_def)
qed

section \<open>Replacing a marker\<close>

lemma replace_none: "\<not> contains_sub m s \<Longrightarrow> replace_sub m r s = s"
  by (induction m r s rule: replace_sub.induct) (auto split: if_splits)

lemma marker_later:
  assumes "m \<noteq> []" "hd m \<notin> set (tl m)" "\<not> has_prefix m (a # A)"
  shows "\<not> has_prefix m ((a # A) @ m @ C)"
proof
  assume "has_prefix m ((a # A) @ m @ C)"
  then obtain r where "(a # A) @ m @ C = m @ r" by (auto simp: has_prefix_iff)
  then have "\<exists>x. a # A = m @ x \<and> x @ m @ C = r \<or> (a # A) @ x = m \<and> m @ C = x @ r"
    by (simp only: append_eq_append_conv2)
  then consider x where "a # A = m @ x" | x where "m = (a # A) @ x" "m @ C = x @ r" by blast
  then show False
  proof cases
    case 1
    then show False using assms(3) by simp
  next
    case 2
    show False
    proof (cases x)
      case Nil
      then show False using 2(1) assms(3) by (auto simp: has_prefix_iff)
    next
      case (Cons y ys)
      then have "hd m = y" using 2(2) assms(1) by (cases m) simp_all
      moreover have "y \<in> set (tl m)" using 2(1) Cons by simp
      ultimately show False using assms(2) by simp
    qed
  qed
qed

lemma replace_once:
  assumes "m \<noteq> []" "hd m \<notin> set (tl m)" "\<not> contains_sub m A" "\<not> contains_sub m C"
  shows "replace_sub m r (A @ m @ C) = A @ r @ C"
  using assms(3)
proof (induction A)
  case Nil
  obtain c cs where m: "m = c # cs" using assms(1) by (cases m) auto
  have "replace_sub m r (m @ C) = r @ replace_sub m r C" unfolding m by (simp add: has_prefix_iff)
  then show ?case using replace_none [OF assms(4)] by simp
next
  case (Cons a A)
  then have "\<not> has_prefix m (a # A)" "\<not> contains_sub m A" by simp_all
  then show ?case using Cons.IH marker_later [OF assms(1,2)] by simp
qed

lemma contains_mid: "m \<noteq> [] \<Longrightarrow> contains_sub m (A @ m @ C)"
  by (induction A) (auto simp: neq_Nil_conv)

lemma checked_once:
  assumes "m \<noteq> []" "hd m \<notin> set (tl m)" "\<not> contains_sub m A" "\<not> contains_sub m C"
  shows "checkedReplaceAll (A @ m @ C) m r = A @ r @ C"
  using replace_once [OF assms] contains_mid [OF assms(1)] by (simp add: checkedReplaceAll_def)

lemma markers:
  "L ''<head>'' \<noteq> []" "hd (L ''<head>'') \<notin> set (tl (L ''<head>''))"
  "L ''</body>'' \<noteq> []" "hd (L ''</body>'') \<notin> set (tl (L ''</body>''))"
  by simp_all

text \<open>The prefix the server routes by is empty, or a path that starts with a slash and ends without one.\<close>

lemma routePrefix_form:
  assumes "P = trim_right_slash (routePrefix flag ext)"
  shows "P = [] \<or> hd P = ch (CHR ''/'') \<and> last P \<noteq> ch (CHR ''/'')"
proof (cases "P = []")
  case False
  let ?f = "\<lambda>c. c = ch (CHR ''/'')"
  have P: "P = rev (dropWhile ?f (rev (routePrefix flag ext)))" using assms by (simp add: trim_right_slash_def)
  then have "rev P \<noteq> []" "rev P = dropWhile ?f (rev (routePrefix flag ext))" using False by simp_all
  then have "hd (rev P) \<noteq> ch (CHR ''/'')" using hd_dropWhile [of ?f "rev (routePrefix flag ext)"] by simp
  moreover obtain t where "rev (routePrefix flag ext) = t @ rev P" using P by (metis rev_rev_ident takeWhile_dropWhile_id)
  then have "routePrefix flag ext = P @ rev t" by (metis rev_append rev_rev_ident)
  then have "hd P = ch (CHR ''/'')" using False by (cases P) (simp_all add: routePrefix_def)
  ultimately show ?thesis by (simp add: hd_rev)
qed simp

section \<open>Properties\<close>

text \<open>
  C24: Where the shell has one head and one end of its body, and no text before that end contains its marker, the
  injected page runs the scripts in the order they rely on: first the route prefix, then head.js and
  stats.js, all before anything of the shell's own head, and nav.js and cardinality.js last in the
  body; and the prefix they read is, for a prefix in ASCII, the one the server routes by.
\<close>

theorem shell_runs_scripts:
  fixes opts :: shell_options
  defines "P \<equiv> trim_right_slash (so_prefix opts)"
  assumes scripts: "read ''head.js'' = Inr hd_js" "read ''nav.js'' = Inr nav_js" "read ''stats.js'' = Inr stats_js"
      "read ''cardinality.js'' = Inr card_js"
    and base: "shell_base opts idx = A @ L ''<head>'' @ B @ L ''</body>'' @ C"
      "\<not> contains_sub (L ''<head>'') A" "\<not> contains_sub (L ''<head>'') (B @ L ''</body>'' @ C)"
      "\<not> contains_sub (L ''</body>'') C"
      "\<not> contains_sub (L ''</body>'') (A @ L ''<head>'' @ prefixScript q P @ in_script hd_js @ in_script stats_js @ B)"
    and prefix: "list_all (\<lambda>c. c < 0x80 \<and> c \<noteq> 0x7) P"
  shows "\<exists>headScript navScript. loadReactScripts read = Inr (headScript, navScript) \<and>
    serveInjectedReactApp (buildInjectedReactApp q opts (Inr idx) headScript navScript) =
      (200, A @ L ''<head>'' @ (L ''<script>window.__PROXEUS_ROUTE_PREFIX__='' @ go_quote q P @ L '';</script>'') @
        in_script hd_js @ in_script stats_js @ B @ in_script nav_js @ in_script card_js @ L ''</body>'' @ C) \<and>
    js_string (go_quote q P @ L '';</script>'') = Some (P, L '';</script>'')"
proof (intro exI conjI)
  let ?h = "in_script hd_js @ in_script stats_js" and ?n = "in_script nav_js @ in_script card_js"
  let ?X = "A @ L ''<head>'' @ prefixScript q P @ in_script hd_js @ in_script stats_js @ B"
  show "loadReactScripts read = Inr (?h, ?n)" by (simp add: loadReactScripts_def read_script_def scripts)
  have "checkedReplaceAll (shell_base opts idx) (L ''<head>'') (L ''<head>'' @ prefixScript q P @ ?h) =
      ?X @ L ''</body>'' @ C"
    unfolding base(1) by (subst checked_once [OF markers(1,2) base(2,3)]) (simp del: L.simps)
  moreover have "checkedReplaceAll (?X @ L ''</body>'' @ C) (L ''</body>'') (?n @ L ''</body>'') = ?X @ (?n @ L ''</body>'') @ C"
    by (rule checked_once [OF markers(3,4) base(5,4)])
  ultimately show "serveInjectedReactApp (buildInjectedReactApp q opts (Inr idx) ?h ?n) =
      (200, A @ L ''<head>'' @ (L ''<script>window.__PROXEUS_ROUTE_PREFIX__='' @ go_quote q P @ L '';</script>'') @
        in_script hd_js @ in_script stats_js @ B @ in_script nav_js @ in_script card_js @ L ''</body>'' @ C)"
    unfolding buildInjectedReactApp_def inject_scripts_def serveInjectedReactApp_def Let_def P_def [symmetric]
    by (simp add: prefixScript_def del: L.simps)
  show "js_string (go_quote q P @ L '';</script>'') = Some (P, L '';</script>'')" by (rule go_quote_read [OF prefix])
qed

definition sample_read :: "string \<Rightarrow> ustr + ustr" where
  "sample_read name = Inr (L name)"

definition sample_shell :: shell_options where
  "sample_shell = \<lparr>so_consoles = None, so_title = L ''p'', so_agent = False, so_lookback = L ''5m'',
                   so_prefix = routePrefix (L ''foo/'') []\<rparr>"

theorem shell_runs_scripts_witness:
  "\<exists>n. serveInjectedReactApp (buildInjectedReactApp (\<lambda>c. []) sample_shell (Inr (L ''<head></head></body>''))
      (in_script (L ''head.js'') @ in_script (L ''stats.js'')) n) =
     (200, L ''<head>'' @ (L ''<script>window.__PROXEUS_ROUTE_PREFIX__='' @ go_quote (\<lambda>c. []) (L ''/foo'') @ L '';</script>'') @
     in_script (L ''head.js'') @ in_script (L ''stats.js'') @ L ''</head>'' @ in_script (L ''nav.js'') @
     in_script (L ''cardinality.js'') @ L ''</body>'') \<and>
   js_string (go_quote (\<lambda>c. []) (L ''/foo'') @ L '';</script>'') = Some (L ''/foo'', L '';</script>'')"
proof -
  have P: "trim_right_slash (so_prefix sample_shell) = L ''/foo''"
    by (simp add: sample_shell_def routePrefix_def trim_slashes_def trim_right_slash_def)
  have b: "shell_base sample_shell (L ''<head></head></body>'') = [] @ L ''<head>'' @ L ''</head>'' @ L ''</body>'' @ []"
    by (simp add: shell_base_def checkedReplaceAll_def Let_def sample_shell_def ch_def)
  have c: "\<not> contains_sub (L ''</body>'') ([] @ L ''<head>'' @ prefixScript (\<lambda>c. []) (L ''/foo'') @ in_script (L ''head.js'') @
      in_script (L ''stats.js'') @ L ''</head>'')"
    by (simp add: prefixScript_def go_quote_def quote_unit_def in_script_def ch_def)
  have a: "list_all (\<lambda>c. c < 0x80 \<and> c \<noteq> 0x7) (L ''/foo'')" by (simp add: ch_def)
  have r: "sample_read name = Inr (L name)" for name by (simp add: sample_read_def)
  have d: "\<not> contains_sub (L ''<head>'') []" "\<not> contains_sub (L ''<head>'') (L ''</head>'' @ L ''</body>'' @ [])"
    "\<not> contains_sub (L ''</body>'') []"
    by simp_all
  obtain h n where "loadReactScripts sample_read = Inr (h, n)"
    "serveInjectedReactApp (buildInjectedReactApp (\<lambda>c. []) sample_shell (Inr (L ''<head></head></body>'')) h n) =
       (200, [] @ L ''<head>'' @ (L ''<script>window.__PROXEUS_ROUTE_PREFIX__='' @ go_quote (\<lambda>c. []) (L ''/foo'') @ L '';</script>'') @
        in_script (L ''head.js'') @ in_script (L ''stats.js'') @ L ''</head>'' @ in_script (L ''nav.js'') @
        in_script (L ''cardinality.js'') @ L ''</body>'' @ [])"
    "js_string (go_quote (\<lambda>c. []) (L ''/foo'') @ L '';</script>'') = Some (L ''/foo'', L '';</script>'')"
    using shell_runs_scripts [of sample_read _ _ _ _ sample_shell, unfolded P, OF r r r r b d c a] by blast
  moreover from this(1) have "h = in_script (L ''head.js'') @ in_script (L ''stats.js'')"
    by (simp add: loadReactScripts_def read_script_def sample_read_def del: L.simps)
  ultimately show ?thesis by (intro exI [of _ n]) (simp del: L.simps)
qed

end
