(* ===== verification/Auth.thy ===== *)
theory Auth
  imports UiRoutes "HOL-Library.Sublist"
begin

text \<open>
  Who may ask for what (\<open>pkg/auth\<close>: \<open>auth.go\<close>, \<open>basic.go\<close>, \<open>trustedheader.go\<close>, \<open>oidc.go\<close> and the
  validation of \<open>config.go\<close>): the chain of providers, the exempt paths and the authorization policy, up to
  the middleware's decision. What other code decides is a field of \<open>auth_env\<close>: addresses, base 64, bcrypt,
  SHA-256 and the verification of a token. Header values are valid UTF-8, read as their characters.
\<close>

section \<open>Requests and identities\<close>

text \<open>
  A request: its decoded path with the escaped one, if that is kept, \<open>Header.Get\<close> of its headers, and the
  address of the connection.
\<close>

record http_request =
  hr_method :: ustr
  hr_path :: ustr
  hr_raw :: ustr
  hr_header :: "ustr \<Rightarrow> ustr"
  hr_remote :: ustr

record identity =
  id_Name :: ustr
  id_Groups :: "ustr list"
  id_Provider :: ustr

datatype claim = CString ustr | CList "claim list" | COther

record id_token =
  tk_Audience :: "ustr list"
  tk_claims :: "ustr + (ustr \<Rightarrow> claim option)"

text \<open>\<open>env_bcrypt h p\<close>: the password fits the hash; \<open>env_sha\<close>: the hexadecimal sum.\<close>

record auth_env =
  env_split_host_port :: "ustr \<Rightarrow> ustr option"
  env_parse_addr :: "ustr \<Rightarrow> nat option"
  env_parse_prefix :: "ustr \<Rightarrow> (nat \<Rightarrow> bool) option"
  env_base64 :: "ustr \<Rightarrow> ustr option"
  env_bcrypt :: "ustr \<Rightarrow> ustr \<Rightarrow> bool"
  env_is_hash :: "ustr \<Rightarrow> bool"
  env_sha :: "ustr \<Rightarrow> ustr"
  env_discover :: "ustr \<Rightarrow> ustr option"
  env_verify_token :: "ustr \<Rightarrow> bool \<Rightarrow> ustr \<Rightarrow> ustr + id_token"

text \<open>What a provider answers: \<open>errNoCredentials\<close>, another error, or the caller.\<close>

datatype auth_error =
  MalformedHeader | InvalidCredentials ustr | InvalidToken ustr | UnreadableClaims ustr | WrongAudience | NoNameClaim ustr

datatype auth_result = NoCredentials | Denied auth_error | Identified identity

definition credentials :: "http_request \<Rightarrow> ustr \<Rightarrow> ustr option" where
  "credentials r scheme =
     (let header = hr_header r (L ''Authorization''); start = scheme @ L '' ''
      in if length header \<le> length start \<or> map ascii_lower (take (length start) header) \<noteq> map ascii_lower start then None
         else Some (drop (length start) header))"

section \<open>Basic\<close>

text \<open>\<open>BasicAuth\<close> of a request: the part after the scheme, decoded and cut at its first colon.\<close>

definition BasicAuth :: "auth_env \<Rightarrow> http_request \<Rightarrow> (ustr \<times> ustr) option" where
  "BasicAuth env r =
     (case credentials r (L ''Basic'') of None \<Rightarrow> None
      | Some c \<Rightarrow>
          (case env_base64 env c of None \<Rightarrow> None
           | Some cs \<Rightarrow>
               (case dropWhile (\<lambda>c. c \<noteq> ch (CHR '':'')) cs of
                  [] \<Rightarrow> None
                | _ # password \<Rightarrow> Some (takeWhile (\<lambda>c. c \<noteq> ch (CHR '':'')) cs, password))))"

definition verify_key :: "auth_env \<Rightarrow> ustr \<Rightarrow> ustr \<Rightarrow> ustr \<Rightarrow> ustr" where
  "verify_key env user hash password = user @ [0] @ hash @ [0] @ env_sha env password"

text \<open>\<open>verify\<close>, from the pairs verified so far: its answer and the key it then stores, if any.\<close>

definition basic_verify :: "auth_env \<Rightarrow> ustr set \<Rightarrow> ustr \<Rightarrow> ustr \<Rightarrow> ustr \<Rightarrow> bool \<times> ustr option" where
  "basic_verify env verified user hash password =
     (let key = verify_key env user hash password
      in if key \<in> verified then (True, None)
         else if \<not> env_bcrypt env hash password then (False, None)
         else (True, Some key))"

definition basic_authenticate ::
  "auth_env \<Rightarrow> (ustr \<Rightarrow> ustr option) \<Rightarrow> ustr set \<Rightarrow> http_request \<Rightarrow> auth_result \<times> ustr option" where
  "basic_authenticate env users verified r =
     (if credentials r (L ''Basic'') = None then (NoCredentials, None)
      else (case BasicAuth env r of
              None \<Rightarrow> (Denied MalformedHeader, None)
            | Some (user, password) \<Rightarrow>
                (case users user of
                   None \<Rightarrow> (Denied (InvalidCredentials user), None)
                 | Some hash \<Rightarrow>
                     (let (ok, store) = basic_verify env verified user hash password
                      in if ok then (Identified \<lparr>id_Name = user, id_Groups = [], id_Provider = L ''basic''\<rparr>, store)
                         else (Denied (InvalidCredentials user), store)))))"

section \<open>Trusted headers\<close>

record trusted_header =
  th_user :: ustr
  th_groups :: ustr
  th_trusted :: "(nat \<Rightarrow> bool) list"

text \<open>\<open>strings.TrimSpace\<close>.\<close>

definition go_space :: "cu \<Rightarrow> bool" where
  "go_space c \<longleftrightarrow> c = 0x85 \<or> js_space c \<and> c \<noteq> 0xFEFF"

definition go_trim :: "ustr \<Rightarrow> ustr" where
  "go_trim s = rev (dropWhile go_space (rev (dropWhile go_space s)))"

definition trustedRemote :: "auth_env \<Rightarrow> trusted_header \<Rightarrow> ustr \<Rightarrow> bool" where
  "trustedRemote env p remoteAddr =
     (let host = (case env_split_host_port env remoteAddr of None \<Rightarrow> remoteAddr | Some h \<Rightarrow> h)
      in case env_parse_addr env host of None \<Rightarrow> False | Some addr \<Rightarrow> list_ex (\<lambda>contains. contains addr) (th_trusted p))"

definition trusted_authenticate :: "auth_env \<Rightarrow> trusted_header \<Rightarrow> http_request \<Rightarrow> auth_result" where
  "trusted_authenticate env p r =
     (let user = hr_header r (th_user p)
      in if user = [] then NoCredentials
         else if \<not> trustedRemote env p (hr_remote r) then NoCredentials
         else Identified
           \<lparr>id_Name = user,
            id_Groups = (if th_groups p = [] then []
                         else filter (\<lambda>g. g \<noteq> []) (map go_trim (split_on (ch (CHR '','')) (hr_header r (th_groups p))))),
            id_Provider = L ''trusted_header''\<rparr>)"

section \<open>Bearer tokens\<close>

record oidc_config =
  oc_issuer :: ustr
  oc_clientID :: ustr
  oc_usernameClaim :: ustr
  oc_groupsClaim :: ustr
  oc_skipIssuer :: bool

definition verifyAudience :: "oidc_config \<Rightarrow> id_token \<Rightarrow> (ustr \<Rightarrow> claim option) \<Rightarrow> bool" where
  "verifyAudience p tk claims \<longleftrightarrow>
     oc_clientID p \<in> set (tk_Audience tk) \<or>
     (case claims (L ''azp'') of Some (CString azp) \<Rightarrow> azp | _ \<Rightarrow> []) = oc_clientID p"

definition oidc_groups :: "oidc_config \<Rightarrow> (ustr \<Rightarrow> claim option) \<Rightarrow> ustr list" where
  "oidc_groups p claims =
     (if oc_groupsClaim p = [] then []
      else (case claims (oc_groupsClaim p) of
              Some (CString g) \<Rightarrow> [g]
            | Some (CList gs) \<Rightarrow> List.map_filter (\<lambda>g. case g of CString s \<Rightarrow> Some s | _ \<Rightarrow> None) gs
            | _ \<Rightarrow> []))"

definition oidc_authenticate :: "auth_env \<Rightarrow> oidc_config \<Rightarrow> http_request \<Rightarrow> auth_result" where
  "oidc_authenticate env p r =
     (case credentials r (L ''Bearer'') of
        None \<Rightarrow> NoCredentials
      | Some rawToken \<Rightarrow>
          (case env_verify_token env (oc_issuer p) (oc_skipIssuer p) rawToken of
             Inl e \<Rightarrow> Denied (InvalidToken e)
           | Inr tk \<Rightarrow>
               (case tk_claims tk of
                  Inl e \<Rightarrow> Denied (UnreadableClaims e)
                | Inr claims \<Rightarrow>
                    if \<not> verifyAudience p tk claims then Denied WrongAudience
                    else (case claims (oc_usernameClaim p) of
                            Some (CString name) \<Rightarrow>
                              if name = [] then Denied (NoNameClaim (oc_usernameClaim p))
                              else Identified \<lparr>id_Name = name, id_Groups = oidc_groups p claims, id_Provider = L ''oidc''\<rparr>
                          | _ \<Rightarrow> Denied (NoNameClaim (oc_usernameClaim p))))))"

section \<open>The configuration\<close>

record trusted_config =
  tc_user :: ustr
  tc_groups :: ustr
  tc_proxies :: "ustr list"

record route_config =
  rc_prefix :: ustr
  rc_users :: "ustr list"
  rc_groups :: "ustr list"

record authz_config =
  zc_users :: "ustr list"
  zc_groups :: "ustr list"
  zc_routes :: "route_config list"

record auth_config =
  ac_exempt :: "ustr list option"
  ac_trusted :: "trusted_config option"
  ac_basic :: "(ustr \<times> ustr) list option"
  ac_oidc :: "oidc_config option"
  ac_authz :: "authz_config option"

text \<open>Whether a configuration is refused, by the checks of \<open>config.go\<close> in their order.\<close>

definition prefixes :: "auth_env \<Rightarrow> trusted_config \<Rightarrow> (nat \<Rightarrow> bool) list option" where
  "prefixes env c =
     those (map (env_parse_prefix env) (tc_proxies c))"

definition trusted_valid :: "auth_env \<Rightarrow> trusted_config \<Rightarrow> bool" where
  "trusted_valid env c \<longleftrightarrow> tc_user c \<noteq> [] \<and> tc_proxies c \<noteq> [] \<and> prefixes env c \<noteq> None"

definition basic_valid :: "auth_env \<Rightarrow> (ustr \<times> ustr) list \<Rightarrow> bool" where
  "basic_valid env users \<longleftrightarrow> users \<noteq> [] \<and> list_all (\<lambda>(u, h). env_is_hash env h) users"

definition oidc_valid :: "oidc_config \<Rightarrow> bool" where
  "oidc_valid c \<longleftrightarrow> oc_issuer c \<noteq> [] \<and> oc_clientID c \<noteq> []"

definition validateNames :: "ustr list \<Rightarrow> ustr list \<Rightarrow> bool" where
  "validateNames users groups \<longleftrightarrow> [] \<notin> set users \<and> [] \<notin> set groups"

definition route_valid :: "route_config \<Rightarrow> bool" where
  "route_valid c \<longleftrightarrow>
     has_prefix [slash] (rc_prefix c) \<and> go_clean (rc_prefix c) \<noteq> [slash] \<and> (rc_users c \<noteq> [] \<or> rc_groups c \<noteq> []) \<and>
     validateNames (rc_users c) (rc_groups c)"

definition authz_valid :: "authz_config \<Rightarrow> bool" where
  "authz_valid c \<longleftrightarrow>
     (zc_users c \<noteq> [] \<or> zc_groups c \<noteq> [] \<or> zc_routes c \<noteq> []) \<and> validateNames (zc_users c) (zc_groups c) \<and>
     list_all route_valid (zc_routes c)"

definition config_valid :: "auth_env \<Rightarrow> auth_config \<Rightarrow> bool" where
  "config_valid env c \<longleftrightarrow>
     (ac_basic c \<noteq> None \<or> ac_oidc c \<noteq> None \<or> ac_trusted c \<noteq> None) \<and>
     pred_option (trusted_valid env) (ac_trusted c) \<and> pred_option (basic_valid env) (ac_basic c) \<and>
     pred_option oidc_valid (ac_oidc c) \<and> pred_option authz_valid (ac_authz c)"

section \<open>The authenticator\<close>

datatype provider = PTrusted trusted_header | PBasic "ustr \<Rightarrow> ustr option" | POIDC oidc_config

record policy =
  po_users :: "ustr list"
  po_groups :: "ustr list"

record authorization =
  az_policy :: policy
  az_routes :: "(ustr \<times> policy) list"

record authenticator =
  au_exempt :: "ustr list"
  au_providers :: "provider list"
  au_challenge :: ustr
  au_authz :: "authorization option"

definition newAuthorization :: "authz_config \<Rightarrow> authorization" where
  "newAuthorization cfg =
     \<lparr>az_policy = \<lparr>po_users = zc_users cfg, po_groups = zc_groups cfg\<rparr>,
      az_routes = map (\<lambda>r. (go_clean (rc_prefix r), \<lparr>po_users = rc_users r, po_groups = rc_groups r\<rparr>)) (zc_routes cfg)\<rparr>"

definition allows :: "policy \<Rightarrow> identity \<Rightarrow> bool" where
  "allows p i \<longleftrightarrow>
     po_users p = [] \<and> po_groups p = [] \<or> id_Name i \<in> set (po_users p) \<or>
     list_ex (\<lambda>g. g \<in> set (po_groups p)) (id_Groups i)"

text \<open>\<open>New\<close>: an error, no authenticator where there is no configuration, or one.\<close>

datatype new_error = BadProxies | DiscoveryFailed ustr

definition new_trusted :: "auth_env \<Rightarrow> trusted_config \<Rightarrow> trusted_header option" where
  "new_trusted env c =
     map_option (\<lambda>ps. \<lparr>th_user = tc_user c, th_groups = tc_groups c, th_trusted = ps\<rparr>) (prefixes env c)"

definition exempt_list :: "auth_config \<Rightarrow> ustr list \<Rightarrow> ustr list" where
  "exempt_list c defaultExempt = (case ac_exempt c of None \<Rightarrow> defaultExempt | Some e \<Rightarrow> e)"

definition auth_new :: "auth_env \<Rightarrow> auth_config option \<Rightarrow> ustr list \<Rightarrow> new_error + authenticator option" where
  "auth_new env cfg defaultExempt =
     (case cfg of None \<Rightarrow> Inr None
      | Some c \<Rightarrow>
          (case (case ac_trusted c of None \<Rightarrow> Some [] | Some t \<Rightarrow> map_option (\<lambda>p. [PTrusted p]) (new_trusted env t)) of
             None \<Rightarrow> Inl BadProxies
           | Some trusted \<Rightarrow>
               (let (basic, c1) = (case ac_basic c of None \<Rightarrow> ([], [])
                                   | Some users \<Rightarrow> ([PBasic (map_of users)], [L ''Basic realm=\"proxeus\"'']))
                in case (case ac_oidc c of None \<Rightarrow> Inr ([], [])
                         | Some o1 \<Rightarrow> (case env_discover env (oc_issuer o1) of
                                         None \<Rightarrow> Inr ([POIDC o1], [L ''Bearer'']) | Some e \<Rightarrow> Inl (DiscoveryFailed e))) of
                     Inl e \<Rightarrow> Inl e
                   | Inr (oidc, c2) \<Rightarrow>
                       Inr (Some
                         \<lparr>au_exempt = map go_clean (exempt_list c defaultExempt),
                          au_providers = trusted @ basic @ oidc,
                          au_challenge = join (L '', '') (c1 @ c2),
                          au_authz = map_option newAuthorization (ac_authz c)\<rparr>))))"

section \<open>The middleware\<close>

text \<open>\<open>under\<close>, on whole segments.\<close>

definition under :: "ustr \<Rightarrow> ustr \<Rightarrow> bool" where
  "under clean p \<longleftrightarrow> clean = p \<or> has_prefix (p @ [slash]) clean"

definition exempt :: "authenticator \<Rightarrow> ustr \<Rightarrow> bool" where
  "exempt a urlPath \<longleftrightarrow> list_ex (under (go_clean urlPath)) (au_exempt a)"

definition allowed :: "authenticator \<Rightarrow> identity \<Rightarrow> ustr \<Rightarrow> bool" where
  "allowed a i urlPath \<longleftrightarrow>
     (case au_authz a of None \<Rightarrow> True
      | Some z \<Rightarrow>
          allows (az_policy z) i \<and>
          list_all (\<lambda>(pathPrefix, p). under (go_clean urlPath) pathPrefix \<longrightarrow> allows p i) (az_routes z))"

definition isPreflight :: "http_request \<Rightarrow> bool" where
  "isPreflight r \<longleftrightarrow> hr_method r = L ''OPTIONS'' \<and> hr_header r (L ''Access-Control-Request-Method'') \<noteq> []"

fun authenticate :: "auth_env \<Rightarrow> ustr set \<Rightarrow> provider \<Rightarrow> http_request \<Rightarrow> auth_result \<times> ustr option" where
  "authenticate env verified (PTrusted p) r = (trusted_authenticate env p r, None)"
| "authenticate env verified (PBasic users) r = basic_authenticate env users verified r"
| "authenticate env verified (POIDC p) r = (oidc_authenticate env p r, None)"

text \<open>The first provider with credentials for it decides.\<close>

fun run_chain :: "auth_env \<Rightarrow> ustr set \<Rightarrow> provider list \<Rightarrow> http_request \<Rightarrow> auth_result \<times> ustr option" where
  "run_chain env verified [] r = (NoCredentials, None)"
| "run_chain env verified (p # ps) r =
     (let a = authenticate env verified p r in if fst a = NoCredentials then run_chain env verified ps r else a)"

datatype decision = Proceed "identity option" | Unauthorized ustr | Forbidden

definition middleware :: "auth_env \<Rightarrow> authenticator \<Rightarrow> ustr set \<Rightarrow> http_request \<Rightarrow> decision \<times> ustr option" where
  "middleware env a verified r =
     (if exempt a (hr_path r) \<or> isPreflight r then (Proceed None, None)
      else (case run_chain env verified (au_providers a) r of
              (NoCredentials, store) \<Rightarrow> (Unauthorized (au_challenge a), store)
            | (Denied e, store) \<Rightarrow> (Unauthorized (au_challenge a), store)
            | (Identified i, store) \<Rightarrow> (if allowed a i (hr_path r) then Proceed (Some i) else Forbidden, store)))"

section \<open>Paths by their segments\<close>

lemma rooted_inject: "list_all plain vs \<Longrightarrow> list_all plain ws \<Longrightarrow> rooted vs = rooted ws \<longleftrightarrow> vs = ws"
  using segments_rooted [of vs] segments_rooted [of ws] rooted_Nil_iff by (metis list.inject)

lemma segments_below: "list_all plain vs \<Longrightarrow> segments (rooted vs @ slash # r) = [] # vs @ segments r"
proof (induction vs)
  case (Cons w vs)
  obtain r' where r': "rooted vs @ slash # r = slash # r'" by (cases vs) (simp_all add: rooted_def)
  have "slash \<notin> set w" "segments (slash # r') = [] # vs @ segments r" using Cons r' by (simp_all add: plain_def)
  then have "segments (w @ rooted vs @ slash # r) = w # vs @ segments r" unfolding r' by (simp add: split_on_append)
  then show ?case by (simp add: rooted_def)
qed (simp add: rooted_def)

lemma rooted_extends:
  assumes "list_all plain vs" "list_all plain ws" "rooted ws = rooted vs @ slash # r"
  shows "\<exists>us. ws = vs @ us"
proof -
  have "ws \<noteq> []" using assms(3) by (auto simp: rooted_def)
  then have "[] # ws = [] # vs @ segments r"
    using segments_rooted [OF assms(2)] segments_below [OF assms(1), of r] assms(3) by simp
  then show ?thesis by blast
qed

lemma under_prefix:
  assumes "list_all plain vs" "list_all plain ws"
  shows "under (rooted ws) (rooted vs) \<longleftrightarrow> prefix vs ws"
proof
  assume "under (rooted ws) (rooted vs)"
  then consider "rooted ws = rooted vs" | r where "rooted ws = rooted vs @ slash # r"
    by (auto simp: under_def has_prefix_iff)
  then show "prefix vs ws"
    by cases (use assms rooted_inject rooted_extends in \<open>auto simp: prefix_def\<close>)
next
  assume "prefix vs ws"
  then obtain us where us: "ws = vs @ us" by (auto simp: prefix_def)
  show "under (rooted ws) (rooted vs)"
  proof (cases us)
    case Nil
    then show ?thesis by (simp add: us under_def)
  next
    case (Cons u us')
    then have "rooted ws = (rooted vs @ [slash]) @ u @ rooted us'" by (simp add: us rooted_append rooted_def)
    then show ?thesis unfolding under_def has_prefix_iff by blast
  qed
qed

lemma under_clean:
  assumes "has_prefix [slash] u" "has_prefix [slash] e" "segments_of e \<noteq> []"
  shows "under (go_clean u) (go_clean e) \<longleftrightarrow> prefix (segments_of e) (segments_of u)"
proof (cases "segments_of u = []")
  case True
  have "\<not> under [slash] (rooted (segments_of e))"
    using rooted_ends [OF segments_of_plain assms(3)]
    by (cases "rooted (segments_of e)") (auto simp: under_def has_prefix_iff)
  then show ?thesis using assms True by (simp add: clean_rooted)
next
  case False
  then show ?thesis using assms under_prefix [OF segments_of_plain segments_of_plain] by (simp add: clean_rooted)
qed

section \<open>The policy, as the configuration states it\<close>

text \<open>A rooted entry covers the paths whose segments its own start, \<open>/\<close> only the root; any other entry covers none.\<close>

definition covers :: "ustr \<Rightarrow> ustr \<Rightarrow> bool" where
  "covers e u \<longleftrightarrow> has_prefix [slash] e \<and>
     (if segments_of e = [] then segments_of u = [] else prefix (segments_of e) (segments_of u))"

definition listed :: "ustr list \<Rightarrow> ustr list \<Rightarrow> identity \<Rightarrow> bool" where
  "listed users groups i \<longleftrightarrow> id_Name i \<in> set users \<or> set (id_Groups i) \<inter> set groups \<noteq> {}"

definition may :: "auth_config \<Rightarrow> identity \<Rightarrow> ustr \<Rightarrow> bool" where
  "may c i u \<longleftrightarrow>
     (\<forall>z. ac_authz c = Some z \<longrightarrow>
        (zc_users z = [] \<and> zc_groups z = [] \<or> listed (zc_users z) (zc_groups z) i) \<and>
        (\<forall>t \<in> set (zc_routes z). covers (rc_prefix t) u \<longrightarrow> listed (rc_users t) (rc_groups t) i))"

lemma auth_new_parts:
  assumes "auth_new env (Some c) d = Inr (Some a)"
  shows "au_exempt a = map go_clean (exempt_list c d)" "au_authz a = map_option newAuthorization (ac_authz c)"
    "PBasic users \<in> set (au_providers a) \<longleftrightarrow> (\<exists>us. ac_basic c = Some us \<and> users = map_of us)"
  using assms by (auto simp: auth_new_def Let_def split: option.splits sum.splits)

lemma under_covers_rooted:
  assumes "has_prefix [slash] u" "has_prefix [slash] e"
  shows "under (go_clean u) (go_clean e) \<longleftrightarrow> covers e u"
proof (cases "segments_of e = []")
  case True
  have e: "go_clean e = [slash]" using clean_rooted [OF assms(2)] True by simp
  have "segments_of u = []" if u: "under (go_clean u) [slash]"
  proof (rule ccontr)
    assume n: "segments_of u \<noteq> []"
    then have c: "go_clean u = rooted (segments_of u)" using clean_rooted [OF assms(1)] by simp
    obtain w ws where w: "segments_of u = w # ws" using n by (cases "segments_of u") auto
    then have "w \<noteq> []" "slash \<notin> set w" using segments_of_plain [of u] by (simp_all add: plain_def)
    then show False using u unfolding c w by (cases w) (auto simp: under_def rooted_def has_prefix_iff)
  qed
  moreover have "under (go_clean u) [slash]" if "segments_of u = []"
    using clean_rooted [OF assms(1)] that by (simp add: under_def)
  ultimately have "under (go_clean u) [slash] \<longleftrightarrow> segments_of u = []" by blast
  then show ?thesis unfolding e covers_def if_P [OF True] using assms(2) by blast
next
  case False
  then show ?thesis using under_clean [OF assms] assms(2) by (simp add: covers_def)
qed

text \<open>An entry without a slash at its start is cleaned to one without, which no rooted path is under.\<close>

lemma fold_clean_rel: "\<forall>w \<in> set ws. slash \<notin> set w \<Longrightarrow> \<forall>w \<in> set up. w \<noteq> [] \<and> slash \<notin> set w \<Longrightarrow>
    w \<in> set (fold clean_rel_step ws up) \<Longrightarrow> w \<noteq> [] \<and> slash \<notin> set w"
proof (induction ws arbitrary: up)
  case (Cons v ws)
  have "\<forall>w \<in> set (clean_rel_step v up). w \<noteq> [] \<and> slash \<notin> set w"
    using Cons.prems(1,2) by (cases up) (auto simp: clean_rel_step_def simp del: L.simps)
  then show ?case using Cons by simp
qed simp

lemma clean_unrooted:
  assumes "\<not> has_prefix [slash] e"
  shows "\<exists>c s. go_clean e = c # s \<and> c \<noteq> slash"
proof -
  define ws where "ws = rev (fold clean_rel_step (segments e) [])"
  have all: "w \<noteq> [] \<and> slash \<notin> set w" if "w \<in> set ws" for w
    using fold_clean_rel [of "segments e" "[]" w] segments_no_slash that by (auto simp: ws_def)
  have g: "go_clean e = (case ws of [] \<Rightarrow> L ''.'' | _ \<Rightarrow> join [slash] ws)" using assms by (simp add: go_clean_def ws_def split: list.split)
  show ?thesis
  proof (cases ws)
    case Nil
    then show ?thesis unfolding g by simp
  next
    case (Cons w vs)
    then have w: "w \<noteq> []" "slash \<notin> set w" using all by simp_all
    moreover have "\<exists>t. join [slash] ws = w @ t" unfolding Cons by (cases vs) auto
    ultimately show ?thesis unfolding g Cons by (cases w) auto
  qed
qed

lemma under_covers:
  assumes "has_prefix [slash] u"
  shows "under (go_clean u) (go_clean e) \<longleftrightarrow> covers e u"
proof (cases "has_prefix [slash] e")
  case True
  then show ?thesis by (rule under_covers_rooted [OF assms])
next
  case False
  obtain c s where "go_clean e = c # s" "c \<noteq> slash" using clean_unrooted [OF False] by blast
  moreover have "has_prefix [slash] (go_clean u)" using clean_rooted [OF assms] rooted_prefix [of "segments_of u" "[]"] by simp
  ultimately show ?thesis using False by (auto simp: under_def covers_def has_prefix_iff)
qed

lemma exempt_covers:
  assumes "auth_new env (Some c) d = Inr (Some a)" "has_prefix [slash] u"
  shows "exempt a u \<longleftrightarrow> (\<exists>e \<in> set (exempt_list c d). covers e u)"
  using under_covers [OF assms(2)] by (auto simp: exempt_def auth_new_parts(1) [OF assms(1)] list_ex_iff)

text \<open>No rule of a valid configuration is for everyone.\<close>

lemma allows_listed: "us \<noteq> [] \<or> gs \<noteq> [] \<Longrightarrow> allows \<lparr>po_users = us, po_groups = gs\<rparr> i \<longleftrightarrow> listed us gs i"
  by (auto simp: allows_def listed_def list_ex_iff)

lemma allowed_may:
  assumes "auth_new env (Some c) d = Inr (Some a)" "config_valid env c" "has_prefix [slash] u"
  shows "allowed a i u \<longleftrightarrow> may c i u"
proof (cases "ac_authz c")
  case None
  then show ?thesis by (simp add: allowed_def may_def auth_new_parts(2) [OF assms(1)])
next
  case (Some z)
  then have z: "authz_valid z" using assms(2) by (simp add: config_valid_def)
  have "(under (go_clean u) (go_clean (rc_prefix t)) \<longrightarrow> allows \<lparr>po_users = rc_users t, po_groups = rc_groups t\<rparr> i) \<longleftrightarrow>
      (covers (rc_prefix t) u \<longrightarrow> listed (rc_users t) (rc_groups t) i)" if "t \<in> set (zc_routes z)" for t
  proof -
    have "route_valid t" using that z by (simp add: authz_valid_def list_all_iff)
    then show ?thesis using under_covers [OF assms(3)] allows_listed by (simp add: route_valid_def)
  qed
  moreover have "allows \<lparr>po_users = zc_users z, po_groups = zc_groups z\<rparr> i \<longleftrightarrow>
      zc_users z = [] \<and> zc_groups z = [] \<or> listed (zc_users z) (zc_groups z) i"
    using allows_listed [of "zc_users z" "zc_groups z"] by (auto simp: allows_def)
  ultimately show ?thesis
    by (auto simp: allowed_def may_def auth_new_parts(2) [OF assms(1)] Some newAuthorization_def list_all_iff)
qed

section \<open>Properties\<close>

text \<open>
  C22: Exemption and authorization are decided on the segments of the cleaned path, for every valid configuration: a
  rooted path is exempt exactly when the segments of some exempt entry start its own, where the entry \<open>/\<close> exempts
  only the root, although \<open>config.go\<close> promises every path that sits below an entry, and an entry without a slash at
  its start, which nothing refuses, exempts no path; and an identity is allowed exactly when the top-level lists are
  empty or name it and so do the lists of every rule whose segments start the path's. No rule is vacuous, none can
  be escaped by another spelling of the path, and the order of the rules does not matter.
\<close>

theorem policy_by_segments:
  assumes "auth_new env (Some c) d = Inr (Some a)" "config_valid env c" "has_prefix [slash] u"
  shows "(exempt a u \<longleftrightarrow> (\<exists>e \<in> set (exempt_list c d). covers e u)) \<and> (allowed a i u \<longleftrightarrow> may c i u)"
  using exempt_covers [OF assms(1,3)] allowed_may [OF assms] by blast

text \<open>A server with two basic users, whose hashes are their passwords, and one rule.\<close>

definition sample_env :: auth_env where
  "sample_env =
     \<lparr>env_split_host_port = (\<lambda>_. None), env_parse_addr = (\<lambda>_. None), env_parse_prefix = (\<lambda>_. None), env_base64 = Some,
      env_bcrypt = (=), env_is_hash = (\<lambda>_. True), env_sha = map (\<lambda>c. if c = 0 then 1 else c), env_discover = (\<lambda>_. None),
      env_verify_token = (\<lambda>_ _ _. Inl [])\<rparr>"

definition sample_authz :: authz_config where
  "sample_authz =
     \<lparr>zc_users = [], zc_groups = [],
      zc_routes = [\<lparr>rc_prefix = L ''/proxeus/'', rc_users = [L ''root''], rc_groups = []\<rparr>]\<rparr>"

definition sample_auth_config :: auth_config where
  "sample_auth_config =
     \<lparr>ac_exempt = None, ac_trusted = None, ac_basic = Some [(L ''ann'', L ''pw''), (L ''root'', L ''key'')], ac_oidc = None,
      ac_authz = Some sample_authz\<rparr>"

definition sample_auth :: "ustr list \<Rightarrow> authenticator" where
  "sample_auth d =
     \<lparr>au_exempt = map go_clean d, au_providers = [PBasic (map_of [(L ''ann'', L ''pw''), (L ''root'', L ''key'')])],
      au_challenge = L ''Basic realm=\"proxeus\"'',
      au_authz = Some \<lparr>az_policy = \<lparr>po_users = [], po_groups = []\<rparr>,
                       az_routes = [(L ''/proxeus'', \<lparr>po_users = [L ''root''], po_groups = []\<rparr>)]\<rparr>\<rparr>"

lemma go_clean_samples:
  "go_clean (L ''/-/ready'') = L ''/-/ready''" "go_clean (L ''/proxeus/'') = L ''/proxeus''"
  by (simp_all add: go_clean_def path_clean_def clean_segments_def clean_step_def rooted_def)

lemma sample_new: "auth_new sample_env (Some sample_auth_config) d = Inr (Some (sample_auth d))"
  unfolding auth_new_def sample_auth_config_def sample_auth_def sample_authz_def newAuthorization_def exempt_list_def
  by (simp add: go_clean_samples del: L.simps)

lemma sample_valid: "config_valid sample_env sample_auth_config"
  unfolding config_valid_def sample_auth_config_def authz_valid_def sample_authz_def
  by (simp add: basic_valid_def sample_env_def validateNames_def route_valid_def go_clean_samples(2) has_prefix_L del: L.simps) simp_all

theorem policy_by_segments_witness:
  "exempt (sample_auth [L ''/-/ready'']) (L ''/x/../-/ready'') \<and>
   \<not> allowed (sample_auth [L ''/-/ready'']) \<lparr>id_Name = L ''ann'', id_Groups = [], id_Provider = L ''basic''\<rparr> (L ''/x/../proxeus'')"
proof -
  have e: "exempt_list sample_auth_config [L ''/-/ready''] = [L ''/-/ready'']" by (simp add: exempt_list_def sample_auth_config_def)
  have s: "segments_of (L ''/-/ready'') = [L ''-'', L ''ready'']" "segments_of (L ''/x/../-/ready'') = [L ''-'', L ''ready'']"
    "segments_of (L ''/proxeus/'') = [L ''proxeus'']" "segments_of (L ''/x/../proxeus'') = [L ''proxeus'']"
    by (simp_all add: segments_of_def clean_segments_def clean_step_def)
  have p: "has_prefix [slash] (L ''/x/../-/ready'')" "has_prefix [slash] (L ''/x/../proxeus'')"
    "has_prefix [slash] (L ''/-/ready'')" "has_prefix [slash] (L ''/proxeus/'')"
    by simp_all
  have n: "L ''ann'' \<noteq> L ''root''" by simp
  note at = policy_by_segments [OF sample_new sample_valid, where d = "[L ''/-/ready'']"]
  show ?thesis
    using at [OF p(1)] at [OF p(2), where i = "\<lparr>id_Name = L ''ann'', id_Groups = [], id_Provider = L ''basic''\<rparr>"] n
    unfolding e by (simp add: s p covers_def may_def listed_def sample_auth_config_def sample_authz_def del: L.simps)
qed

end
