(* ===== verification/AuthCache.thy ===== *)
theory AuthCache
  imports Auth
begin

text \<open>
  The cache of verified passwords of \<open>pkg/auth/basic.go\<close> over time: what requests and stores leave in it, and
  that no decision depends on it.
\<close>

section \<open>The cache of verified passwords\<close>

text \<open>
  The cache over time: a request is decided with what is in it, and a key its decision has to store is
  stored at some later moment, between other requests.
\<close>

record logins =
  lg_verified :: "ustr set"
  lg_stores :: "ustr list"

datatype login_event = Asked http_request | Stored nat

fun login_step :: "auth_env \<Rightarrow> authenticator \<Rightarrow> login_event \<Rightarrow> logins \<Rightarrow> logins" where
  "login_step env a (Asked r) s =
     (case snd (middleware env a (lg_verified s) r) of None \<Rightarrow> s | Some key \<Rightarrow> s\<lparr>lg_stores := lg_stores s @ [key]\<rparr>)"
| "login_step env a (Stored i) s =
     (if i < length (lg_stores s)
      then s\<lparr>lg_verified := insert (lg_stores s ! i) (lg_verified s),
             lg_stores := take i (lg_stores s) @ drop (Suc i) (lg_stores s)\<rparr>
      else s)"

definition no_logins :: logins where
  "no_logins = \<lparr>lg_verified = {}, lg_stores = []\<rparr>"

fun asked :: "login_event \<Rightarrow> http_request list" where
  "asked (Asked r) = [r]"
| "asked (Stored i) = []"

definition passwords :: "auth_env \<Rightarrow> http_request list \<Rightarrow> ustr set" where
  "passwords env rs = {p. \<exists>r \<in> set rs. \<exists>u. BasicAuth env r = Some (u, p)}"

text \<open>Hashes and sums are texts without a zero, which separates them in a key.\<close>

definition keys_separate :: "auth_env \<Rightarrow> authenticator \<Rightarrow> bool" where
  "keys_separate env a \<longleftrightarrow>
     (\<forall>users u h. PBasic users \<in> set (au_providers a) \<longrightarrow> users u = Some h \<longrightarrow> 0 \<notin> set h) \<and> (\<forall>p. 0 \<notin> set (env_sha env p))"

definition good_key :: "auth_env \<Rightarrow> authenticator \<Rightarrow> ustr set \<Rightarrow> ustr \<Rightarrow> bool" where
  "good_key env a P key \<longleftrightarrow>
     (\<exists>users u h p. PBasic users \<in> set (au_providers a) \<and> users u = Some h \<and> p \<in> P \<and> env_bcrypt env h p \<and>
        key = verify_key env u h p)"

lemma split_last_zero:
  assumes "A @ [0] @ s = A' @ [0] @ s'" "0 \<notin> set s" "0 \<notin> set s'"
  shows "A = A'" "s = (s' :: ustr)"
proof -
  have t: "takeWhile (\<lambda>c. c \<noteq> 0) (rev (B @ [0] @ t)) = rev t" if "0 \<notin> set t" for B t :: ustr
    using that takeWhile_append2 [of "rev t" "\<lambda>c. c \<noteq> 0" "0 # rev B"] by fastforce
  have "rev s = rev s'" unfolding t [OF assms(2), of A, symmetric] t [OF assms(3), of A', symmetric] assms(1) ..
  then show "s = s'" by simp
  then show "A = A'" using assms(1) by simp
qed

lemma verify_key_inject:
  assumes "verify_key env u h p = verify_key env u' h' p'" "0 \<notin> set h" "0 \<notin> set h'" "\<forall>p. 0 \<notin> set (env_sha env p)"
  shows "h = h' \<and> env_sha env p = env_sha env p' \<and> u = u'"
proof -
  have e: "(u @ [0] @ h) @ [0] @ env_sha env p = (u' @ [0] @ h') @ [0] @ env_sha env p'"
    using assms(1) by (simp add: verify_key_def)
  have z: "0 \<notin> set (env_sha env p)" "0 \<notin> set (env_sha env p')" using assms(4) by simp_all
  note outer = split_last_zero [OF e z]
  show ?thesis using split_last_zero [OF outer(1) assms(2,3)] outer(2) by simp
qed

text \<open>One provider answers as it would without the cache, and stores only what it has checked.\<close>

lemma basic_cached:
  assumes keys: "keys_separate env a" and good: "\<forall>k \<in> verified. good_key env a P k"
    and inj: "inj_on (env_sha env) (P \<union> passwords env [r])" and users: "PBasic users \<in> set (au_providers a)"
  shows "fst (basic_authenticate env users verified r) = fst (basic_authenticate env users {} r)"
    "\<forall>k. snd (basic_authenticate env users verified r) = Some k \<longrightarrow> good_key env a (P \<union> passwords env [r]) k"
proof -
  have hit: "env_bcrypt env h p" if "verify_key env u h p \<in> verified" "users u = Some h" "BasicAuth env r = Some (u, p)" for u h p
  proof -
    have g: "good_key env a P (verify_key env u h p)" using good that(1) by simp
    obtain users' u' h' p' where k: "PBasic users' \<in> set (au_providers a)" "users' u' = Some h'" "p' \<in> P"
      "env_bcrypt env h' p'" "verify_key env u h p = verify_key env u' h' p'"
      using g unfolding good_key_def by (elim exE conjE) (rule that)
    have "0 \<notin> set h" "0 \<notin> set h'" "\<forall>p. 0 \<notin> set (env_sha env p)"
      using keys users that(2) k(1,2) unfolding keys_separate_def by blast+
    from verify_key_inject [OF k(5) this] have "h = h'" "env_sha env p = env_sha env p'" by simp_all
    moreover have "p \<in> passwords env [r]" using that(3) by (auto simp: passwords_def)
    ultimately have "p = p'" using inj_onD [OF inj, of p p'] k(3) by simp
    then show ?thesis using k(4) \<open>h = h'\<close> by simp
  qed
  have p: "p \<in> passwords env [r]" if "BasicAuth env r = Some (u, p)" for u p using that by (auto simp: passwords_def)
  let ?same = "fst (basic_authenticate env users verified r) = fst (basic_authenticate env users {} r)"
  let ?kept = "\<forall>k. snd (basic_authenticate env users verified r) = Some k \<longrightarrow> good_key env a (P \<union> passwords env [r]) k"
  have "?same \<and> ?kept"
  proof (cases "credentials r (L ''Basic'') = None \<or> BasicAuth env r = None \<or> users (fst (the (BasicAuth env r))) = None")
    case True
    then show ?thesis by (cases "BasicAuth env r") (auto simp: basic_authenticate_def simp del: L.simps)
  next
    case False
    then obtain u q where u: "BasicAuth env r = Some (u, q)" by (cases "BasicAuth env r") auto
    then obtain h where c: "credentials r (L ''Basic'') \<noteq> None" "BasicAuth env r = Some (u, q)" "users u = Some h"
      using False by (cases "users u") (simp_all del: L.simps not_None_eq)
    note step = basic_authenticate_def basic_verify_def Let_def c
    show ?thesis
    proof (cases "verify_key env u h q \<in> verified")
      case True
      then show ?thesis using hit [OF True c(3,2)] by (simp add: step del: L.simps)
    next
      case miss: False
      have "good_key env a (P \<union> passwords env [r]) (verify_key env u h q)" if "env_bcrypt env h q"
        using users c(3) p [OF c(2)] that unfolding good_key_def by blast
      then show ?thesis using miss by (simp add: step del: L.simps)
    qed
  qed
  then show ?same ?kept by simp_all
qed

lemma chain_cached:
  assumes keys: "keys_separate env a" and good: "\<forall>k \<in> verified. good_key env a P k"
    and inj: "inj_on (env_sha env) (P \<union> passwords env [r])" and ps: "set ps \<subseteq> set (au_providers a)"
  shows "fst (run_chain env verified ps r) = fst (run_chain env {} ps r) \<and>
    (\<forall>k. snd (run_chain env verified ps r) = Some k \<longrightarrow> good_key env a (P \<union> passwords env [r]) k)"
  using ps
proof (induction ps)
  case (Cons p ps)
  then have p: "p \<in> set (au_providers a)" by simp
  have "fst (authenticate env verified p r) = fst (authenticate env {} p r) \<and>
    (\<forall>k. snd (authenticate env verified p r) = Some k \<longrightarrow> good_key env a (P \<union> passwords env [r]) k)"
  proof (cases p)
    case (PBasic users)
    then show ?thesis using basic_cached [OF keys good inj, of users] p by simp
  qed simp_all
  with Cons show ?case by (simp add: Let_def)
qed simp

lemma middleware_cached:
  assumes "keys_separate env a" "\<forall>k \<in> verified. good_key env a P k" "inj_on (env_sha env) (P \<union> passwords env [r])"
  shows "fst (middleware env a verified r) = fst (middleware env a {} r)"
    "snd (middleware env a verified r) = Some k \<Longrightarrow> good_key env a (P \<union> passwords env [r]) k"
  using chain_cached [OF assms subset_refl]
  by (cases "run_chain env verified (au_providers a) r"; cases "run_chain env {} (au_providers a) r";
      cases "fst (run_chain env {} (au_providers a) r)"; simp add: middleware_def split: if_splits)+

lemma good_key_mono: "good_key env a P k \<Longrightarrow> P \<subseteq> Q \<Longrightarrow> good_key env a Q k"
  unfolding good_key_def by blast

lemma passwords_append: "passwords env (rs @ rs') = passwords env rs \<union> passwords env rs'"
  by (auto simp: passwords_def)

lemma good_keys_kept:
  assumes "keys_separate env a" "inj_on (env_sha env) (passwords env (concat (map asked es)))"
  shows "\<forall>k \<in> lg_verified (fold (login_step env a) es no_logins) \<union> set (lg_stores (fold (login_step env a) es no_logins)).
    good_key env a (passwords env (concat (map asked es))) k"
  using assms(2)
proof (induction es rule: rev_induct)
  case Nil
  then show ?case by (simp add: no_logins_def)
next
  case (snoc e es)
  define s where "s = fold (login_step env a) es no_logins"
  define P where "P = passwords env (concat (map asked es))"
  have inj: "inj_on (env_sha env) (P \<union> passwords env (asked e))"
    using snoc.prems by (simp add: P_def passwords_append)
  have IH: "\<forall>k \<in> lg_verified s \<union> set (lg_stores s). good_key env a P k"
    using snoc.IH inj_on_subset [OF inj] by (simp add: s_def P_def)
  let ?Q = "P \<union> passwords env (asked e)"
  have old: "\<forall>k \<in> lg_verified s \<union> set (lg_stores s). good_key env a ?Q k"
    using IH good_key_mono [of env a P _ ?Q] by blast
  have "\<forall>k \<in> lg_verified (login_step env a e s) \<union> set (lg_stores (login_step env a e s)). good_key env a ?Q k"
  proof (cases e)
    case (Asked r)
    have "\<forall>k \<in> lg_verified s. good_key env a P k" using IH by blast
    note new = middleware_cached(2) [OF assms(1) this, of r]
    show ?thesis using old new inj Asked by (auto split: option.split)
  next
    case (Stored i)
    then show ?thesis using old by (auto dest: in_set_takeD in_set_dropD)
  qed
  then show ?case by (simp add: s_def P_def passwords_append)
qed

lemma good_keys_card:
  assumes "\<forall>k \<in> K. good_key env a P k" "auth_new env (Some c) d = Inr (Some a)"
    and "\<forall>h p q. env_bcrypt env h p \<longrightarrow> env_bcrypt env h q \<longrightarrow> p = q"
  shows "card K \<le> (case ac_basic c of None \<Rightarrow> 0 | Some us \<Rightarrow> length us)"
proof (cases "ac_basic c")
  case None
  then have "K = {}" using assms(1) auth_new_parts(3) [OF assms(2)] by (auto simp: good_key_def)
  then show ?thesis by simp
next
  case (Some us)
  let ?key = "\<lambda>u. verify_key env u (the (map_of us u)) (THE p. env_bcrypt env (the (map_of us u)) p)"
  have "k \<in> ?key ` set (map fst us)" if "k \<in> K" for k
  proof -
    have "good_key env a P k" using assms(1) that by blast
    then obtain u h p where k: "map_of us u = Some h" "env_bcrypt env h p" "k = verify_key env u h p"
      using auth_new_parts(3) [OF assms(2)] Some unfolding good_key_def by auto
    have "(THE p. env_bcrypt env h p) = p" using k(2) assms(3) by blast
    moreover have "u \<in> set (map fst us)" using map_of_SomeD [OF k(1)] by force
    ultimately have "k = ?key u" "u \<in> set (map fst us)" using k by simp_all
    then show ?thesis by blast
  qed
  then have "card K \<le> card (?key ` set (map fst us))" by (intro card_mono) auto
  also have "\<dots> \<le> card (set (map fst us))" by (rule card_image_le) simp
  also have "\<dots> \<le> length us" using card_length [of "map fst us"] by simp
  finally show ?thesis using Some by simp
qed

section \<open>Properties\<close>

text \<open>
  C33: The cache of verified passwords changes no decision: whatever requests came before, in whatever order the
  keys they earned were stored, a request is answered as it would be with an empty cache, so a wrong password
  is never let in by an earlier right one. This needs what the code relies on: hashes and sums
  without a zero character, and passwords that differ having different sums. If moreover a hash fits one
  password only, the cache holds at most one entry per configured user.
\<close>

theorem cached_logins_sound:
  assumes "auth_new env (Some c) d = Inr (Some a)" "keys_separate env a"
    and "inj_on (env_sha env) (passwords env (concat (map asked es) @ [r]))"
  shows "let s = fold (login_step env a) es no_logins in
    fst (middleware env a (lg_verified s) r) = fst (middleware env a {} r) \<and>
    ((\<forall>h p q. env_bcrypt env h p \<longrightarrow> env_bcrypt env h q \<longrightarrow> p = q) \<longrightarrow>
     card (lg_verified s) \<le> (case ac_basic c of None \<Rightarrow> 0 | Some us \<Rightarrow> length us))"
proof -
  define s where "s = fold (login_step env a) es no_logins"
  define P where "P = passwords env (concat (map asked es))"
  have inj: "inj_on (env_sha env) (P \<union> passwords env [r])" using assms(3) by (simp add: P_def passwords_append)
  have good: "\<forall>k \<in> lg_verified s. good_key env a P k"
    using good_keys_kept [OF assms(2), of es] inj_on_subset [OF inj] by (simp add: s_def P_def)
  have "card (lg_verified s) \<le> (case ac_basic c of None \<Rightarrow> 0 | Some us \<Rightarrow> length us)"
    if "\<forall>h p q. env_bcrypt env h p \<longrightarrow> env_bcrypt env h q \<longrightarrow> p = q"
    by (rule good_keys_card [OF good assms(1) that])
  then show ?thesis
    using middleware_cached(1) [OF assms(2) good inj] unfolding Let_def s_def [symmetric] by blast
qed

definition login :: "ustr \<Rightarrow> http_request" where
  "login cs =
     \<lparr>hr_method = L ''GET'', hr_path = L ''/backends'', hr_raw = [],
      hr_header = (\<lambda>h. if h = L ''Authorization'' then L ''Basic '' @ cs else []), hr_remote = []\<rparr>"

lemma login_BasicAuth:
  "BasicAuth sample_env (login (L ''ann:pw'')) = Some (L ''ann'', L ''pw'')"
  "BasicAuth sample_env (login (L ''ann:no'')) = Some (L ''ann'', L ''no'')"
  by (simp_all add: BasicAuth_def credentials_def login_def sample_env_def ascii_lower_def)

theorem cached_logins_sound_witness:
  "let s = fold (login_step sample_env (sample_auth [])) [Asked (login (L ''ann:pw'')), Stored 0] no_logins in
     fst (middleware sample_env (sample_auth []) (lg_verified s) (login (L ''ann:no''))) =
     fst (middleware sample_env (sample_auth []) {} (login (L ''ann:no'')))"
proof -
  have "keys_separate sample_env (sample_auth [])"
    unfolding keys_separate_def sample_env_def sample_auth_def by (auto simp: ch_def split: if_splits)
  moreover have "passwords sample_env (concat (map asked [Asked (login (L ''ann:pw'')), Stored 0]) @ [login (L ''ann:no'')]) =
      {L ''pw'', L ''no''}"
    unfolding passwords_def using login_BasicAuth by (auto simp del: L.simps)
  moreover have "inj_on (env_sha sample_env) {L ''pw'', L ''no''}" by (simp add: sample_env_def ch_def)
  ultimately show ?thesis
    using cached_logins_sound [OF sample_new [of "[]"], of "[Asked (login (L ''ann:pw'')), Stored 0]" "login (L ''ann:no'')"]
    unfolding Let_def by metis
qed

end
