(* ===== verification/Escaping.thy ===== *)
theory Escaping
  imports UiRoutes "HOL-Library.Sublist"
begin

text \<open>
  Paths as they arrive: the escaping of \<open>net/url\<close> and the way \<open>http.ServeMux\<close> matches an escaped path, segment by
  segment and for every method, with the agreement of both with the plain paths of \<open>UiRoutes\<close>. Go
  strings are sequences of bytes here.
\<close>

section \<open>Escaped paths\<close>

text \<open>\<open>net/url\<close>: a request's path is the decoded one; the escaped one is kept when it is not the usual escaping.\<close>

definition alphanumeric :: "cu \<Rightarrow> bool" where
  "alphanumeric c \<longleftrightarrow> 0x30 \<le> c \<and> c \<le> 0x39 \<or> 0x41 \<le> c \<and> c \<le> 0x5A \<or> 0x61 \<le> c \<and> c \<le> 0x7A"

definition path_char :: "cu \<Rightarrow> bool" where
  "path_char c \<longleftrightarrow> alphanumeric c \<or> c \<in> set (L ''-_.~$&+,/:;=@'')"

definition raw_char :: "cu \<Rightarrow> bool" where
  "raw_char c \<longleftrightarrow> path_char c \<or> c \<in> set (L ''!()*[]%'') \<or> c = 0x27"

definition upper_hex :: "cu \<Rightarrow> cu" where
  "upper_hex n = (if n < 10 then 0x30 + n else 0x37 + n)"

definition unhex :: "cu \<Rightarrow> cu option" where
  "unhex c =
     (if 0x30 \<le> c \<and> c \<le> 0x39 then Some (c - 0x30)
      else if 0x41 \<le> c \<and> c \<le> 0x46 then Some (c - 0x37)
      else if 0x61 \<le> c \<and> c \<le> 0x66 then Some (c - 0x57) else None)"

abbreviation percent :: cu where
  "percent \<equiv> ch (CHR ''%'')"

definition escape_byte :: "cu \<Rightarrow> ustr" where
  "escape_byte c = (if path_char c then [c] else [percent, upper_hex (c div 16), upper_hex (c mod 16)])"

definition escape_path :: "ustr \<Rightarrow> ustr" where
  "escape_path s = concat (map escape_byte s)"

fun unescape_path :: "ustr \<Rightarrow> ustr option" where
  "unescape_path [] = Some []"
| "unescape_path (c # s) =
     (if c \<noteq> percent then map_option ((#) c) (unescape_path s)
      else (case s of
              h # l # t \<Rightarrow>
                (case (unhex h, unhex l) of
                   (Some x, Some y) \<Rightarrow> map_option ((#) (16 * x + y)) (unescape_path t)
                 | _ \<Rightarrow> None)
            | _ \<Rightarrow> None))"

definition setPath :: "ustr \<Rightarrow> (ustr \<times> ustr) option" where
  "setPath t = map_option (\<lambda>p. (p, if escape_path p = t then [] else t)) (unescape_path t)"

definition EscapedPath :: "ustr \<Rightarrow> ustr \<Rightarrow> ustr" where
  "EscapedPath path raw =
     (if raw \<noteq> [] \<and> list_all raw_char raw \<and> unescape_path raw = Some path then raw
      else if path = L ''*'' then path else escape_path path)"

section \<open>The multiplexer, by segments\<close>

text \<open>
  \<open>http.ServeMux\<close> with patterns for GET (and so HEAD), on the escaped path: it is cleaned as it stands, then its
  segments are decoded one by one. Where a redirect leads is left to \<open>UiRoutes\<close>.
\<close>

datatype 'h mux_reply = MuxHandled 'h | MuxMoved | MethodNotAllowed | MuxNotFound

definition mux_segments :: "ustr \<Rightarrow> ustr list" where
  "mux_segments e = map (\<lambda>s. case unescape_path s of None \<Rightarrow> s | Some t \<Rightarrow> t) (segments e)"

definition seg_matches :: "ustr list \<Rightarrow> ustr \<Rightarrow> bool" where
  "seg_matches ws p \<longleftrightarrow> segments p = ws \<or> last p = slash \<and> strict_prefix (butlast (segments p)) ws"

definition seg_match :: "(ustr \<times> 'h) list \<Rightarrow> ustr \<Rightarrow> (ustr \<times> 'h) option" where
  "seg_match ps e = longest (filter (seg_matches (mux_segments e) \<circ> fst) ps)"

definition seg_exact :: "(ustr \<times> 'h) list \<Rightarrow> ustr \<Rightarrow> bool" where
  "seg_exact ps e = (case seg_match ps e of None \<Rightarrow> False | Some (p, h) \<Rightarrow> segments p = mux_segments e)"

definition refused :: "(ustr \<times> 'h) list \<Rightarrow> ustr \<Rightarrow> 'h mux_reply" where
  "refused ps e =
     (if seg_match ps e \<noteq> None \<or> last e \<noteq> slash \<and> seg_match ps (e @ [slash]) \<noteq> None then MethodNotAllowed
      else MuxNotFound)"

definition findHandler :: "(ustr \<times> 'h) list \<Rightarrow> ustr \<Rightarrow> ustr \<Rightarrow> 'h mux_reply" where
  "findHandler ps method e =
     (if method = L ''CONNECT'' then refused ps e
      else (let c = cleanPath e
            in if method \<in> {L ''GET'', L ''HEAD''} then
                 (if \<not> seg_exact ps c \<and> last c \<noteq> slash \<and> seg_exact ps (c @ [slash]) then MuxMoved
                  else if c \<noteq> e then MuxMoved
                  else (case seg_match ps c of None \<Rightarrow> MuxNotFound | Some (p, h) \<Rightarrow> MuxHandled h))
               else if c \<noteq> e then MuxMoved
               else refused ps c))"

section \<open>Escaping\<close>

text \<open>Bytes are below 256.\<close>

definition bytes :: "ustr \<Rightarrow> bool" where
  "bytes s \<longleftrightarrow> list_all (\<lambda>c. c < 0x100) s"

lemma unhex_upper:
  assumes "n < 16"
  shows "unhex (upper_hex n) = Some n"
proof -
  have "unat n < 16" using assms by (simp add: word_less_nat_alt)
  then have "unat (0x30 + n) = 48 + unat n" "unat (0x37 + n) = 55 + unat n" by (simp_all add: unat_word_ariths)
  then show ?thesis
    using \<open>unat n < 16\<close> by (auto simp: unhex_def upper_hex_def word_le_nat_alt word_less_nat_alt)
qed

lemma hex_parts:
  assumes "(c :: cu) < 0x100"
  shows "c div 16 < 16" "c mod 16 < 16" "16 * (c div 16) + c mod 16 = c"
proof -
  have "unat c div 16 < 16" using assms by (simp add: word_less_nat_alt less_mult_imp_div_less)
  then show "c div 16 < 16" "c mod 16 < 16" by (simp_all add: word_less_nat_alt unat_div unat_mod)
  show "16 * (c div 16) + c mod 16 = c" by (rule mult_div_mod_eq)
qed

lemma path_char_percent: "\<not> path_char percent"
  by (simp add: path_char_def alphanumeric_def) (simp add: ch_def)

lemma unescape_byte: "c < 0x100 \<Longrightarrow> unescape_path (escape_byte c @ s) = map_option ((#) c) (unescape_path s)"
  using path_char_percent hex_parts [of c] by (auto simp: escape_byte_def unhex_upper)

lemma unescape_escape: "bytes s \<Longrightarrow> unescape_path (escape_path s) = Some s"
  by (induction s) (simp_all add: escape_path_def bytes_def unescape_byte)

lemma unescape_EscapedPath: "bytes path \<Longrightarrow> unescape_path (EscapedPath path raw) = Some path"
  by (auto simp: EscapedPath_def unescape_escape)

lemma unescape_percent:
  assumes "unescape_path (percent # s) = Some t"
  obtains h l s' x y u where "s = h # l # s'" "unhex h = Some x" "unhex l = Some y" "unescape_path s' = Some u"
    "t = (16 * x + y) # u"
proof -
  obtain h l s' where s: "s = h # l # s'" using assms by (cases s; cases "tl s") simp_all
  obtain x y where x: "unhex h = Some x" "unhex l = Some y"
    using assms unfolding s by (cases "unhex h"; cases "unhex l") simp_all
  obtain u where "unescape_path s' = Some u" "t = (16 * x + y) # u" using assms unfolding s by (auto simp: x)
  then show thesis using s x that by blast
qed

lemma join_Cons: "ws \<noteq> [] \<Longrightarrow> join sep (w # ws) = w @ sep @ join sep ws"
  by (cases ws) simp_all

lemma split_on_Nil: "split_on c s \<noteq> []"
  by (cases s) (simp_all split: list.split)

lemma unhex_slash: "unhex slash = None"
  by (simp add: unhex_def ch_def)

lemma join_head: "join sep ((c # w) # ws) = c # join sep (w # ws)"
  by (cases ws) simp_all

text \<open>Decoding a path decodes its segments, and joins them: an encoded slash stays in its segment.\<close>

lemma unescape_segments:
  "unescape_path e = Some p \<Longrightarrow> join [slash] (mux_segments e) = p \<and> None \<notin> set (map unescape_path (segments e))"
proof (induction e arbitrary: p rule: unescape_path.induct)
  case 1
  then show ?case by (simp add: mux_segments_def)
next
  case (2 c s)
  have split: "\<exists>w ws. segments t = w # ws" for t using split_on_Nil [of slash t] by (cases "segments t") auto
  show ?case
  proof (cases "c = percent")
    case False
    then obtain u where u: "unescape_path s = Some u" "p = c # u" using 2(3) by auto
    obtain w ws where w: "segments s = w # ws" using split by blast
    note IH = 2(1) [OF False u(1)]
    show ?thesis using IH u(2) w False by (auto simp: mux_segments_def join_Cons join_head split: option.splits)
  next
    case True
    then have "unescape_path (percent # s) = Some p" using 2(3) by simp
    then obtain h l t x y u where u: "s = h # l # t" "unhex h = Some x" "unhex l = Some y" "unescape_path t = Some u"
      "p = (16 * x + y) # u"
      by (rule unescape_percent)
    obtain w ws where w: "segments t = w # ws" using split by blast
    have "h \<noteq> slash" "l \<noteq> slash" "percent \<noteq> slash" using u(2,3) unhex_slash by (auto simp: ch_def)
    then have cs: "segments (c # s) = (percent # h # l # w) # ws" using w True u(1) by simp
    have IH: "join [slash] (mux_segments t) = u \<and> None \<notin> set (map unescape_path (segments t))"
      by (rule 2(2)) (use True u in auto)
    then obtain v where "unescape_path w = Some v" using w by (cases "unescape_path w") simp_all
    then show ?thesis
      using IH u(2,3) w unfolding mux_segments_def cs u(5) by (auto simp: join_head)
  qed
qed

lemma join_split: "join [c] (split_on c s) = s"
proof (induction s)
  case (Cons x s)
  obtain w ws where "split_on c s = w # ws" using split_on_Nil [of c s] by (cases "split_on c s") auto
  then show ?case using Cons by (simp add: join_Cons join_head)
qed simp

lemma segments_word_append:
  "slash \<notin> set x \<Longrightarrow> segments (x @ t) = (x @ hd (segments t)) # tl (segments t)"
proof (induction x)
  case Nil
  then show ?case using split_on_Nil [of slash t] by (cases "segments t") simp_all
qed auto

lemma upper_hex_slash: "n < 16 \<Longrightarrow> upper_hex n \<noteq> slash"
  using unhex_upper [of n] unhex_slash by auto

lemma path_char_slash: "path_char slash"
  by (simp add: path_char_def)

lemma escape_byte_slash: "c < 0x100 \<Longrightarrow> c \<noteq> slash \<Longrightarrow> slash \<notin> set (escape_byte c)"
  using upper_hex_slash [OF hex_parts(1), of c] upper_hex_slash [OF hex_parts(2), of c] by (auto simp: escape_byte_def ch_def)

lemma escape_slash: "escape_byte slash = [slash]"
  by (simp add: escape_byte_def path_char_slash)

lemma escape_simps:
  "escape_path [] = []" "escape_path (c # s) = escape_byte c @ escape_path s" "escape_path (s @ t) = escape_path s @ escape_path t"
  "bytes []" "bytes (c # s) \<longleftrightarrow> c < 0x100 \<and> bytes s" "bytes (s @ t) \<longleftrightarrow> bytes s \<and> bytes t"
  by (simp_all add: escape_path_def bytes_def)

lemma segments_escape: "bytes s \<Longrightarrow> segments (escape_path s) = map escape_path (segments s)"
proof (induction s)
  case (Cons c s)
  then have IH: "segments (escape_path s) = map escape_path (segments s)" "c < 0x100" by (simp_all add: escape_simps)
  obtain w ws where w: "segments s = w # ws" using split_on_Nil [of slash s] by (cases "segments s") auto
  show ?case
  proof (cases "c = slash")
    case True
    then show ?thesis using IH by (simp add: escape_simps escape_slash)
  next
    case False
    then show ?thesis
      using IH w segments_word_append [OF escape_byte_slash [OF IH(2) False], of "escape_path s"]
      by (simp add: escape_simps)
  qed
qed (simp add: escape_simps)

lemma bytes_segments: "bytes s \<Longrightarrow> w \<in> set (segments s) \<Longrightarrow> bytes w"
  by (induction s arbitrary: w) (auto simp: escape_simps split: if_splits list.splits)

lemma mux_segments_escape: "bytes s \<Longrightarrow> mux_segments (escape_path s) = segments s"
  unfolding mux_segments_def
  by (simp add: segments_escape) (rule map_idI, simp add: unescape_escape bytes_segments)

lemma escape_inject: "bytes s \<Longrightarrow> bytes t \<Longrightarrow> escape_path s = escape_path t \<longleftrightarrow> s = t"
  using unescape_escape by (metis option.inject)

lemma escape_dots: "escape_path (L ''.'') = L ''.''" "escape_path (L ''..'') = L ''..''" "bytes (L s)"
proof -
  have "path_char (ch (CHR ''.''))" by (simp add: path_char_def)
  then show "escape_path (L ''.'') = L ''.''" "escape_path (L ''..'') = L ''..''"
    by (simp_all add: escape_path_def escape_byte_def)
  show "bytes (L s)" by (induction s) (simp_all add: escape_simps word_less_nat_alt ch_less)
qed

lemma clean_escape:
  "\<forall>w \<in> set ws. bytes w \<Longrightarrow> \<forall>w \<in> set up. bytes w \<Longrightarrow>
   fold clean_step (map escape_path ws) (map escape_path up) = map escape_path (fold clean_step ws up)"
proof (induction ws arbitrary: up)
  case (Cons w ws)
  have w: "escape_path w = [] \<longleftrightarrow> w = []" "escape_path w = L ''.'' \<longleftrightarrow> w = L ''.''" "escape_path w = L ''..'' \<longleftrightarrow> w = L ''..''"
    using escape_inject [of w "[]"] escape_inject [of w "L ''.''"] escape_inject [of w "L ''..''"] Cons.prems(1) escape_dots
    by (simp_all add: escape_simps del: L.simps)
  have "clean_step (escape_path w) (map escape_path up) = map escape_path (clean_step w up)"
    by (simp add: clean_step_def w drop_map del: L.simps)
  moreover have "\<forall>v \<in> set (clean_step w up). bytes v"
    using Cons.prems by (auto simp: clean_step_def dest: in_set_dropD)
  ultimately show ?case using Cons by simp
qed simp

lemma rooted_escape: "rooted (map escape_path ws) = escape_path (rooted ws)"
  by (induction ws) (simp_all add: rooted_def escape_simps escape_slash)

lemma last_escape: "bytes s \<Longrightarrow> last (escape_path s) = slash \<longleftrightarrow> last s = slash"
proof (cases s rule: rev_cases)
  case (snoc t c)
  assume "bytes s"
  then have "c < 0x100" using snoc by (simp add: escape_simps)
  then show ?thesis
    using upper_hex_slash hex_parts [of c] path_char_slash by (auto simp: snoc escape_simps escape_byte_def)
qed (simp add: escape_simps)

section \<open>The multiplexer again\<close>

lemma bytes_rooted: "\<forall>w \<in> set ws. bytes w \<Longrightarrow> bytes (rooted ws)"
  using escape_dots(3) [of "''/''"] by (induction ws) (simp_all add: rooted_def escape_simps)

lemma clean_subset: "set (fold clean_step ws up) \<subseteq> set ws \<union> set up"
proof (induction ws arbitrary: up)
  case (Cons w ws)
  have "set (clean_step w up) \<subseteq> insert w (set up)" by (auto simp: clean_step_def dest: in_set_dropD)
  then show ?case using Cons [of "clean_step w up"] by auto
qed simp

text \<open>Cleaning and escaping commute, since escaping keeps slashes and dots.\<close>

lemma cleanPath_escape:
  assumes "bytes p" "has_prefix [slash] p"
  shows "cleanPath (escape_path p) = escape_path (cleanPath p) \<and> bytes (cleanPath p)"
proof -
  define ws where "ws = clean_segments (segments p)"
  have b: "\<forall>w \<in> set (segments p). bytes w" using bytes_segments [OF assms(1)] by blast
  then have bw: "\<forall>w \<in> set ws. bytes w"
    using clean_subset [of "segments p" "[]"] by (auto simp: ws_def clean_segments_def)
  have sl: "bytes [slash]" using escape_dots(3) [of "''/''"] by simp
  have "clean_segments (segments (escape_path p)) = map escape_path ws"
    using clean_escape [of "segments p" "[]"] b
    by (simp add: ws_def clean_segments_def segments_escape [OF assms(1)] rev_map)
  then have c: "path_clean (escape_path p) = escape_path (path_clean p)" "bytes (path_clean p)"
    using rooted_escape [of ws] bytes_rooted [OF bw] sl
    by (auto simp: path_clean_def ws_def [symmetric] escape_simps escape_slash split: list.split)
  obtain p' where "p = slash # p'" using assms(2) by (auto simp: has_prefix_iff)
  then have pre: "has_prefix [slash] (escape_path p)" by (simp add: escape_simps escape_slash)
  have "path_clean (escape_path p) = [slash] \<longleftrightarrow> path_clean p = [slash]"
    using escape_inject [OF c(2) sl] c(1) by (simp add: escape_simps escape_slash)
  then show ?thesis
    using pre assms(2) last_escape [OF assms(1)] c sl
    by (simp add: cleanPath_def Let_def escape_simps escape_slash)
qed

lemma segments_inject: "segments p = segments q \<longleftrightarrow> p = q"
  using join_split [of slash] by metis

lemma split_below: "split_on c (s @ c # t) = split_on c s @ split_on c t"
  by (induction s) (auto split: list.split simp: split_on_Nil)

lemma split_snoc: "split_on c (s @ [c]) = split_on c s @ [[]]"
  using split_below [of c s "[]"] by simp

lemma join_append: "vs \<noteq> [] \<Longrightarrow> ws \<noteq> [] \<Longrightarrow> join sep (vs @ ws) = join sep vs @ sep @ join sep ws"
  by (induction vs rule: induct_list012) (simp_all add: join_Cons)

text \<open>On decoded segments, patterns match as they match a path of those segments.\<close>

lemma seg_matches_path: "seg_matches (segments q) p \<longleftrightarrow> matches q p"
proof (cases "last p = slash \<and> p \<noteq> []")
  case True
  then obtain v where v: "p = v @ [slash]" by (metis append_butlast_last_id)
  have "butlast (segments p) = segments v" by (simp add: v split_snoc)
  moreover have "strict_prefix (segments v) (segments q) \<longleftrightarrow> has_prefix p q"
    unfolding v
  proof
    assume "strict_prefix (segments v) (segments q)"
    then obtain w ws where w: "segments q = segments v @ w # ws" by (auto elim: strict_prefixE')
    then have "q = v @ [slash] @ join [slash] (w # ws)"
      using join_append [OF split_on_Nil, of "w # ws" "[slash]" slash v] join_split [of slash q] join_split [of slash v] by simp
    then show "has_prefix (v @ [slash]) q" by (simp add: has_prefix_iff)
  next
    assume "has_prefix (v @ [slash]) q"
    then obtain t where "q = v @ slash # t" by (auto simp: has_prefix_iff)
    then show "strict_prefix (segments v) (segments q)"
      using split_on_Nil [of slash t] by (cases "segments t") (auto simp: split_below intro: strict_prefixI')
  qed
  ultimately show ?thesis by (auto simp: seg_matches_def matches_def segments_inject)
next
  case False
  have "strict_prefix [] (segments q)" using split_on_Nil [of slash q] by (cases "segments q") simp_all
  with False show ?thesis by (auto simp: seg_matches_def matches_def segments_inject)
qed

lemma seg_match_escape: "bytes q \<Longrightarrow> seg_match ps (escape_path q) = mux_match ps q"
proof -
  assume q: "bytes q"
  have "seg_matches (segments q) \<circ> fst = matches q \<circ> (fst :: ustr \<times> 'a \<Rightarrow> ustr)"
    by (simp add: fun_eq_iff seg_matches_path)
  then show ?thesis by (simp add: seg_match_def mux_match_def mux_segments_escape [OF q])
qed

lemma seg_exact_escape: "bytes q \<Longrightarrow> seg_exact ps (escape_path q) = exact ps q"
  by (simp add: seg_exact_def exact_def seg_match_escape mux_segments_escape segments_inject split: option.split)

text \<open>The usual escaping changes nothing: the paths of \<open>UiRoutes\<close> are answered as it says.\<close>

lemma findHandler_plain:
  assumes "bytes p" "has_prefix [slash] p" "m \<in> {L ''GET'', L ''HEAD''}"
  shows "findHandler ps m (escape_path p) =
    (case mux_serve ps p of Handled h \<Rightarrow> MuxHandled h | MovedTo _ \<Rightarrow> MuxMoved | NoPattern \<Rightarrow> MuxNotFound)"
proof -
  define c where "c = cleanPath p"
  have c: "cleanPath (escape_path p) = escape_path c" "bytes c"
    using cleanPath_escape [OF assms(1,2)] by (simp_all add: c_def)
  have sl: "bytes (c @ [slash])" "escape_path c @ [slash] = escape_path (c @ [slash])"
    using c(2) escape_dots(3) [of "''/''"] by (simp_all add: escape_simps escape_slash)
  have "m \<noteq> L ''CONNECT''" using assms(3) by auto
  then show ?thesis
    using assms(3)
    by (simp add: findHandler_def mux_serve_def Let_def c(1) c_def [symmetric] seg_exact_escape [OF c(2)] sl(2)
        seg_exact_escape [OF sl(1)] seg_match_escape [OF c(2)] seg_match_escape [OF assms(1)] escape_inject [OF c(2) assms(1)] last_escape [OF c(2)]
        del: L.simps split: option.split)
qed

lemma longest_mem: "longest ps = Some x \<Longrightarrow> x \<in> set ps"
proof (induction ps arbitrary: x rule: length_induct)
  case (1 ps)
  consider "ps = []" | y where "ps = [y]" | y z zs where "ps = y # z # zs" by (metis list.exhaust)
  then show ?case
  proof cases
    case 3
    let ?w = "if length (fst y) < length (fst z) then z else y"
    have "longest (?w # zs) = Some x" using 1(2) unfolding 3 longest_simps(3) .
    then have "x \<in> set (?w # zs)" using 1(1) 3 by (metis length_Cons lessI)
    then show ?thesis using 3 by (auto split: if_splits)
  qed (use 1(2) in \<open>simp_all add: longest_simps\<close>)
qed

lemma findHandler_handled:
  assumes "findHandler ps m e = MuxHandled h"
  shows "m \<in> {L ''GET'', L ''HEAD''}" "cleanPath e = e" "\<exists>p. (p, h) \<in> set ps \<and> seg_matches (mux_segments e) p"
proof -
  have n: "refused ps x \<noteq> MuxHandled h" for x by (simp add: refused_def)
  show m: "m \<in> {L ''GET'', L ''HEAD''}"
    using assms n unfolding findHandler_def Let_def by (metis mux_reply.distinct(1))
  show e: "cleanPath e = e"
    using assms n unfolding findHandler_def Let_def by (metis mux_reply.distinct(1))
  have "\<exists>p. seg_match ps e = Some (p, h)"
    using assms n m e unfolding findHandler_def Let_def by (auto split: if_splits option.splits simp del: L.simps)
  then show "\<exists>p. (p, h) \<in> set ps \<and> seg_matches (mux_segments e) p"
    unfolding seg_match_def by (auto dest!: longest_mem)
qed

end
