(* ===== verification/Gate.thy ===== *)
theory Gate
  imports AuthCache Escaping
begin

text \<open>
  The server's handler as a whole (\<open>main\<close> of \<open>cmd/proxeus/main.go\<close>): authentication around the router, its routes,
  and the fallback with the backends handler behind it, for every method and for paths as they
  arrive. The router (\<open>httprouter\<close>) is a parameter, which answers itself, hands the request to one
  of the routes, or to the fallback.
\<close>

section \<open>The handlers\<close>

record server_conf =
  sc_prefix :: ustr
  sc_metrics :: ustr
  sc_mcp :: bool
  sc_stopping :: bool

text \<open>The routes of the router: method, path and handler.\<close>

datatype registered = MetricsHandler | FederateHandler | MCPHandler | Override string | PrometheusOptions | NoRemoteRead

definition registerOverrides :: "ustr \<Rightarrow> string list \<Rightarrow> (ustr \<times> ustr \<times> registered) list" where
  "registerOverrides rp ps =
     concat (map (\<lambda>p. [(L ''GET'', path_join rp p, Override p), (L ''OPTIONS'', path_join rp p, PrometheusOptions)]) ps)"

definition registerNoRemoteRead :: "ustr \<Rightarrow> (ustr \<times> ustr \<times> registered) list" where
  "registerNoRemoteRead p =
     map (\<lambda>m. (L m, p, NoRemoteRead)) [''GET'', ''HEAD'', ''POST'', ''PUT'', ''PATCH'', ''DELETE'', ''OPTIONS'']"

definition routes :: "server_conf \<Rightarrow> (ustr \<times> ustr \<times> registered) list" where
  "routes sc =
     (let rp = sc_prefix sc
      in [(L ''GET'', sc_metrics sc, MetricsHandler), (L ''GET'', path_join rp ''/federate'', FederateHandler)] @
         (if sc_mcp sc then map (\<lambda>m. (L m, path_join rp ''/mcp'', MCPHandler)) [''POST'', ''GET'', ''DELETE''] else []) @
         registerOverrides rp
           [''/api/v1/status/config'', ''/api/v1/metadata'', ''/api/v1/status/walreplay'', ''/api/v1/status/flags'',
            ''/api/v1/status/tsdb''] @
         registerNoRemoteRead (path_join rp ''/api/v1/read''))"

datatype router_reply = Dispatched registered | RouterOwn | FallsBack

datatype answer =
  Routed router_reply | StoppingReply | PrometheusReply | DebugReply | NoDebug | FoundAt ustr | ShellReply |
  AssetReply | UI resource | UIMoved | UINotAllowed | UINotFound

text \<open>\<open>ServeHTTP\<close> of the backends handler: the prefix goes from the decoded path only.\<close>

definition ui_reply :: "ustr \<Rightarrow> http_request \<Rightarrow> answer" where
  "ui_reply rp r =
     (let p = trim_prefix (trim_right_slash rp) (hr_path r)
      in case findHandler initMux (hr_method r) (EscapedPath p (hr_raw r)) of
           MuxHandled k \<Rightarrow> UI (handle rp p k) | MuxMoved \<Rightarrow> UIMoved
         | MethodNotAllowed \<Rightarrow> UINotAllowed | MuxNotFound \<Rightarrow> UINotFound)"

text \<open>\<open>debugStripPrefix\<close>, and what \<open>http.StripPrefix\<close> makes of it.\<close>

definition debugStripPrefix :: "ustr \<Rightarrow> ustr" where
  "debugStripPrefix rp = trim_right_slash (dropWhile (\<lambda>c. c = slash) rp)"

definition debug_reply :: "ustr \<Rightarrow> http_request \<Rightarrow> answer" where
  "debug_reply rp r =
     (let prefix = debugStripPrefix rp
      in if prefix = [] \<or>
            has_prefix prefix (hr_path r) \<and> (hr_raw r = [] \<or> has_prefix prefix (hr_raw r)) then DebugReply
         else NoDebug)"

text \<open>\<open>upstreamOptions\<close> around the fallback.\<close>

definition fallback :: "server_conf \<Rightarrow> http_request \<Rightarrow> answer" where
  "fallback sc r =
     (if hr_method r = L ''OPTIONS'' then PrometheusReply
      else (case notFound (sc_prefix sc) (hr_path r) of
              DebugMux \<Rightarrow> debug_reply (sc_prefix sc) r
            | Ready \<Rightarrow> if sc_stopping sc then StoppingReply else PrometheusReply
            | RedirectTo to \<Rightarrow> FoundAt to
            | Shell \<Rightarrow> ShellReply
            | ProxeusUI \<Rightarrow> ui_reply (sc_prefix sc) r
            | Assets \<Rightarrow> AssetReply
            | Prometheus \<Rightarrow> PrometheusReply))"

type_synonym router = "(ustr \<times> ustr \<times> registered) list \<Rightarrow> ustr \<Rightarrow> ustr \<Rightarrow> router_reply"

definition serve :: "router \<Rightarrow> server_conf \<Rightarrow> http_request \<Rightarrow> answer" where
  "serve router sc r =
     (case router (routes sc) (hr_method r) (hr_path r) of FallsBack \<Rightarrow> fallback sc r | reply \<Rightarrow> Routed reply)"

definition default_exempt :: "server_conf \<Rightarrow> ustr list" where
  "default_exempt sc =
     [path_join (sc_prefix sc) ''/-/healthy'', path_join (sc_prefix sc) ''/-/ready'', sc_metrics sc]"

text \<open>The handler the server runs: with an \<open>auth\<close> block, the middleware around the router.\<close>

datatype gate_answer = Served "identity option" answer | NotAuthenticated ustr | NotAuthorized

definition gate ::
  "auth_env \<Rightarrow> authenticator option \<Rightarrow> ustr set \<Rightarrow> router \<Rightarrow> server_conf \<Rightarrow> http_request \<Rightarrow> gate_answer" where
  "gate env auth verified router sc r =
     (case auth of None \<Rightarrow> Served None (serve router sc r)
      | Some a \<Rightarrow>
          (case fst (middleware env a verified r) of
             Proceed i \<Rightarrow> Served i (serve router sc r)
           | Unauthorized challenge \<Rightarrow> NotAuthenticated challenge
           | Forbidden \<Rightarrow> NotAuthorized))"

section \<open>What the gate lets through\<close>

text \<open>A request as \<open>net/http\<close> hands it on, its target parsed.\<close>

definition arrives :: "http_request \<Rightarrow> bool" where
  "arrives r \<longleftrightarrow> (\<exists>t. bytes t \<and> setPath t = Some (hr_path r, hr_raw r)) \<and> has_prefix [slash] (hr_path r)"

lemma unhex_less: "unhex c = Some x \<Longrightarrow> x < 16"
  by (auto simp: unhex_def word_le_nat_alt word_less_nat_alt unat_sub split: if_splits)

lemma unescape_bytes: "unescape_path e = Some p \<Longrightarrow> bytes e \<Longrightarrow> bytes p"
proof (induction e arbitrary: p rule: unescape_path.induct)
  case (2 c s)
  show ?case
  proof (cases "c = percent")
    case False
    then obtain u where "unescape_path s = Some u" "p = c # u" using 2(3) by auto
    then show ?thesis using 2(1) [OF False] 2(4) by (simp add: escape_simps)
  next
    case True
    then have "unescape_path (percent # s) = Some p" using 2(3) by simp
    then obtain h l t x y u where u: "s = h # l # t" "unhex h = Some x" "unhex l = Some y" "unescape_path t = Some u"
      "p = (16 * x + y) # u"
      by (rule unescape_percent)
    have "bytes u" by (rule 2(2)) (use True u 2(4) in \<open>auto simp: escape_simps\<close>)
    moreover have "16 * x + y < 0x100"
      using unhex_less [OF u(2)] unhex_less [OF u(3)] by (simp add: word_less_nat_alt unat_word_ariths)
    ultimately show ?thesis using u(5) by (simp add: escape_simps)
  qed
qed (simp add: escape_simps)

lemma arrives_bytes: "arrives r \<Longrightarrow> bytes (hr_path r)"
  by (auto simp: arrives_def setPath_def dest: unescape_bytes)

lemma arrives_raw: "arrives r \<Longrightarrow> hr_raw r \<noteq> [] \<Longrightarrow> unescape_path (hr_raw r) = Some (hr_path r)"
  by (auto simp: arrives_def setPath_def split: if_splits)

lemma gate_served:
  assumes "gate env (Some a) verified router sc r = Served caller ans"
  shows "ans = serve router sc r"
    "case caller of None \<Rightarrow> exempt a (hr_path r) \<or> isPreflight r
     | Some i \<Rightarrow> fst (run_chain env verified (au_providers a) r) = Identified i \<and> allowed a i (hr_path r)"
  using assms
  by (auto simp: gate_def middleware_def split: decision.splits if_splits auth_result.splits prod.splits option.splits)

lemma fallback_ui:
  assumes "fallback sc r = UI x"
  shows "notFound (sc_prefix sc) (hr_path r) = ProxeusUI" "ui_reply (sc_prefix sc) r = UI x" "hr_method r \<noteq> L ''OPTIONS''"
  using assms by (auto simp: fallback_def debug_reply_def Let_def simp del: L.simps split: if_splits route.splits)

text \<open>What the handler strips a prefix from may be below it or not; below a clean prefix it is.\<close>

lemma trim_prefix_cases: "u = P @ trim_prefix P u \<or> \<not> has_prefix P u \<and> trim_prefix P u = u"
  by (auto simp: trim_prefix_def has_prefix_iff)

lemma notFound_prefixed:
  assumes "notFound rp u = ProxeusUI" "clean_prefix rp"
  shows "has_prefix (trim_right_slash rp) u"
proof -
  have "has_prefix (path_join rp ''/proxeus'') u"
    using assms(1) by (auto simp: notFound_def simp del: L.simps split: if_splits option.splits)
  then show ?thesis by (auto simp: path_join_clean [OF assms(2) absolute_literals(4)] has_prefix_iff)
qed

lemma rooted_start: "has_prefix [slash] e \<Longrightarrow> unescape_path e = Some q \<Longrightarrow> has_prefix [slash] q"
  by (cases e) auto

lemma cleanPath_starts: "has_prefix [slash] (cleanPath p)"
proof (rule cleanPath_cases [of p])
  show "has_prefix [slash] (cleanPath p)" if "ws \<noteq> []" "cleanPath p = rooted ws \<or> cleanPath p = rooted ws @ [slash]" for ws
    using that rooted_prefix [OF that(1), of "[]"] rooted_prefix [OF that(1)] by auto
qed simp

lemma handler_pattern:
  "(p, ServeJSON) \<in> set initMux \<longleftrightarrow> p = L ''/proxeus/api/backends.json''"
  "(p, ServeCardinality) \<in> set initMux \<longleftrightarrow> p = L ''/proxeus/api/cardinality.json''"
  by (auto simp: initMux_def simp del: L.simps)

text \<open>A pattern without a slash at its end is reached at its own path only, however that is escaped.\<close>

lemma handled_exactly:
  assumes "findHandler ps m e = MuxHandled h" "unescape_path e = Some q" "\<And>p. (p, h) \<in> set ps \<Longrightarrow> p = s \<and> last p \<noteq> slash"
  shows "q = s"
proof -
  obtain p where "(p, h) \<in> set ps" "seg_matches (mux_segments e) p" using findHandler_handled(3) [OF assms(1)] by blast
  then have "segments s = mux_segments e" using assms(3) [of p] by (auto simp: seg_matches_def)
  then show ?thesis using unescape_segments [OF assms(2)] join_split [of slash s] by simp
qed

text \<open>The address of what is sent: below the prefix, or, where the prefix is not clean, perhaps its own.\<close>

definition located :: "server_conf \<Rightarrow> ustr \<Rightarrow> ustr \<Rightarrow> bool" where
  "located sc u x \<longleftrightarrow> u = trim_right_slash (sc_prefix sc) @ x \<or> \<not> clean_prefix (sc_prefix sc) \<and> u = x"

lemma located_cases:
  assumes "notFound (sc_prefix sc) u = ProxeusUI" "trim_prefix (trim_right_slash (sc_prefix sc)) u = x"
  shows "located sc u x"
  using trim_prefix_cases [of u "trim_right_slash (sc_prefix sc)"] notFound_prefixed [OF assms(1)] assms(2)
  by (auto simp: located_def)

lemma ui_address:
  assumes "arrives r" "fallback sc r = UI x"
  defines "P \<equiv> trim_right_slash (sc_prefix sc)"
  shows "hr_method r \<in> {L ''GET'', L ''HEAD''}"
    "x = InventoryData \<Longrightarrow> located sc (hr_path r) (L ''/proxeus/api/backends.json'')"
    "x = CardinalityData \<Longrightarrow> located sc (hr_path r) (L ''/proxeus/api/cardinality.json'')"
    "hr_raw r = [] \<or> P \<noteq> [] \<and> has_prefix P (hr_path r) \<Longrightarrow> resource_at (sc_prefix sc) (hr_path r) = x"
proof -
  note ui = fallback_ui [OF assms(2)]
  define q where "q = trim_prefix P (hr_path r)"
  have at: "located sc (hr_path r) s" if "q = s" for s
    using located_cases [OF ui(1)] that by (simp add: q_def P_def)
  define e where "e = EscapedPath q (hr_raw r)"
  have b: "bytes q"
    using arrives_bytes [OF assms(1)] trim_prefix_cases [of "hr_path r" P] by (metis bytes_def list_all_append q_def)
  have dec: "unescape_path e = Some q" unfolding e_def by (rule unescape_EscapedPath [OF b])
  obtain k where k: "findHandler initMux (hr_method r) e = MuxHandled k" "x = handle (sc_prefix sc) q k"
    using ui(2) unfolding ui_reply_def Let_def P_def [symmetric] q_def [symmetric] e_def by (auto split: mux_reply.splits)
  show m: "hr_method r \<in> {L ''GET'', L ''HEAD''}" by (rule findHandler_handled(1) [OF k(1)])
  show "located sc (hr_path r) (L ''/proxeus/api/backends.json'')" if "x = InventoryData"
  proof -
    have "k = ServeJSON" using that k(2) handle_eq(2) by metis
    then show ?thesis using handled_exactly [OF k(1) dec] handler_pattern(1) at by (simp add: last_L del: L.simps)
  qed
  show "located sc (hr_path r) (L ''/proxeus/api/cardinality.json'')" if "x = CardinalityData"
  proof -
    have "k = ServeCardinality" using that k(2) handle_eq(3) by metis
    then show ?thesis using handled_exactly [OF k(1) dec] handler_pattern(2) at by (simp add: last_L del: L.simps)
  qed
  show "resource_at (sc_prefix sc) (hr_path r) = x" if raw: "hr_raw r = [] \<or> P \<noteq> [] \<and> has_prefix P (hr_path r)"
  proof -
    have "has_prefix [slash] e" using findHandler_handled(2) [OF k(1)] cleanPath_starts [of e] by simp
    then have sl: "has_prefix [slash] q" by (rule rooted_start [OF _ dec])
    then have star: "q \<noteq> L ''*''" by (auto simp: has_prefix_iff)
    have "unescape_path (hr_raw r) \<noteq> Some q" if "hr_raw r \<noteq> []"
      using arrives_raw [OF assms(1) that] that raw trim_prefix_cases [of "hr_path r" P] by (auto simp: q_def)
    then have "e = escape_path q" using star by (auto simp: e_def EscapedPath_def simp del: L.simps)
    then have "mux_serve initMux q = Handled k"
      using findHandler_plain [OF b sl m, of initMux] k(1) by (auto split: mux_answer.splits)
    then show ?thesis
      using ui(1) k(2) by (simp add: resource_at_def ui_ServeHTTP_def q_def P_def)
  qed
qed

lemma mux_handled_rooted: "mux_serve ps p = Handled k \<Longrightarrow> has_prefix [slash] p"
  using cleanPath_starts [of p] by (auto simp: mux_serve_def Let_def split: if_splits)

lemma ui_answered:
  assumes "arrives r" "hr_raw r = []" "hr_method r = L ''GET''" "resource_at (sc_prefix sc) (hr_path r) = x"
    and "x \<noteq> Elsewhere" "\<nexists>to. x = Moved to"
  shows "fallback sc r = UI x"
proof -
  have n: "notFound (sc_prefix sc) (hr_path r) = ProxeusUI"
    using assms(4-6) by (auto simp: resource_at_def split: route.splits)
  define q where "q = trim_prefix (trim_right_slash (sc_prefix sc)) (hr_path r)"
  obtain k where k: "mux_serve initMux q = Handled k" "x = handle (sc_prefix sc) q k"
    using assms(4-6) n by (auto simp: resource_at_def ui_ServeHTTP_def q_def split: mux_answer.splits)
  have b: "bytes q"
    using arrives_bytes [OF assms(1)] trim_prefix_cases [of "hr_path r" "trim_right_slash (sc_prefix sc)"]
    by (metis bytes_def list_all_append q_def)
  have sl: "has_prefix [slash] q" "q \<noteq> L ''*''" using mux_handled_rooted [OF k(1)] by (auto simp: has_prefix_iff)
  have "EscapedPath q [] = escape_path q" using sl(2) by (simp add: EscapedPath_def del: L.simps)
  then have "ui_reply (sc_prefix sc) r = UI x"
    using findHandler_plain [OF b sl(1), of "L ''GET''" initMux] k
    by (simp add: ui_reply_def Let_def q_def [symmetric] assms(2,3) del: L.simps)
  then show ?thesis using n by (simp add: fallback_def assms(3))
qed

lemma debug_head:
  assumes "debugStripPrefix rp \<noteq> []"
  shows "hd (debugStripPrefix rp) \<noteq> slash"
proof -
  let ?s = "dropWhile (\<lambda>c. c = slash) rp"
  have "\<exists>t. ?s = debugStripPrefix rp @ t"
    unfolding debugStripPrefix_def trim_right_slash_def
    by (metis rev_append rev_rev_ident takeWhile_dropWhile_id)
  then obtain t where t: "?s = debugStripPrefix rp @ t" by blast
  then have "?s \<noteq> []" "hd ?s = hd (debugStripPrefix rp)" using assms by (simp_all only: append_is_Nil_conv hd_append2 simp_thms not_False_eq_True)
  then show ?thesis using hd_dropWhile [of "\<lambda>c. c = slash" rp] by metis
qed

lemma debug_prefix:
  assumes "has_prefix [slash] (hr_path r)"
  shows "debug_reply rp r = DebugReply \<longleftrightarrow> (\<forall>c \<in> set rp. c = slash)" "debug_reply rp r \<noteq> DebugReply \<longleftrightarrow> debug_reply rp r = NoDebug"
proof -
  have "set rp = set (takeWhile (\<lambda>c. c = slash) rp) \<union> set (dropWhile (\<lambda>c. c = slash) rp)"
    using takeWhile_dropWhile_id [of "\<lambda>c. c = slash" rp] by (metis set_append)
  moreover have "debugStripPrefix rp = [] \<longleftrightarrow> (\<forall>c \<in> set (dropWhile (\<lambda>c. c = slash) rp). c = slash)"
    unfolding debugStripPrefix_def trim_right_slash_def rev_is_Nil_conv dropWhile_eq_Nil_conv set_rev ..
  ultimately have "debugStripPrefix rp = [] \<longleftrightarrow> (\<forall>c \<in> set rp. c = slash)"
    using set_takeWhileD [of _ "\<lambda>c. c = slash" rp] by blast
  moreover have "\<not> has_prefix (debugStripPrefix rp) (hr_path r)" if "debugStripPrefix rp \<noteq> []"
    using assms that debug_head [OF that] by (cases "debugStripPrefix rp") (auto simp: has_prefix_iff)
  ultimately show "debug_reply rp r = DebugReply \<longleftrightarrow> (\<forall>c \<in> set rp. c = slash)"
    by (auto simp: debug_reply_def Let_def)
  show "debug_reply rp r \<noteq> DebugReply \<longleftrightarrow> debug_reply rp r = NoDebug" by (simp add: debug_reply_def Let_def)
qed

section \<open>Properties\<close>

text \<open>
  C7: With an \<open>auth\<close> block, nobody gets at data unidentified: the two data paths' data, the shell, every handler with
  a route of its own but the two that read nothing, and the inventory page where its path arrives in the
  usual escaping or below a route prefix, are answered only if the path is below an exempt entry, or the chain has
  identified a caller the policy lets have it. The decision is about the very path whose data is sent: no escaping
  of it is decided differently, and a preflight let through reaches none of these.
\<close>

theorem data_needs_identity:
  assumes auth: "auth_new env (Some c) (default_exempt sc) = Inr (Some a)" "config_valid env c"
    and router: "\<forall>rs m p h. router rs m p = Dispatched h \<longrightarrow> (m, p, h) \<in> set rs"
    and r: "arrives r" "gate env (Some a) verified router sc r = Served caller ans"
    and ans: "ans \<in> {UI InventoryData, UI CardinalityData, ShellReply} \<or>
      ans = UI InventoryPage \<and>
        (hr_raw r = [] \<or> trim_right_slash (sc_prefix sc) \<noteq> [] \<and> has_prefix (trim_right_slash (sc_prefix sc)) (hr_path r)) \<or>
      (\<exists>h. ans = Routed (Dispatched h) \<and> h \<notin> {PrometheusOptions, NoRemoteRead})"
  shows "let u = hr_path r in
    (ans = UI InventoryData \<longrightarrow> located sc u (L ''/proxeus/api/backends.json'')) \<and>
    (ans = UI CardinalityData \<longrightarrow> located sc u (L ''/proxeus/api/cardinality.json'')) \<and>
    (ans = UI InventoryPage \<longrightarrow> resource_at (sc_prefix sc) u = InventoryPage) \<and>
    (\<forall>h. ans = Routed (Dispatched h) \<longrightarrow> (hr_method r, u, h) \<in> set (routes sc)) \<and>
    (case caller of None \<Rightarrow> \<exists>e \<in> set (exempt_list c (default_exempt sc)). covers e u
     | Some i \<Rightarrow> fst (run_chain env verified (au_providers a) r) = Identified i \<and> may c i u)"
proof -
  note served = gate_served [OF r(2)]
  have root: "has_prefix [slash] (hr_path r)" using r(1) by (simp add: arrives_def)
  have fb: "fallback sc r = ans" if "\<nexists>h. ans = Routed h"
    using served(1) that by (auto simp: serve_def split: router_reply.splits)
  have reply: "(hr_method r, hr_path r, h) \<in> set (routes sc)" if "ans = Routed (Dispatched h)" for h
    using served(1) that router by (auto simp: serve_def fallback_def debug_reply_def ui_reply_def Let_def
        simp del: L.simps split: router_reply.splits if_splits route.splits mux_reply.splits)
  have "hr_method r \<noteq> L ''OPTIONS''"
  proof (cases "\<exists>h. ans = Routed h")
    case True
    then obtain h where "ans = Routed (Dispatched h)" "h \<notin> {PrometheusOptions, NoRemoteRead}" using ans by auto
    then show ?thesis
      using reply by (auto simp: routes_def registerOverrides_def registerNoRemoteRead_def Let_def split: if_splits)
  next
    case False
    then show ?thesis using fb ans by (auto simp: fallback_def simp del: L.simps)
  qed
  then have "\<not> isPreflight r" by (simp add: isPreflight_def del: L.simps)
  then have "case caller of None \<Rightarrow> \<exists>e \<in> set (exempt_list c (default_exempt sc)). covers e (hr_path r)
     | Some i \<Rightarrow> fst (run_chain env verified (au_providers a) r) = Identified i \<and> may c i (hr_path r)"
    using served(2) exempt_covers [OF auth(1) root] allowed_may [OF auth(1,2) root] by (simp split: option.splits)
  moreover have "ans = UI InventoryPage \<longrightarrow> resource_at (sc_prefix sc) (hr_path r) = InventoryPage"
    "ans = UI InventoryData \<longrightarrow> located sc (hr_path r) (L ''/proxeus/api/backends.json'')"
    "ans = UI CardinalityData \<longrightarrow> located sc (hr_path r) (L ''/proxeus/api/cardinality.json'')"
    using ui_address [OF r(1), of sc] fb ans by (auto simp del: L.simps)
  ultimately show ?thesis using reply unfolding Let_def by blast
qed

definition sample_server :: server_conf where
  "sample_server = \<lparr>sc_prefix = L ''/'', sc_metrics = L ''/metrics'', sc_mcp = False, sc_stopping = False\<rparr>"

definition sample_request :: http_request where
  "sample_request =
     \<lparr>hr_method = L ''GET'', hr_path = L ''/proxeus/api/backends.json'', hr_raw = [],
      hr_header = (\<lambda>h. if h = L ''Authorization'' then L ''Basic root:key'' else []), hr_remote = []\<rparr>"

lemma sample_served:
  "gate sample_env (Some (sample_auth (default_exempt sample_server))) {} (\<lambda>_ _ _. FallsBack) sample_server sample_request =
     Served (Some \<lparr>id_Name = L ''root'', id_Groups = [], id_Provider = L ''basic''\<rparr>) (UI InventoryData)"
  "setPath (L ''/proxeus/api/backends.json'') = Some (hr_path sample_request, hr_raw sample_request)"
  "has_prefix [slash] (hr_path sample_request)"
  by code_simp+

theorem data_needs_identity_witness:
  "may sample_auth_config \<lparr>id_Name = L ''root'', id_Groups = [], id_Provider = L ''basic''\<rparr> (L ''/proxeus/api/backends.json'')"
proof -
  let ?i = "\<lparr>id_Name = L ''root'', id_Groups = [], id_Provider = L ''basic''\<rparr>"
  have a: "arrives sample_request" unfolding arrives_def using sample_served(2,3) escape_dots(3) by blast
  have r: "\<forall>rs m p h. (\<lambda>_ _ _. FallsBack) rs m p = Dispatched h \<longrightarrow> (m, p, h) \<in> set rs" by simp
  have "may sample_auth_config ?i (hr_path sample_request)"
    using data_needs_identity [OF sample_new sample_valid r a sample_served(1) disjI1 [OF insertI1]]
    unfolding Let_def option.case by blast
  then show ?thesis by (simp add: sample_request_def del: L.simps)
qed

text \<open>The escaped path, at the multiplexer and at the middleware.\<close>

abbreviation dots :: ustr where
  "dots \<equiv> L ''/proxeus/backends/../../-/ready''"

abbreviation encoded_dots :: ustr where
  "encoded_dots \<equiv> L ''/proxeus/backends/%2e%2e/%2e%2e/-/ready''"

lemma dots_computed:
  "setPath encoded_dots = Some (dots, encoded_dots)" "EscapedPath dots encoded_dots = encoded_dots"
  "findHandler initMux (L ''GET'') encoded_dots = MuxHandled ServeIndex"
  "under (go_clean dots) (go_clean (L ''/-/ready''))"
  "\<not> covers (L ''/-/healthy'') (L ''/proxeus/backends'')" "\<not> covers (L ''/-/ready'') (L ''/proxeus/backends'')"
  by code_simp+

lemma dots_served:
  assumes "trim_right_slash (sc_prefix sc) = []" "hr_method r = L ''GET''" "hr_path r = dots" "hr_raw r = encoded_dots"
  shows "fallback sc r = UI InventoryPage"
proof -
  have "notFound (sc_prefix sc) dots = ProxeusUI"
    using notFound_below [OF clean_prefix_Nil [OF assms(1)], of dots]
    by (simp add: assms(1) uiRedirects_def reactRouteSet_def has_prefix_L del: L.simps)
  moreover have "ui_reply (sc_prefix sc) r = UI InventoryPage"
    by (simp add: ui_reply_def assms trim_prefix_def handle_def dots_computed(2,3) del: L.simps)
  ultimately show ?thesis by (simp add: fallback_def assms(2,3) del: L.simps)
qed

lemma default_entries:
  assumes "ac_exempt c = None" "trim_right_slash (sc_prefix sc) = []"
  shows "exempt_list c (default_exempt sc) = [L ''/-/healthy'', L ''/-/ready'', sc_metrics sc]"
  using absolute_literals(2,3) [THEN path_join_clean [OF clean_prefix_Nil [OF assms(2)]]]
  by (simp add: exempt_list_def assms default_exempt_def del: L.simps)

text \<open>
  C21: Escaped dots get the inventory page past authentication. Without a route prefix and with the default exempt
  paths, a GET of \<open>/proxeus/backends/%2e%2e/%2e%2e/-/ready\<close> is answered with the page, group names, labels and
  targets in it, whoever asks and whatever the providers and the policy: the exemption is decided on the decoded
  path, cleaned to \<open>/-/ready\<close>, and the page is chosen by the escaped one, which is clean as it stands.
  The same caller asking for the page by its own path is turned away.
\<close>

theorem encoded_dots_expose_page:
  assumes auth: "auth_new env (Some c) (default_exempt sc) = Inr (Some a)" "ac_exempt c = None"
    and sc: "trim_right_slash (sc_prefix sc) = []" "\<not> covers (sc_metrics sc) (L ''/proxeus/backends'')"
    and router: "router (routes sc) (L ''GET'') (L ''/proxeus/backends/../../-/ready'') = FallsBack"
    and get: "hr_method r = L ''GET''"
  shows "setPath (L ''/proxeus/backends/%2e%2e/%2e%2e/-/ready'') =
      Some (L ''/proxeus/backends/../../-/ready'', L ''/proxeus/backends/%2e%2e/%2e%2e/-/ready'') \<and>
    gate env (Some a) verified router sc
      (r\<lparr>hr_path := L ''/proxeus/backends/../../-/ready'', hr_raw := L ''/proxeus/backends/%2e%2e/%2e%2e/-/ready''\<rparr>) =
      Served None (UI InventoryPage) \<and>
    (let r' = r\<lparr>hr_path := L ''/proxeus/backends'', hr_raw := []\<rparr>
     in fst (run_chain env verified (au_providers a) r') = NoCredentials \<longrightarrow>
        gate env (Some a) verified router sc r' = NotAuthenticated (au_challenge a))"
proof -
  note e = default_entries [OF auth(2) sc(1)]
  define d where "d = r\<lparr>hr_path := dots, hr_raw := encoded_dots\<rparr>"
  have f: "hr_method d = L ''GET''" "hr_path d = dots" "hr_raw d = encoded_dots" by (simp_all add: d_def get del: L.simps)
  have "exempt a dots"
    using dots_computed(4) by (auto simp: exempt_def auth_new_parts(1) [OF auth(1)] list_ex_iff e simp del: L.simps)
  then have "gate env (Some a) verified router sc d = Served None (UI InventoryPage)"
    using router dots_served [OF sc(1) f] f by (simp add: gate_def middleware_def serve_def del: L.simps)
  moreover have "\<not> exempt a (L ''/proxeus/backends'')"
  proof -
    have "has_prefix [slash] (L ''/proxeus/backends'')" by simp
    then show ?thesis using exempt_covers [OF auth(1)] sc(2) dots_computed(5,6) unfolding e by simp
  qed
  ultimately show ?thesis
    using dots_computed(1) get unfolding d_def
    by (simp add: gate_def middleware_def isPreflight_def Let_def del: L.simps split: prod.split)
qed

theorem encoded_dots_expose_page_witness:
  "gate sample_env (Some (sample_auth (default_exempt sample_server))) {} (\<lambda>_ _ _. FallsBack) sample_server
     (sample_request\<lparr>hr_path := L ''/proxeus/backends/../../-/ready'',
        hr_raw := L ''/proxeus/backends/%2e%2e/%2e%2e/-/ready'', hr_method := L ''GET'', hr_header := (\<lambda>_. [])\<rparr>) =
   Served None (UI InventoryPage)"
proof -
  have "ac_exempt sample_auth_config = None" "trim_right_slash (sc_prefix sample_server) = []"
    "\<not> covers (sc_metrics sample_server) (L ''/proxeus/backends'')"
    by code_simp+
  from encoded_dots_expose_page [OF sample_new this, of "\<lambda>_ _ _. FallsBack" "sample_request\<lparr>hr_header := \<lambda>_. []\<rparr>"]
  show ?thesis by (simp add: sample_request_def del: L.simps)
qed

text \<open>
  C29: Without authentication, and for every GET whose path arrives in the usual escaping, the whole handler answers
  as the routing of single paths says: the same page, data or file of the backends handler, the shell
  and the redirects for the same paths. The debug handlers are reached only without a route prefix: under one, the
  prefix to strip has lost its slash, never matches, and their paths are not found.
\<close>

theorem plain_requests_agree:
  assumes "arrives r" "hr_raw r = []" "hr_method r = L ''GET''" "router (routes sc) (L ''GET'') (hr_path r) = FallsBack"
  shows "\<exists>ans. gate env None verified router sc r = Served None ans \<and>
    (\<forall>x. x \<noteq> Elsewhere \<and> (\<nexists>to. x = Moved to) \<longrightarrow> (ans = UI x \<longleftrightarrow> resource_at (sc_prefix sc) (hr_path r) = x)) \<and>
    (ans = ShellReply \<longleftrightarrow> notFound (sc_prefix sc) (hr_path r) = Shell) \<and>
    (ans = FoundAt to \<longleftrightarrow> notFound (sc_prefix sc) (hr_path r) = RedirectTo to) \<and>
    (ans = DebugReply \<longleftrightarrow> notFound (sc_prefix sc) (hr_path r) = DebugMux \<and> (\<forall>c \<in> set (sc_prefix sc). c = slash))"
proof -
  define ans where "ans = fallback sc r"
  have get: "hr_method r \<noteq> L ''OPTIONS''" using assms(3) by simp
  have "ans = UI x \<longleftrightarrow> resource_at (sc_prefix sc) (hr_path r) = x" if x: "x \<noteq> Elsewhere" "\<nexists>to. x = Moved to" for x
  proof
    show "ans = UI x \<Longrightarrow> resource_at (sc_prefix sc) (hr_path r) = x"
      using ui_address(4) [OF assms(1)] assms(2) unfolding ans_def by blast
    show "resource_at (sc_prefix sc) (hr_path r) = x \<Longrightarrow> ans = UI x"
      unfolding ans_def by (rule ui_answered [OF assms(1-3)]) (use x in blast)+
  qed
  moreover have "ans = ShellReply \<longleftrightarrow> notFound (sc_prefix sc) (hr_path r) = Shell"
    "ans = FoundAt to \<longleftrightarrow> notFound (sc_prefix sc) (hr_path r) = RedirectTo to"
    using get by (auto simp: ans_def fallback_def debug_reply_def ui_reply_def Let_def simp del: L.simps
        split: route.split mux_reply.split)
  moreover have "ans = DebugReply \<longleftrightarrow> notFound (sc_prefix sc) (hr_path r) = DebugMux \<and> (\<forall>c \<in> set (sc_prefix sc). c = slash)"
    using get debug_prefix [of r "sc_prefix sc"] assms(1)
    by (auto simp: ans_def fallback_def ui_reply_def arrives_def Let_def simp del: L.simps split: route.split mux_reply.split)
  moreover have "gate env None verified router sc r = Served None ans"
    by (simp add: gate_def serve_def ans_def assms(3,4) del: L.simps)
  ultimately show ?thesis by blast
qed

theorem plain_requests_agree_witness:
  "\<exists>ans. gate sample_env None {} (\<lambda>_ _ _. FallsBack) sample_server (sample_request\<lparr>hr_path := L ''/backends''\<rparr>) =
     Served None ans \<and> ans = ShellReply"
proof -
  let ?r = "sample_request\<lparr>hr_path := L ''/backends''\<rparr>"
  have c: "setPath (L ''/backends'') = Some (L ''/backends'', [])" "has_prefix [slash] (L ''/backends'')"
    "notFound (sc_prefix sample_server) (L ''/backends'') = Shell"
    by code_simp+
  have f: "hr_path ?r = L ''/backends''" "hr_raw ?r = []" "hr_method ?r = L ''GET''"
    by (simp_all add: sample_request_def del: L.simps)
  have a: "arrives ?r" unfolding arrives_def f using c(1,2) escape_dots(3) by blast
  show ?thesis
    using plain_requests_agree [OF a f(2,3), of "\<lambda>_ _ _. FallsBack" sample_server sample_env "{}" "[]"] c(3) f(1) by (metis (no_types))
qed

end
