(* ===== verification/StatsServer.thy ===== *)
theory StatsServer
  imports QueryStats Prober StatsFetch Escaping
begin

text \<open>
  Where the statistics of a query come from (\<open>cmd/proxeus/querystats.go\<close>): the wrapper that gives a request asking
  for them a recorder, and the renderer that adds what it holds to Prometheus's own. The path the wrapper compares is
  the request's, unescaped; Prometheus's renderer is a parameter.
\<close>

section \<open>The wrapper and the renderer\<close>

text \<open>\<open>r.FormValue\<close>: the parameters of the body come before those of the address.\<close>

definition FormValue :: "(gstr \<times> gstr) list \<Rightarrow> gstr \<Rightarrow> gstr \<Rightarrow> gstr" where
  "FormValue body raw k = go_get k (body @ go_query raw)"

definition queryStatsGroups :: "sgconfig list option \<Rightarrow> qgroup list" where
  "queryStatsGroups cfg =
     (case cfg of None \<Rightarrow> []
      | Some cs \<Rightarrow> map (\<lambda>(i, c). \<lparr>qg_name = sc_Name c, qg_ordinal = int i, qg_labels = Some (sc_Labels c)\<rparr>) (enumerate 0 cs))"

definition withQueryStats ::
  "ustr \<Rightarrow> qgroup list \<Rightarrow> ustr \<Rightarrow> (gstr \<times> gstr) list \<Rightarrow> gstr \<Rightarrow> recorder option" where
  "withQueryStats rp groups urlPath body raw =
     (if urlPath \<in> {path_join rp ''/api/v1/query'', path_join rp ''/api/v1/query_range''} \<and>
         FormValue body raw (go_lit ''stats'') \<noteq> [] then Some (newRecorder groups)
      else None)"

text \<open>The builtin statistics, if any, and the \<open>backends\<close> beside them.\<close>

definition renderQueryStats ::
  "(gstr \<Rightarrow> 'b option) \<Rightarrow> nat \<Rightarrow> recorder option \<Rightarrow> gstr \<Rightarrow> ('b \<times> backends option) option" where
  "renderQueryStats defaultRenderer ref rec param =
     (case defaultRenderer param of None \<Rightarrow> None
      | Some b \<Rightarrow> (case rec of None \<Rightarrow> Some (b, None) | Some r \<Rightarrow> Some (b, Some (rec_stats ref r))))"

section \<open>From the page to the recorder\<close>

lemma queryStatsGroups_ordinals: "map qg_ordinal (queryStatsGroups cfg) = map int [0..<length (or_empty cfg)]"
  by (cases cfg) (auto simp: queryStatsGroups_def or_empty_def intro!: nth_equalityI simp: nth_enumerate_eq)

lemma find_ordinal:
  assumes "distinct (map f xs)" "i < length xs"
  shows "find (\<lambda>x. f x = f (xs ! i)) xs = Some (xs ! i)"
proof -
  have "f (xs ! j) \<noteq> f (xs ! i)" if "j < i" for j
    using that assms nth_eq_iff_index_eq [OF assms(1), of i j] by simp
  then show ?thesis unfolding find_Some_iff using assms(2) by (intro exI [of _ i]) auto
qed

lemma queryStatsGroups_distinct: "distinct (map qg_ordinal (queryStatsGroups cfg))"
  unfolding queryStatsGroups_ordinals by (simp add: distinct_map)

lemma queryStatsGroups_name:
  assumes "i < length cs"
  shows "group_name (queryStatsGroups (Some cs)) (int i) = sc_Name (cs ! i)"
proof -
  let ?gs = "queryStatsGroups (Some cs)"
  have "i < length ?gs" "qg_ordinal (?gs ! i) = int i" "qg_name (?gs ! i) = sc_Name (cs ! i)"
    using assms by (simp_all add: queryStatsGroups_def nth_enumerate_eq)
  then show ?thesis using find_ordinal [OF queryStatsGroups_distinct] by (metis group_name_def option.simps(5))
qed

lemma go_get_last: "k \<notin> fst ` set ps \<Longrightarrow> go_get k (ps @ [(k, v)]) = v"
  by (simp add: go_get_def map_add_def map_of_eq_None_iff [THEN iffD2])

text \<open>Keys of well-formed parameters stay apart in UTF-8.\<close>

lemma go_str_inject: "well_formed16 s \<Longrightarrow> well_formed16 t \<Longrightarrow> go_str s = go_str t \<Longrightarrow> s = t"
  unfolding go_str_def by (metis code_points_scalar to_utf16_code_points utf8_decode_utf8)

lemma stats_keys: "go_str (L ''stats'') = go_lit ''stats''" "go_str (L ''true'') = go_lit ''true''"
  by (rule go_str_L; simp)+

lemma params_without_stats:
  assumes "usp_get (L ''stats'') (url_params u) = None"
  shows "go_lit ''stats'' \<notin> fst ` set (map (\<lambda>(k, v). (go_str k, go_str v)) (url_params u))"
proof
  assume "go_lit ''stats'' \<in> fst ` set (map (\<lambda>(k, v). (go_str k, go_str v)) (url_params u))"
  then obtain k v where k: "(k, v) \<in> set (url_params u)" "go_str k = go_str (L ''stats'')"
    unfolding stats_keys by (auto simp: image_iff)
  then have "well_formed16 k" using usp_parse_well_formed [of "u_search u"] by (auto simp: url_params_def list_all_iff)
  then have "k = L ''stats''" using go_str_inject [OF _ well_formed16_L k(2)] by simp
  then show False using assms k(1) by (auto simp: usp_get_def map_of_eq_None_iff image_iff)
qed

lemma recorded_rows:
  assumes "s = fold query_step es (query_init (queryStatsGroups cfg))" "i < length (or_empty cfg)"
  shows "\<exists>g \<in> set (or_empty (bs_groups (rec_stats ref (qr_rec s)))).
    s_ordinal g = int i \<and> s_name g = sc_Name (or_empty cfg ! i) \<and> totals_ok (log_of (int i) (qr_log s)) g"
proof -
  obtain cs where cs: "cfg = Some cs" "i < length cs" using assms(2) by (cases cfg) (simp_all add: or_empty_def)
  have inv: "rec_inv (queryStatsGroups cfg) s"
    unfolding assms(1) by (rule rec_inv_run [OF rec_inv_init [OF queryStatsGroups_distinct]])
  obtain gs where gs: "bs_groups (rec_stats ref (qr_rec s)) = Some gs" by (simp add: rec_stats_def)
  have "int i \<in> set (map qg_ordinal (queryStatsGroups cfg))" unfolding queryStatsGroups_ordinals using assms(2) by simp
  then have "int i \<in> s_ordinal ` set gs" using stats_groups(3) [OF inv gs] by auto
  then obtain g where g: "g \<in> set gs" "s_ordinal g = int i" by auto
  have "s_name g = sc_Name (cs ! i)" "totals_ok (log_of (int i) (qr_log s)) g"
    using stats_groups(4) [OF inv gs] g queryStatsGroups_name [OF cs(2)] unfolding cs(1) by auto
  with g show ?thesis unfolding gs cs(1) by (auto simp: or_empty_def)
qed

text \<open>A path without percent signs is its own unescaping.\<close>

lemma unescape_plain: "percent \<notin> set s \<Longrightarrow> unescape_path s = Some s"
  by (induction s) auto

lemma set_trim_right_slash: "set (trim_right_slash s) \<subseteq> set s"
  using set_dropWhileD [of _ "\<lambda>c. c = slash" "rev s"] by (auto simp: trim_right_slash_def)

section \<open>Properties\<close>

text \<open>
  C11: A range query of the query page gets the statistics its block shows, under any clean route prefix that needs
  no escaping: rewritten by the page's wrapper, it reaches the server, which unescapes its path, with the parameters
  it had and \<open>stats=true\<close> and is given a fresh recorder of the configured groups; and in whatever order the requests to the groups begin and finish, its
  response carries the recorder's statistics, with a row of the right name and totals for every
  configured group.
\<close>

theorem query_stats_end_to_end:
  assumes page: "parse_url location input = Some u" "isRangeQuery (trim_right_slash rp) location u"
      "usp_get (L ''stats'') (url_params u) = None"
    and prefix: "clean_prefix rp" "percent \<notin> set rp"
    and renderer: "\<forall>p. p \<noteq> [] \<longrightarrow> defaultRenderer p \<noteq> (None :: 'b option)"
  shows "\<exists>u' path. stats_fetch_input parse_url (trim_right_slash rp) location (SStr input :: 'o stats_input) = SStr (url_toString u') \<and>
    unescape_path (u_pathname u') = Some path \<and>
    (let raw = go_str (drop 1 (u_search u')); groups = queryStatsGroups cfg
     in go_query raw = map (\<lambda>(k, v). (go_str k, go_str v)) (url_params u) @ [(go_lit ''stats'', go_lit ''true'')] \<and>
        withQueryStats rp groups path [] raw = Some (qr_rec (query_init groups)) \<and>
        (\<forall>es. let s = fold query_step es (query_init groups)
          in \<exists>b st. renderQueryStats defaultRenderer ref (Some (qr_rec s)) (FormValue [] raw (go_lit ''stats'')) = Some (b, Some st) \<and>
             (\<forall>i < length (or_empty cfg). \<exists>g \<in> set (or_empty (bs_groups st)).
                s_ordinal g = int i \<and> s_name g = sc_Name (or_empty cfg ! i) \<and> totals_ok (log_of (int i) (qr_log s)) g)))"
proof -
  let ?u = "url_set_param (L ''stats'') (L ''true'') u"
  define raw where "raw = go_str (drop 1 (u_search ?u))"
  define groups where "groups = queryStatsGroups cfg"
  have sent: "stats_fetch_input parse_url (trim_right_slash rp) location (SStr input :: 'o stats_input) = SStr (url_toString ?u)"
    using page by (simp del: L.simps)
  have q: "usp_toString (url_params u @ [(L ''stats'', L ''true'')]) \<noteq> []" by (rule toString_neq_Nil) simp
  have "drop 1 (u_search ?u) = usp_toString (url_params u @ [(L ''stats'', L ''true'')])"
    using q by (simp add: url_set_param_def Let_def usp_set_new [OF page(3)] del: L.simps)
  then have raw: "go_query raw = map (\<lambda>(k, v). (go_str k, go_str v)) (url_params u) @ [(go_lit ''stats'', go_lit ''true'')]"
    by (simp add: raw_def go_query_toString stats_keys del: L.simps)
  have form: "FormValue [] raw (go_lit ''stats'') = go_lit ''true''"
    using go_get_last [OF params_without_stats [OF page(3)]] by (simp add: FormValue_def raw)
  have true: "go_lit ''true'' \<noteq> []" by (simp add: go_lit_def)
  define path where "path = trim_right_slash rp @ L ''/api/v1/query_range''"
  have "u_pathname ?u = path"
    using page(2) by (simp add: url_set_param_def Let_def isRangeQuery_def API_PREFIX_def path_def)
  moreover have "percent \<notin> set path"
    using prefix(2) set_trim_right_slash [of rp] by (auto simp: path_def ch_def)
  ultimately have path: "unescape_path (u_pathname ?u) = Some path" using unescape_plain by simp
  have "path_join rp ''/api/v1/query_range'' = path"
    unfolding path_def by (rule path_join_clean [OF prefix(1) absolute_literals(8)])
  then have rec: "withQueryStats rp groups path [] raw = Some (qr_rec (query_init groups))"
    using true by (simp add: withQueryStats_def form query_init_def del: L.simps)
  have "\<exists>b st. renderQueryStats defaultRenderer ref (Some (qr_rec s)) (FormValue [] raw (go_lit ''stats'')) = Some (b, Some st) \<and>
      (\<forall>i < length (or_empty cfg). \<exists>g \<in> set (or_empty (bs_groups st)).
         s_ordinal g = int i \<and> s_name g = sc_Name (or_empty cfg ! i) \<and> totals_ok (log_of (int i) (qr_log s)) g)"
    if "s = fold query_step es (query_init groups)" for es s
  proof -
    obtain b where "defaultRenderer (go_lit ''true'') = Some b" using renderer true by blast
    then show ?thesis
      using recorded_rows [OF that [unfolded groups_def], of _ ref] by (simp add: renderQueryStats_def form)
  qed
  then show ?thesis using sent path raw rec unfolding Let_def raw_def groups_def by blast
qed

theorem query_stats_end_to_end_witness:
  "let u = \<lparr>u_protocol = L ''http:'', u_userinfo = [], u_host = L ''h'', u_pathname = L ''/api/v1/query_range'',
      u_search = [], u_hash = []\<rparr>
   in \<exists>u' path. stats_fetch_input (\<lambda>_ _. Some u) [] u (SStr (L ''/api/v1/query_range'') :: unit stats_input) = SStr (url_toString u') \<and>
      unescape_path (u_pathname u') = Some path \<and> withQueryStats (L ''/'') [] path [] (go_str (drop 1 (u_search u'))) = Some (newRecorder [])"
proof -
  let ?u = "\<lparr>u_protocol = L ''http:'', u_userinfo = [], u_host = L ''h'', u_pathname = L ''/api/v1/query_range'',
      u_search = [], u_hash = []\<rparr>"
  have P: "trim_right_slash (L ''/'') = []" by (simp add: trim_right_slash_def)
  have r: "isRangeQuery (trim_right_slash (L ''/'')) ?u ?u" unfolding P by (simp add: isRangeQuery_def API_PREFIX_def)
  have g: "usp_get (L ''stats'') (url_params ?u) = None" by (simp add: url_params_def usp_parse_def usp_get_def utf8_def)
  have c: "clean_prefix (L ''/'')" "percent \<notin> set (L ''/'')" using P by (simp_all add: clean_prefix_Nil ch_def)
  have "queryStatsGroups None = []" by (simp add: queryStatsGroups_def)
  then show ?thesis
    using query_stats_end_to_end [of "\<lambda>_ _. Some ?u" ?u "L ''/api/v1/query_range''" ?u "L ''/''" "\<lambda>_. Some ()" None 0, OF refl r g c]
    unfolding Let_def P by (auto simp: query_init_def)
qed

end
