(* ===== verification/Spec2Isabelle.thy ===== *)
theory Spec2Isabelle
  imports AppSpec NavShell Server CardPage StatsFetch StatsSearch StatsSpec StatsErrors PageTypes FirstRender QueryStats UiRoutes ShellPage Gate StatsServer
begin

text \<open>
  \<^bold>\<open>The browser side of proxeus.\<close> proxeus serves Prometheus's Mantine user interface over several
  backends and adds to it with five hand-written scripts, which this development models in full:
  \<^item> \<open>pkg/proxeusui/static/app.js\<close>, the client of the inventory page \<open>/proxeus/backends\<close>: it polls a JSON
    snapshot of all server groups and rebuilds the page from it;
  \<^item> \<open>cmd/proxeus/ui/head.js\<close>, injected first into the Mantine shell: on proxeus's own pages it holds back the
    router's history calls and sends \<open>fetch\<close> requests aimed below the page to the real route prefix;
  \<^item> \<open>cmd/proxeus/ui/stats.js\<close>, injected next: it asks range queries for statistics and keeps a block with
    the statistics of each panel's own response in the query page;
  \<^item> \<open>cmd/proxeus/ui/nav.js\<close>: it customises the shell's header and menus and renders \<open>/backends\<close>;
  \<^item> \<open>cmd/proxeus/ui/cardinality.js\<close>: it renders \<open>/cardinality\<close>.
  The scripts meet in the window (\<open>__proxeusPage\<close>, \<open>__proxeusNavReady\<close>, \<open>fetch\<close>, the history methods:
  record \<open>window\<close> of \<open>HeadNav\<close>), in the paths they and the server agree on (\<open>cmd/proxeus/main.go\<close>:
  \<open>Server\<close>), and in the snapshot two of them draw (\<open>Inventory\<close>).

  \<^bold>\<open>Theories.\<close> Shared:
  \<^item> \<open>Prelude\<close>: JavaScript strings as lists of 16-bit units (\<open>ustr\<close>), \<open>replace\<close>, \<open>trim\<close>, \<open>join\<close>, decimal
    numerals, object literals with their inherited properties (\<open>obj_get\<close>), and \<open>host\<close>, the browser facts that
    are parameters: the clock, the local time zone, locale formatting, legacy date parsing, lower-casing
    outside ASCII;
  \<^item> \<open>Html\<close>: trees, their serialisation, a strict reader for \<open>innerHTML\<close>, and the interface \<open>html_escaper\<close> with
    the theorem its clients use: serialised trees read back as themselves whatever text they carry;
  \<^item> \<open>JsNumber\<close>, \<open>JsDate\<close>: \<open>toFixed\<close>, \<open>toLocaleString('en-US')\<close>, rounding to 53 bits; civil dates,
    \<open>Date.parse\<close> on the ISO format and the UTC getters;
  \<^item> \<open>Async\<close>: exceptions and the interfaces \<open>response_view\<close> (a view that responses overwrite) and
    \<open>observer_callback\<close> (a mutation observer that wakes itself).

  The inventory page: \<open>Inventory\<close> (the records of \<open>pkg/proxeusui/prober.go\<close>), \<open>AppFormat\<close> (lines 19-107),
  \<open>AppView\<close> (109-198, each string with the tree it denotes), \<open>AppPoll\<close> (200-293, the elements, the requests
  under way and the step relation \<open>app_step\<close>), \<open>AppSpec\<close> (the viewer the cycle refines).
  head.js: \<open>HeadNav\<close>. nav.js: \<open>NavHeader\<close> (9-194), \<open>NavView\<close> and \<open>NavBackends\<close> (196-332), \<open>NavShell\<close>
  (334-349, the whole observer). cardinality.js: \<open>CardView\<close>, \<open>CardTree\<close> (5-150), \<open>CardQuery\<close>
  (27-33 and 156-162, with \<open>URLSearchParams\<close>, UTF-16 and UTF-8), \<open>CardPage\<close> (152-211).
  stats.js: \<open>StatsFetch\<close> (5-30), \<open>StatsFind\<close> and \<open>StatsSearch\<close> (36-84), \<open>StatsFormat\<close> and \<open>StatsBlock\<close>
  (90-199), \<open>StatsRender\<close>, \<open>StatsLoop\<close>, \<open>StatsPage\<close> (201-264), \<open>StatsSpec\<close> (what a round of the loop
  promises), \<open>StatsErrors\<close> (the loop where drawing a block throws).

  The server behind the pages:
  \<^item> \<open>Paths\<close> (\<open>path.Clean\<close>, \<open>path.Join\<close> and the clean route prefixes), \<open>Server\<close> (\<open>cmd/proxeus/main.go\<close>: which part answers a path) and \<open>UiRoutes\<close> (\<open>pkg/proxeusui/handler.go\<close>: the
    routes below \<open>/proxeus/\<close>), both for a GET of a plain path;
  \<^item> \<open>Auth\<close> and \<open>AuthCache\<close> (\<open>pkg/auth\<close>: the chain of providers, the exempt paths, the policy, and the cache of
    verified passwords over time), \<open>Escaping\<close> (\<open>net/url\<close> and \<open>http.ServeMux\<close> on escaped paths) and \<open>Gate\<close>
    (\<open>cmd/proxeus/main.go\<close>: the middleware around the router, its routes and the fallback, for every method);
  \<^item> \<open>ShellPage\<close> (\<open>cmd/proxeus/main.go\<close>: the shell with the scripts put into it);
  \<^item> \<open>Prober\<close> (\<open>pkg/proxeusui/prober.go\<close>: rounds of health probes and the snapshot both backend pages read) and
    \<open>FirstRender\<close> (\<open>templates/inventory.html\<close>: the inventory page as the server renders it);
  \<^item> \<open>CardServer\<close> (\<open>pkg/proxeusui/cardinality.go\<close>: the query the Cardinality page sends, what each backend is
    asked, the entry of a group);
  \<^item> \<open>QueryStats\<close> (\<open>pkg/querystats/querystats.go\<close>: the recorder whose answer stats.js draws) and \<open>StatsServer\<close>
    (\<open>cmd/proxeus/querystats.go\<close>: which requests get one, and what their response carries).

  Across scripts: \<open>PageTypes\<close> (the content model all markup obeys, and the links of both inventory pages) and
  this theory (both fetch wrappers, from the menu to the pages, the Cardinality page end to end).
  Definitions keep the names of the functions they model, with a prefix where two scripts share one.

  \<^bold>\<open>What is shown.\<close>
  \<^item> Safety of the markup: every string a script assigns to \<open>innerHTML\<close>, but one, reads back as exactly the
    intended trees, whatever the server sent (\<open>inventory_injection_free\<close>, \<open>cardinality_injection_free\<close>,
    \<open>nav_injection_free\<close>), and those trees are ones a browser does not rearrange (\<open>markup_typed\<close>). The one
    exception is the text of a failed load in nav.js (lemma \<open>nav_error_markup\<close>).
  \<^item> State machines under every interleaving: \<open>app_refines_viewer\<close>, \<open>app_page_invariant\<close>,
    \<open>stats_page_invariant\<close>, \<open>renderPanels_refines\<close>, \<open>backends_page_invariant\<close>, \<open>head_holds_navigation\<close>;
    that the pages appear (\<open>backends_page_appears\<close>, \<open>cardinality_page_appears\<close>) and that the observers
    stop waking themselves (\<open>stats_page_rests\<close>, \<open>shell_observer_settles\<close>).
  \<^item> Composition: \<open>page_requests\<close>, \<open>page_paths_served\<close>, \<open>ui_paths_answered\<close>,
    \<open>shell_runs_scripts\<close>, \<open>menu_links_lead_to_pages\<close>, \<open>backends_page_only_there\<close>,
    \<open>pages_link_same_targets\<close>; and, across the two languages, \<open>first_render_agrees\<close> and, from the form of
    the Cardinality page to the server and back, \<open>cardinality_end_to_end\<close>, and from a range query to the
    statistics its block shows, \<open>query_stats_end_to_end\<close>.
  \<^item> Access: \<open>data_needs_identity\<close> over the whole handler, \<open>policy_by_segments\<close>, \<open>cached_logins_sound\<close> under every
    interleaving, and \<open>plain_requests_agree\<close>, which ties the whole handler to the routing of plain paths.
  \<^item> The server's part: \<open>group_first_answer\<close>, \<open>probe_round_shown\<close> for every order in which the probes of a round
    finish, and \<open>recorder_accounts\<close> for every order in which the requests of
    a query begin and finish.
  \<^item> Values: round trips (\<open>filters_round_trip\<close>, and the lemma \<open>formatAbsolute_rfc3339\<close>), bounds (\<open>fmtDur_error\<close>),
    and the fiber search against its specification (\<open>viewComponent_first\<close>).
  \<^item> Exceptions: \<open>stats_page_survives\<close>.
  \<^item> Where the code does not do what it means to: \<open>encoded_dots_expose_page\<close>, \<open>inventory_poll_misses\<close>,
    \<open>forced_rounds_never_rest\<close>, and the lemmas \<open>stale_answer_shown\<close>, \<open>nav_error_markup\<close>,
    \<open>dot_off_while_loading\<close>, \<open>head_times_invalid\<close>, \<open>same_name_mixed\<close>, \<open>unclean_prefix_misses\<close>.

  \<^bold>\<open>Bounds.\<close> No definition has fuel of its own. The only cut-off is the code's: \<open>viewComponent\<close> looks at no
  more than 400 fibers, and \<open>view_search_ends\<close> shows that this ends its outer loop on any graph, while the inner
  one ends only where the chains of siblings do; both loops are partial functions in \<open>StatsSearch\<close>. Integers
  of the snapshots are unbounded here; JavaScript would round those beyond 2 to the 53.

  \<^bold>\<open>Parameters.\<close> The browser's URL parser (\<open>parse_url\<close>) and the fields of \<open>host\<close>. Hypotheses about them are
  stated where used: a locale time without HTML delimiters, a parser that keeps the path of an address
  below the page, a legacy date parser that reads the page's own format. The route prefix is any rooted path; what
  holds only for the prefixes that \<open>path.Join\<close> leaves as they are assumes \<open>clean_prefix\<close>, which start-up does not
  ensure, and the lemma \<open>unclean_prefix_misses\<close> shows what happens without. Which responses cannot be drawn
  (\<open>broken\<close> in \<open>StatsErrors\<close>). For the server: the HTTP exchange with a target, the times as they are
  marshalled and as they print, the text of a Prometheus duration, the vendored \<open>index.html\<close>, and what Go
  quotes a character outside ASCII by. For the gate: \<open>auth_env\<close> (addresses, base 64, bcrypt, SHA-256, tokens), the
  router, of which only is assumed that it hands a request to a route registered for its method and path,
  and Prometheus's statistics.

  \<^bold>\<open>Not modelled.\<close> The vendored Mantine bundle (React appears as the events it causes: mounting \<open>main\<close>, replacing
  links, menus and panels). SVG icons, style attributes beyond \<open>display\<close>, the children of a cloned menu item but its text nodes.
  The element \<open>js-refresh-text\<close>, which app.js looks up and never uses. Of the Go server only what the pages
  rest on: routing and access, the shell page, the prober, the handlers of the inventory page and of
  the pages' data, and the statistics of a query. Its proxying and merging, the other handlers the router has, flags
  and start-up are not JavaScript and are left out, as are clocks, HTTP transports and the decoding of a
  backend's JSON, whose results are parameters. The template of the inventory page is modelled without the white space between its tags; of
  \<open>html/template\<close> and \<open>http.ServeMux\<close>, what the code uses.
\<close>

section \<open>Requests through both wrappers\<close>

text \<open>
  head.js and stats.js are injected in this order, so a page's request passes through the wrapper of
  stats.js first and then, on a proxeus page, through that of head.js.
\<close>

definition page_fetch :: "(url \<Rightarrow> ustr \<Rightarrow> url option) \<Rightarrow> window \<Rightarrow> url \<Rightarrow> 'o stats_input \<Rightarrow> 'o fetch_input" where
  "page_fetch parse_url w location input =
     head_fetch w (case stats_fetch_input parse_url (w_prefix w) location input of SStr s \<Rightarrow> Str s | SObj r \<Rightarrow> Obj r)"

lemma below_page_no_range:
  assumes "bp \<in> {P @ L ''/backends'', P @ L ''/cardinality''}" "has_prefix (bp @ L ''/'') (u_pathname u)"
  shows "\<not> isRangeQuery P location u"
  using assms by (auto simp: isRangeQuery_def API_PREFIX_def has_prefix_iff)

lemma head_page_window:
  assumes "head_page (w_prefix w) (w_pathname w) = Some bp"
  shows "head_fetch (head_init w) i = head_rewrite (w_prefix w) bp i" "w_prefix (head_init w) = w_prefix w"
  using assms by (simp_all add: head_init_def head_fetch_def)

text \<open>
  C16: The two wrappers compose: on a proxeus page a request aimed below the page reaches the same path below the
  real prefix, untouched by stats.js, while a range query by full address gets its \<open>stats=true\<close> and
  is left alone by head.js.
\<close>

theorem page_requests:
  assumes page: "head_page (w_prefix w) (w_pathname w) = Some bp"
    and below: "\<forall>u. parse_url location (bp @ L ''/'' @ r) = Some u \<longrightarrow> has_prefix (bp @ L ''/'') (u_pathname u)"
    and range: "parse_url location input = Some u" "isRangeQuery (w_prefix w) location u"
      "usp_get (L ''stats'') (url_params u) = None"
    and absolute: "\<not> has_prefix (bp @ L ''/'') (url_toString (url_set_param (L ''stats'') (L ''true'') u))"
  shows "page_fetch parse_url (head_init w) location (SStr (bp @ L ''/'' @ r) :: 'o stats_input) = Str (w_prefix w @ L ''/'' @ r) \<and>
    page_fetch parse_url (head_init w) location (SStr input :: 'o stats_input) =
      Str (url_toString (url_set_param (L ''stats'') (L ''true'') u))"
proof (intro conjI)
  have bp: "bp \<in> {w_prefix w @ L ''/backends'', w_prefix w @ L ''/cardinality''}"
    using page by (simp only: head_page_Some)
  have "stats_fetch_input parse_url (w_prefix w) location (SStr (bp @ L ''/'' @ r) :: 'o stats_input) = SStr (bp @ L ''/'' @ r)"
    using below below_page_no_range [OF bp] by (auto simp del: L.simps split: option.split)
  then show "page_fetch parse_url (head_init w) location (SStr (bp @ L ''/'' @ r) :: 'o stats_input) = Str (w_prefix w @ L ''/'' @ r)"
    by (simp only: page_fetch_def head_page_window [OF page] stats_input.case head_rewrite_below)
  have "stats_fetch_input parse_url (w_prefix w) location (SStr input :: 'o stats_input) =
      SStr (url_toString (url_set_param (L ''stats'') (L ''true'') u))"
    using range by (simp del: L.simps)
  then show "page_fetch parse_url (head_init w) location (SStr input :: 'o stats_input) =
      Str (url_toString (url_set_param (L ''stats'') (L ''true'') u))"
    by (simp only: page_fetch_def head_page_window [OF page] stats_input.case head_rewrite_other [OF absolute])
qed

definition sample_url :: "string \<Rightarrow> url" where
  "sample_url path =
     \<lparr>u_protocol = L ''http:'', u_userinfo = [], u_host = L ''h'', u_pathname = L path, u_search = [], u_hash = []\<rparr>"

definition sample_parser :: "url \<Rightarrow> ustr \<Rightarrow> url option" where
  "sample_parser location s =
     Some (if has_prefix (L ''/backends/'') s then location\<lparr>u_pathname := s\<rparr> else sample_url ''/api/v1/query_range'')"

theorem page_requests_witness:
  "page_fetch sample_parser (head_init (sample_window\<lparr>w_pathname := L ''/backends''\<rparr>)) (sample_url ''/backends'')
     (SStr (L ''/backends/-/ready'') :: unit stats_input) = Str (L ''/-/ready'')"
proof -
  let ?w = "sample_window\<lparr>w_pathname := L ''/backends''\<rparr>" and ?u = "sample_url ''/api/v1/query_range''"
  have page: "head_page (w_prefix ?w) (w_pathname ?w) = Some (L ''/backends'')"
    by (simp add: head_page_Some strip_slash_def sample_window_def)
  have below: "\<forall>u. sample_parser (sample_url ''/backends'') (L ''/backends'' @ L ''/'' @ L ''-/ready'') = Some u \<longrightarrow>
      has_prefix (L ''/backends'' @ L ''/'') (u_pathname u)"
    by (simp add: sample_parser_def)
  have range: "sample_parser (sample_url ''/backends'') (L ''query_range'') = Some ?u"
    "isRangeQuery (w_prefix ?w) (sample_url ''/backends'') ?u" "usp_get (L ''stats'') (url_params ?u) = None"
    by (simp_all add: sample_parser_def isRangeQuery_def url_origin_def sample_url_def API_PREFIX_def sample_window_def
        usp_get_def url_params_def usp_parse_def utf8_def)
  have absolute: "\<not> has_prefix (L ''/backends'' @ L ''/'') (url_toString (url_set_param (L ''stats'') (L ''true'') ?u))"
    by (simp add: url_toString_def url_set_param_def Let_def sample_url_def)
  have "page_fetch sample_parser (head_init ?w) (sample_url ''/backends'') (SStr (L ''/backends'' @ L ''/'' @ L ''-/ready'') :: unit stats_input) =
      Str (w_prefix ?w @ L ''/'' @ L ''-/ready'')"
    by (rule page_requests [THEN conjunct1]) (rule page below range absolute)+
  then show ?thesis by (simp add: sample_window_def)
qed

section \<open>From the form to the server and back\<close>

text \<open>
  What the handler writes, as the script's \<open>fetch\<close> answers it: \<open>http.Error\<close> ends the message with a
  line break, and a success carries the groups as JSON.
\<close>

definition page_response :: "nat \<times> (ustr + cgroup list) \<Rightarrow> card_response" where
  "page_response r =
     (case snd r of
        Inl e \<Rightarrow> CResponse (fst r) (Inr (e @ [ch (CHR 0x0A)])) (Inl \<lparr>e_name = L ''SyntaxError'', e_message = []\<rparr>)
      | Inr groups \<Rightarrow> CResponse (fst r) (Inr []) (Inr (Some groups)))"

lemma trim_messages:
  "trim (L ''topN must be an integer from 1 to 1000'' @ [ch (CHR 0x0A)]) = L ''topN must be an integer from 1 to 1000''"
  "trim (L ''date must be YYYY-MM-DD'' @ [ch (CHR 0x0A)]) = L ''date must be YYYY-MM-DD''"
  by (simp_all add: trim_def js_space_def ch_def)

lemma rejected_shown:
  assumes "k_groups p \<noteq> None" "trim (e @ [ch (CHR 0x0A)]) = e" "e \<noteq> []"
  shows "k_groups (card_settle h (page_response (400, Inl e)) p) = Some (tidy (card_error_trees e))"
  using card_view.view_settle [OF assms(1), of "(h, page_response (400, Inl e))"] assms(2,3)
  by (cases e) (simp_all add: card_shown_def page_response_def)

lemma answered_shown:
  assumes "k_groups p \<noteq> None"
  shows "k_groups (card_settle h (page_response (200, Inr groups)) p) = Some (tidy (card_groups_trees h (Some groups)))"
  using card_view.view_settle [OF assms, of "(h, page_response (200, Inr groups))"]
  by (simp add: card_shown_def page_response_def)

text \<open>
  C34: What the form asks for is what the page shows: for any filters, the query string the page builds is read by
  the server as exactly those filters, every configured group is asked with them, in parallel and
  finishing in any order, and the page then shows the groups in the order of the configuration, each
  with its own result; a number or a date the server does not accept is shown as its message.
\<close>

theorem cardinality_end_to_end:
  fixes f h net today cfg sgs
  defines "bs \<equiv> cardinalityBackends cfg sgs"
  assumes "k_groups p \<noteq> None" "set finished = {..<length bs}"
  shows "k_groups (card_settle h (page_response
      (serveCardinality net today finished cfg sgs (go_str (usp_toString (card_query f))))) p) =
    Some (tidy (case go_topN (go_str (f_topN f)) of
        None \<Rightarrow> card_error_trees (L ''topN must be an integer from 1 to 1000'')
      | Some n \<Rightarrow>
          if f_date f \<noteq> [] \<and> \<not> date_only (go_str (f_date f)) then card_error_trees (L ''date must be YYYY-MM-DD'')
          else card_groups_trees h (Some (map (\<lambda>b. groupCardinality (net (cb_name b)) today
            \<lparr>cq_TopN = n, cq_Match = (if f_match f = [] then [] else [go_str (f_match f)]),
             cq_FocusLabel = go_str (f_focusLabel f), cq_Date = go_str (f_date f)\<rparr> b) bs))))"
proof -
  note shown = rejected_shown [OF assms(2) trim_messages(1)] rejected_shown [OF assms(2) trim_messages(2)] answered_shown [OF assms(2)]
  show ?thesis
    unfolding serveCardinality_def filters_reach_server bs_def [symmetric]
    using shown collect_any_order [OF assms(3)]
    by (cases "go_topN (go_str (f_topN f))") (simp_all del: L.simps)
qed

theorem cardinality_end_to_end_witness:
  "let f = \<lparr>f_topN = [], f_match = [], f_focusLabel = [], f_date = []\<rparr>; p = the (card_boot card_window [] True);
       net = (\<lambda>_ _ _. TFailed (L ''refused'')); bs = cardinalityBackends (Some [sample_config]) sample_groups
   in k_groups (card_settle (plain_host 0) (page_response
        (serveCardinality net [] [0] (Some [sample_config]) sample_groups (go_str (usp_toString (card_query f))))) p) =
      Some (tidy (card_groups_trees (plain_host 0) (Some (map (\<lambda>b. groupCardinality (net (cb_name b)) [] sample_query b) bs))))"
proof -
  let ?f = "\<lparr>f_topN = [], f_match = [], f_focusLabel = [], f_date = []\<rparr>"
  have p: "k_groups (the (card_boot card_window [] True)) \<noteq> None"
    by (simp add: card_boot_def card_window_def card_render_def card_load_def)
  have e: "go_str [] = []" by (simp add: go_str_def utf8_def)
  then have n: "go_topN (go_str (f_topN ?f)) = Some 10" by (simp add: go_topN_def)
  have b: "set [0] = {..<length (cardinalityBackends (Some [sample_config]) sample_groups)}"
    by (auto simp: cardinalityBackends_def)
  show ?thesis unfolding Let_def
    using cardinality_end_to_end [OF p b, of "plain_host 0" "\<lambda>_ _ _. TFailed (L ''refused'')" "[]" ?f] n e
    by (simp add: sample_query_def del: L.simps)
qed

section \<open>From the menu to the pages\<close>

lemma pages_of_paths:
  shows "b_root (nav_boot P (P @ L ''/backends'') True) \<noteq> None"
    and "card_boot (shell_window P (P @ L ''/backends'')) search mounted = None"
    and "b_root (nav_boot P (P @ L ''/cardinality'') mounted) = None"
    and "\<exists>k. card_boot (shell_window P (P @ L ''/cardinality'')) search True = Some k \<and> k_rendered k"
proof -
  have c: "w_page (shell_window P (P @ L ''/cardinality'')) = Some (P @ L ''/cardinality'')"
    using head_page_Some [of P "P @ L ''/cardinality''" "P @ L ''/cardinality''"]
    by (auto simp: shell_window_def head_init_def split: option.split simp del: L.simps)
  show "b_root (nav_boot P (P @ L ''/backends'') True) \<noteq> None"
    using shell_window_backends(1,2) [of P]
    by (simp add: nav_boot_def shell_page_def renderBackendsPage_def loadBackendsData_def isBackendsPage_def Let_def del: L.simps)
  show "card_boot (shell_window P (P @ L ''/backends'')) search mounted = None"
    using shell_window_page(1) [OF strip_slash_page(1)] by (simp add: card_boot_def shell_window_page(3) del: L.simps)
  show "b_root (nav_boot P (P @ L ''/cardinality'') mounted) = None"
    by (simp add: nav_boot_def shell_page_def BACKENDS_PATH_def shell_window_page(3,4) Let_def)
  show "\<exists>k. card_boot (shell_window P (P @ L ''/cardinality'')) search True = Some k \<and> k_rendered k"
    using c by (simp add: card_boot_def shell_window_page(3) card_render_def card_load_def del: L.simps)
qed

text \<open>
  C25: The menu leads where the scripts are waiting: the addresses of the two links nav.js adds to a status menu
  are exactly the ones at which, when opened, head.js recognises the page and nav.js renders the
  Backends page, respectively cardinality.js the Cardinality page, and neither does the other's work.
\<close>

theorem menu_links_lead_to_pages:
  assumes "\<not> mn_processed mn" "\<forall>n \<in> set (mn_nodes mn). L ''data-proxeus-backends'' \<notin> set (m_marks n)"
    and "last_index (\<lambda>n. m_label n \<and> node_text n = L ''Server status'') (mn_nodes mn) = Some s"
    and "\<exists>n \<in> set (mn_nodes mn). m_item n \<and> node_text n = L ''Target health''"
    and "w_page w \<in> {None, Some (w_prefix w @ L ''/backends''), Some (w_prefix w @ L ''/cardinality'')}"
  shows "let ns = mn_nodes (customise_menu w mn); P = w_prefix w;
      b = a_pathname (m_el (ns ! Suc s)); c = a_pathname (m_el (ns ! Suc (Suc s)))
    in b_root (nav_boot P b True) \<noteq> None \<and> card_boot (shell_window P b) search mounted = None \<and>
       b_root (nav_boot P c mounted) = None \<and> (\<exists>k. card_boot (shell_window P c) search True = Some k \<and> k_rendered k)"
proof -
  have b: "a_pathname (m_el (mn_nodes (customise_menu w mn) ! Suc s)) = w_prefix w @ L ''/backends''"
    and c: "a_pathname (m_el (mn_nodes (customise_menu w mn) ! Suc (Suc s))) = w_prefix w @ L ''/cardinality''"
    using menu_links_at [OF assms] unfolding Let_def by blast+
  show ?thesis unfolding Let_def b c using pages_of_paths by blast
qed

theorem menu_links_lead_to_pages_witness:
  "b_root (nav_boot [] (a_pathname (m_el (mn_nodes (customise_menu sample_window
      \<lparr>mn_processed = False, mn_nodes = [sample_node ''Target health'' True, sample_node ''Server status'' False]\<rparr>) ! 2))) True) \<noteq> None"
proof -
  let ?mn = "\<lparr>mn_processed = False, mn_nodes = [sample_node ''Target health'' True, sample_node ''Server status'' False]\<rparr>"
  have t: "node_text (sample_node ''Server status'' i) = L ''Server status''"
    "node_text (sample_node ''Target health'' i) = L ''Target health''" for i
    by (simp_all add: node_text_def sample_node_def trim_def js_space_def ch_def)
  have s: "last_index (\<lambda>n. m_label n \<and> node_text n = L ''Server status'') (mn_nodes ?mn) = Some 1"
    using t by (simp add: last_index_def sample_node_simps del: L.simps)
  have w: "w_prefix sample_window = []" "w_page sample_window = None" by (simp_all add: sample_window_def)
  from menu_links_lead_to_pages [OF _ _ s, of sample_window] show ?thesis
    using t by (simp add: Let_def sample_node_simps w numeral_2_eq_2 del: L.simps not_None_eq)
qed

text \<open>
  C26: The Backends page appears nowhere else: if after any events its container exists, the page was opened at the
  Backends path itself, and there the Cardinality script does nothing.
\<close>

theorem backends_page_only_there:
  assumes "b_root (fold nav_step es (nav_boot P path mounted)) \<noteq> None"
  shows "path = P @ L ''/backends'' \<and> card_boot (shell_window P path) search m' = None"
proof -
  define Q where "Q p \<longleftrightarrow> w_page (b_window p) = w_page (shell_window P path) \<and> w_prefix (b_window p) = P \<and>
    (b_root p \<noteq> None \<longrightarrow> w_page (shell_window P path) = Some (P @ L ''/backends''))" for p :: backends_page
  have step: "Q (nav_step e p)" if "Q p" for e p
    using that by (cases e) (auto simp: Q_def nav_observe_def renderBackendsPage_def loadBackendsData_def nav_settle_def
        isBackendsPage_def BACKENDS_PATH_def Let_def simp del: L.simps)
  have "Q (nav_boot P path mounted)"
    by (auto simp: Q_def nav_boot_def shell_page_def renderBackendsPage_def loadBackendsData_def isBackendsPage_def
        BACKENDS_PATH_def Let_def shell_window_page(3) simp del: L.simps)
  then have "Q (fold nav_step es (nav_boot P path mounted))" by (induction es rule: rev_induct) (simp_all add: step)
  with assms have pg: "w_page (shell_window P path) = Some (P @ L ''/backends'')" by (simp add: Q_def)
  then have "strip_slash path = P @ L ''/backends''"
    by (auto simp: shell_window_def head_init_def head_page_Some simp del: L.simps split: option.splits)
  moreover have "path \<noteq> P @ L ''/backends/''"
    using nav_idle_run [OF boot_with_slash_idle, of es P mounted] assms by (auto simp: nav_idle_def)
  ultimately have "path = P @ L ''/backends''" using strip_slash_cases [of path "P @ L ''/backends''"] by auto
  with pages_of_paths(2) show ?thesis by simp
qed

theorem backends_page_only_there_witness:
  "b_root (fold nav_step [] (nav_boot [] (L ''/backends'') True)) \<noteq> None \<and>
   card_boot (shell_window [] (L ''/backends'')) [] True = None"
proof
  show r: "b_root (fold nav_step [] (nav_boot [] (L ''/backends'') True)) \<noteq> None"
    using pages_of_paths(1) [of "[]"] by simp
  show "card_boot (shell_window [] (L ''/backends'')) [] True = None" using backends_page_only_there [OF r] by blast
qed

end
